(* ===== verification/Prelude.thy ===== *)
theory Prelude
  imports Main "HOL-Library.Word" "HOL-Library.AList"
begin

text \<open>
  What every component theory shares: the faults a C or Rust memory error is turned into, the
  sequencing of fallible steps, a total-correctness predicate on their outcomes, the nine
  status bits of a context as operations on 16-bit words, and the list and association-list
  facts the pending table and the listener tables rest on.

  A step of the program is a function from the state to \<open>fault + result\<close>: \<open>Inl\<close> is undefined
  behaviour (the program may do anything from there on, so the model stops), \<open>Inr\<close> is a
  regular outcome. A JavaScript exception is a regular outcome.
\<close>

unbundle bit_operations_syntax

section \<open>Faults and sequencing\<close>

datatype fault =
    NullDeref         \<comment> \<open>a NULL pointer is dereferenced\<close>
  | UseAfterFree      \<comment> \<open>a freed (or never allocated) object is read, written or called\<close>
  | DoubleFree        \<comment> \<open>an object is released a second time\<close>
  | PendingOverflow   \<comment> \<open>a write past the end of the pending table\<close>
  | DukFatal          \<comment> \<open>a Duktape error outside any protected call: the process aborts\<close>

definition bnd :: "fault + 'a \<Rightarrow> ('a \<Rightarrow> fault + 'b) \<Rightarrow> fault + 'b" where
  "bnd m f = (case m of Inl e \<Rightarrow> Inl e | Inr x \<Rightarrow> f x)"

definition safe :: "fault + 'a \<Rightarrow> ('a \<Rightarrow> bool) \<Rightarrow> bool" where
  "safe m Q = (case m of Inl e \<Rightarrow> e = PendingOverflow | Inr x \<Rightarrow> Q x)"

text \<open>
  \<open>safe m Q\<close>: the step commits no memory error and ends in a state with \<open>Q\<close>. The one fault it
  admits is the overflow of the 16-bit pending table, which is bounded separately.
\<close>

named_theorems safe_intros \<open>introduction rules for \<^const>\<open>safe\<close>\<close>
named_theorems prim_defs \<open>definitions of the state primitives\<close>

lemma bnd_Inr [simp]: "bnd (Inr x) f = f x"
  by (simp add: bnd_def)

lemma bnd_Inl [simp]: "bnd (Inl e) f = Inl e"
  by (simp add: bnd_def)

lemma bnd_return [simp]: "bnd m Inr = m"
  by (cases m) simp_all

lemma bnd_assoc: "bnd (bnd m f) g = bnd m (\<lambda>x. bnd (f x) g)"
  by (cases m) simp_all

lemma bnd_eq_Inr: "bnd m f = Inr y \<longleftrightarrow> (\<exists>x. m = Inr x \<and> f x = Inr y)"
  by (cases m) simp_all

lemma bnd_eq_InrE:
  assumes "bnd m f = Inr y"
  obtains x where "m = Inr x" and "f x = Inr y"
  using assms by (auto simp: bnd_eq_Inr)

lemma safe_Inr [simp]: "safe (Inr x) Q \<longleftrightarrow> Q x"
  by (simp add: safe_def)

lemma safe_Inl [simp]: "safe (Inl e) Q \<longleftrightarrow> e = PendingOverflow"
  by (simp add: safe_def)

lemma safe_bnd: "safe (bnd m f) Q \<longleftrightarrow> safe m (\<lambda>x. safe (f x) Q)"
  by (cases m) simp_all

lemma safe_mono: "safe m P \<Longrightarrow> (\<And>x. P x \<Longrightarrow> Q x) \<Longrightarrow> safe m Q"
  by (cases m) simp_all

lemma safe_result: "safe m P \<Longrightarrow> (\<And>x. m = Inr x \<Longrightarrow> P x \<Longrightarrow> Q x) \<Longrightarrow> safe m Q"
  by (cases m) simp_all

lemma safe_bndI [safe_intros]:
  assumes "safe m P" and "\<And>x. P x \<Longrightarrow> safe (f x) Q"
  shows "safe (bnd m f) Q"
  using assms by (cases m) simp_all

lemma safe_conj: "safe m P \<Longrightarrow> safe m Q \<Longrightarrow> safe m (\<lambda>x. P x \<and> Q x)"
  by (cases m) simp_all

lemma safe_InrD: "safe m Q \<Longrightarrow> m = Inr x \<Longrightarrow> Q x"
  by simp

lemma safe_ifI [safe_intros]:
  assumes "b \<Longrightarrow> safe m Q" and "\<not> b \<Longrightarrow> safe n Q"
  shows "safe (if b then m else n) Q"
  using assms by simp

section \<open>Status bits\<close>

type_synonym u16 = "16 word"
type_synonym u32 = "32 word"
type_synonym byte = "8 word"
type_synonym bytes = "byte list"

definition has_flag :: "u16 \<Rightarrow> u16 \<Rightarrow> bool" where
  "has_flag f m \<longleftrightarrow> f AND m \<noteq> 0"

definition set_flag :: "u16 \<Rightarrow> u16 \<Rightarrow> u16" where
  "set_flag f m = f OR m"

definition clr_flag :: "u16 \<Rightarrow> u16 \<Rightarrow> u16" where
  "clr_flag f m = f AND NOT m"

definition is_flag :: "u16 \<Rightarrow> bool" where
  "is_flag m \<longleftrightarrow> (\<exists>k < 16. m = 2 ^ k)"

lemma is_flagI: "k < 16 \<Longrightarrow> m = 2 ^ k \<Longrightarrow> is_flag m"
  by (auto simp: is_flag_def)

lemma is_flag_numerals [simp]:
  "is_flag 1" "is_flag 2" "is_flag 4" "is_flag 8" "is_flag 16"
  "is_flag 32" "is_flag 64" "is_flag 128" "is_flag 256"
  by (rule is_flagI[of 0], simp, simp) (rule is_flagI[of 1], simp, simp,
      rule is_flagI[of 2], simp, simp, rule is_flagI[of 3], simp, simp,
      rule is_flagI[of 4], simp, simp, rule is_flagI[of 5], simp, simp,
      rule is_flagI[of 6], simp, simp, rule is_flagI[of 7], simp, simp,
      rule is_flagI[of 8], simp, simp)

lemma has_flag_power:
  assumes "k < 16"
  shows "has_flag f (2 ^ k) \<longleftrightarrow> bit f k"
proof -
  have "f AND 2 ^ k = (if bit f k then 2 ^ k else 0)"
    by (rule bit_eqI) (auto simp: bit_simps)
  moreover have "bit (2 ^ k :: u16) k"
    using assms by (simp add: bit_simps)
  then have "(2 ^ k :: u16) \<noteq> 0"
    by (auto simp: bit_simps)
  ultimately show ?thesis
    by (simp add: has_flag_def)
qed

lemma power_flag_inject:
  assumes "i < 16" and "j < 16"
  shows "(2 ^ i :: u16) = 2 ^ j \<longleftrightarrow> i = j"
  using assms by (auto simp: bit_eq_iff bit_simps)

lemma has_set_flag [simp]:
  assumes "is_flag a" and "is_flag b"
  shows "has_flag (set_flag f a) b \<longleftrightarrow> a = b \<or> has_flag f b"
proof -
  obtain i j where ij: "i < 16" "j < 16" and ab: "a = 2 ^ i" "b = 2 ^ j"
    using assms by (auto simp: is_flag_def)
  show ?thesis
    unfolding ab set_flag_def has_flag_power[OF ij(2)] power_flag_inject[OF ij]
    using ij by (auto simp: bit_simps)
qed

lemma has_clr_flag [simp]:
  assumes "is_flag a" and "is_flag b"
  shows "has_flag (clr_flag f a) b \<longleftrightarrow> a \<noteq> b \<and> has_flag f b"
proof -
  obtain i j where ij: "i < 16" "j < 16" and ab: "a = 2 ^ i" "b = 2 ^ j"
    using assms by (auto simp: is_flag_def)
  show ?thesis
    unfolding ab clr_flag_def has_flag_power[OF ij(2)] power_flag_inject[OF ij]
    using ij by (auto simp: bit_simps)
qed

lemma has_flag_zero [simp]: "\<not> has_flag 0 m"
  by (simp add: has_flag_def)

section \<open>Lists\<close>

lemma remove1_eq_take_drop:
  assumes "i < length xs" and "xs ! i = x" and "\<And>j. j < i \<Longrightarrow> xs ! j \<noteq> x"
  shows "remove1 x xs = take i xs @ drop (Suc i) xs"
  using assms
proof (induction xs arbitrary: i)
  case Nil
  then show ?case by simp
next
  case (Cons y xs)
  show ?case
  proof (cases i)
    case 0
    with Cons.prems show ?thesis by simp
  next
    case (Suc k)
    have "y \<noteq> x" using Cons.prems(3)[of 0] Suc by simp
    moreover have "xs ! j \<noteq> x" if "j < k" for j
      using Cons.prems(3)[of "Suc j"] Suc that by simp
    then have "remove1 x xs = take k xs @ drop (Suc k) xs"
      using Cons.prems(1,2) Suc by (intro Cons.IH) auto
    ultimately show ?thesis using Suc by simp
  qed
qed

lemma distinct_snoc_iff [simp]: "distinct (xs @ [x]) \<longleftrightarrow> distinct xs \<and> x \<notin> set xs"
  by auto

section \<open>Strings\<close>

text \<open>\<open>strstr(s, t) != NULL\<close>.\<close>

fun strstr :: "string \<Rightarrow> string \<Rightarrow> bool" where
  "strstr s t = (take (length t) s = t \<or> (case s of [] \<Rightarrow> False | _ # s' \<Rightarrow> strstr s' t))"

declare strstr.simps [simp del]

lemma strstr_iff: "strstr s t \<longleftrightarrow> (\<exists>us vs. s = us @ t @ vs)"
proof (induction s)
  case Nil
  show ?case by (subst strstr.simps) auto
next
  case (Cons c s)
  have "take (length t) (c # s) = t \<longleftrightarrow> (\<exists>vs. c # s = t @ vs)"
    by (metis append_eq_conv_conj append_take_drop_id)
  then have "strstr (c # s) t \<longleftrightarrow> (\<exists>vs. c # s = t @ vs) \<or> strstr s t"
    by (subst strstr.simps) simp
  also have "\<dots> \<longleftrightarrow> (\<exists>us vs. c # s = us @ t @ vs)"
    unfolding Cons.IH by (metis (no_types, opaque_lifting) append_Cons append_Nil list.inject neq_Nil_conv)
  finally show ?case .
qed

end
