(* ===== verification/IrohAsync.thy ===== *)
theory IrohAsync
  imports Prelude
begin

text \<open>
  The Rust side of the bridge (\<open>src/lib.rs\<close>) as the C module sees it: asynchronous handles
  (\<open>IrohAsyncHandle\<close>), the tokio task behind each handle, and the objects handed to C as raw
  pointers (\<open>Box::into_raw\<close>) and taken back by \<open>Box::from_raw\<close>.

  The state \<open>rust\<close> holds the handles, the live long-lived objects (\<open>r_res\<close>: endpoints,
  connections, streams, protocols), the live short-lived ones (\<open>r_tmp\<close>: keys, addresses, ids,
  hashes, tickets, each with its printed form), whether the tokio runtime is initialised and
  the thread's last error. Identifiers are never reused, so every access through a dangling
  pointer is seen. What the operating system and the crates outside the repository decide is a
  parameter: \<open>sysenv\<close>.
\<close>

section \<open>Types\<close>

type_synonym hid = nat
type_synonym rid = nat

datatype IrohAsyncState = Pending | Ready | Error | Cancelled

datatype rkind =
    KEndpoint | KConnection | KSendStream | KRecvStream | KGossip | KGossipTopic
  | KBlobStore | KBlobsProtocol | KDocs | KRouter

datatype tkind =
    TPublicKey | TEndpointAddr | TTopicId | TBlobHash | TBlobTicket
  | TAuthorId | TNamespaceId | TDocTicket

datatype IrohRelayMode = RelayDisabled | RelayDefault | RelayCustom

record IrohEndpointConfig =
  secret_key :: "bytes option"
  alpns :: "string list"
  discovery_n0 :: bool
  discovery_dns :: bool
  discovery_pkarr_publish :: bool
  relay_mode :: IrohRelayMode
  relay_url :: "string option"
  bind_port :: "u16 option"
  max_idle_timeout_ms :: "64 word option"

text \<open>
  The boxed results a task stores (\<open>Box<dyn Any + Send>\<close>), one constructor per Rust type;
  \<open>ABlobsRouter\<close>, \<open>ADocs4\<close> and \<open>ADocs3\<close> are the tuples the result getters put back.
\<close>

datatype rust_any =
    AEndpoint | AConnection | ABiStream | ARecvStream | AUnit | AUsize nat
  | ARead bytes bool | ABytes bytes
  | AGossipWithRouter | ARouter | AGossipTopic | AGossipEvent nat bytes "string option"
  | ABlobsWithRouter | ABlobsRouter | ABlobHash string
  | ADocsWithRouter | ADocs4 | ADocs3 | AAuthorId string | ANamespaceId string
  | ADocTicket string | APairs "(string \<times> bytes) list"

text \<open>The request a spawned task works on: one constructor per asynchronous entry point.\<close>

datatype req =
    RqEndpointCreate IrohEndpointConfig | RqEndpointClose rid | RqConnect rid string string
  | RqAccept rid | RqOpenBi rid | RqAcceptBi rid | RqWrite rid bytes | RqRead rid nat
  | RqRecvDatagram rid | RqWaitOnline rid
  | RqGossipCreate rid | RqSubscribe rid string "string list" | RqBroadcast rid bytes
  | RqGossipRecv rid
  | RqBlobsCreate rid "string option" | RqAddBytes rid bytes | RqAddFile rid string
  | RqBlobsRead rid string | RqDownload rid rid string
  | RqDocsCreate rid "string option" | RqCreateAuthor rid | RqCreateDoc rid
  | RqDocsSet rid string string string bytes
  | RqDocsSetMulti rid string string "(string \<times> bytes) list"
  | RqDocsGet rid string string string | RqDocsGetLatest rid string string
  | RqDocsGetAll rid string | RqDocsDelete rid string string string
  | RqCreateTicket rid string rid | RqJoin rid string

record IrohAsyncHandle =
  h_state :: IrohAsyncState
  h_result :: "rust_any option"
  h_error :: "string option"
  h_read_fd :: int
  h_req :: req          \<comment> \<open>what the task was spawned for\<close>
  h_running :: bool     \<comment> \<open>the task holds its clone of the handle and has not completed\<close>
  h_cref :: bool        \<comment> \<open>C has not yet given its reference back\<close>

record rust =
  r_handles :: "hid \<Rightarrow> IrohAsyncHandle option"
  r_res :: "rid \<Rightarrow> rkind option"
  r_tmp :: "rid \<Rightarrow> (tkind \<times> string) option"
  r_next :: nat
  r_runtime :: bool
  r_last_error :: "string option"

text \<open>
  Decided outside the repository: whether \<open>libc::pipe\<close> succeeds and which read end it returns,
  whether the tokio runtime can be created (\<open>None\<close>) or why not, the crates' parsers (\<open>Inr\<close> a string's canonical printed form, or \<open>Inl\<close> the parse error's
  text), the BLAKE3 hash of a topic name, what endpoints and connections report about
  themselves, and whether a datagram can be sent.
\<close>

record sysenv =
  env_pipe :: "hid \<Rightarrow> int option"
  env_runtime_new :: "string option"
  env_parse :: "tkind \<Rightarrow> string \<Rightarrow> string + string"
  env_blake3 :: "string \<Rightarrow> string"
  env_endpoint_id :: "rid \<Rightarrow> string"
  env_endpoint_secret :: "rid \<Rightarrow> bytes"
  env_endpoint_addr :: "rid \<Rightarrow> string"
  env_remote_id :: "rid \<Rightarrow> string"
  env_conn_alpn :: "rid \<Rightarrow> string"
  env_blob_ticket :: "rid \<Rightarrow> string \<Rightarrow> string"
  env_send_datagram :: "rid \<Rightarrow> bytes \<Rightarrow> string option"

section \<open>Errors and C strings\<close>

definition set_last_error :: "string \<Rightarrow> rust \<Rightarrow> rust" where
  "set_last_error msg r = r\<lparr>r_last_error := Some msg\<rparr>"

text \<open>\<open>CString::new\<close> fails on an interior NUL; the caller then gets a NULL pointer.\<close>

definition cstring_new :: "string \<Rightarrow> string option" where
  "cstring_new s = (if CHR 0x00 \<in> set s then None else Some s)"

definition iroh_last_error :: "rust \<Rightarrow> string option" where
  "iroh_last_error r = Option.bind (r_last_error r) cstring_new"

section \<open>Handles\<close>

definition get_handle :: "rust \<Rightarrow> hid \<Rightarrow> fault + IrohAsyncHandle" where
  "get_handle r h =
     (case r_handles r h of
        None \<Rightarrow> Inl UseAfterFree
      | Some ah \<Rightarrow> if h_cref ah then Inr ah else Inl UseAfterFree)"

definition put_handle :: "hid \<Rightarrow> IrohAsyncHandle \<Rightarrow> rust \<Rightarrow> rust" where
  "put_handle h ah r = r\<lparr>r_handles := (r_handles r)(h := Some ah)\<rparr>"

text \<open>
  \<open>IrohAsyncHandle::new\<close> followed by \<open>runtime.spawn\<close>: the runtime is looked up first, then the
  pipe is created; the task gets a clone of the \<open>Arc\<close>, C gets the other reference.
\<close>

definition handle_new :: "int \<Rightarrow> req \<Rightarrow> IrohAsyncHandle" where
  "handle_new fd rq =
     \<lparr>h_state = Pending, h_result = None, h_error = None, h_read_fd = fd,
      h_req = rq, h_running = True, h_cref = True\<rparr>"

definition spawn :: "'e sysenv_scheme \<Rightarrow> rust \<Rightarrow> req \<Rightarrow> hid option \<times> rust" where
  "spawn env r rq =
     (if \<not> r_runtime r then (None, set_last_error ''Runtime not initialized'' r)
      else case env_pipe env (r_next r) of
             None \<Rightarrow> (None, set_last_error ''Failed to create async handle'' r)
           | Some fd \<Rightarrow>
               (Some (r_next r),
                (put_handle (r_next r) (handle_new fd rq) r)\<lparr>r_next := Suc (r_next r)\<rparr>))"

definition complete_with_result :: "rust_any \<Rightarrow> IrohAsyncHandle \<Rightarrow> IrohAsyncHandle" where
  "complete_with_result v ah = ah\<lparr>h_result := Some v, h_state := Ready, h_running := False\<rparr>"

definition complete_with_error :: "string \<Rightarrow> IrohAsyncHandle \<Rightarrow> IrohAsyncHandle" where
  "complete_with_error msg ah = ah\<lparr>h_error := Some msg, h_state := Error, h_running := False\<rparr>"

text \<open>
  \<open>take_result::<T>\<close>: the stored box is taken out whether or not it has the asked type; the
  downcast is a partial function on \<open>rust_any\<close>.
\<close>

definition take_result ::
  "(rust_any \<Rightarrow> 'a option) \<Rightarrow> rust \<Rightarrow> hid \<Rightarrow> fault + 'a option \<times> rust" where
  "take_result downcast r h =
     bnd (get_handle r h) (\<lambda>ah.
       Inr (Option.bind (h_result ah) downcast, put_handle h (ah\<lparr>h_result := None\<rparr>) r))"

definition iroh_async_get_fd :: "rust \<Rightarrow> hid option \<Rightarrow> fault + int" where
  "iroh_async_get_fd r h =
     (case h of None \<Rightarrow> Inr (-1) | Some h \<Rightarrow> bnd (get_handle r h) (\<lambda>ah. Inr (h_read_fd ah)))"

definition iroh_async_poll :: "rust \<Rightarrow> hid option \<Rightarrow> fault + IrohAsyncState" where
  "iroh_async_poll r h =
     (case h of None \<Rightarrow> Inr Error | Some h \<Rightarrow> bnd (get_handle r h) (\<lambda>ah. Inr (h_state ah)))"

definition iroh_async_get_error :: "rust \<Rightarrow> hid option \<Rightarrow> fault + string option" where
  "iroh_async_get_error r h =
     (case h of None \<Rightarrow> Inr None
      | Some h \<Rightarrow> bnd (get_handle r h) (\<lambda>ah. Inr (Option.bind (h_error ah) cstring_new)))"

definition iroh_async_cancel :: "rust \<Rightarrow> hid option \<Rightarrow> fault + rust" where
  "iroh_async_cancel r h =
     (case h of None \<Rightarrow> Inr r
      | Some h \<Rightarrow> bnd (get_handle r h) (\<lambda>ah. Inr (put_handle h (ah\<lparr>h_state := Cancelled\<rparr>) r)))"

text \<open>
  \<open>iroh_async_free\<close> drops C's \<open>Arc\<close>. The handle itself lives on while its task runs; a second
  free would drop a reference C no longer has.
\<close>

definition iroh_async_free :: "rust \<Rightarrow> hid option \<Rightarrow> fault + rust" where
  "iroh_async_free r h =
     (case h of None \<Rightarrow> Inr r
      | Some h \<Rightarrow>
          (case r_handles r h of
             None \<Rightarrow> Inl DoubleFree
           | Some ah \<Rightarrow> if h_cref ah then Inr (put_handle h (ah\<lparr>h_cref := False\<rparr>) r)
                        else Inl DoubleFree))"

section \<open>Objects handed to C\<close>

definition box_into_raw :: "rkind \<Rightarrow> rust \<Rightarrow> rid \<times> rust" where
  "box_into_raw k r =
     (r_next r, r\<lparr>r_res := (r_res r)(r_next r := Some k), r_next := Suc (r_next r)\<rparr>)"

definition box_from_raw :: "rkind \<Rightarrow> rid \<Rightarrow> rust \<Rightarrow> fault + rust" where
  "box_from_raw k x r =
     (if r_res r x = Some k then Inr (r\<lparr>r_res := (r_res r)(x := None)\<rparr>) else Inl DoubleFree)"

definition iroh_free :: "rkind \<Rightarrow> rid option \<Rightarrow> rust \<Rightarrow> fault + rust" where
  "iroh_free k x r = (case x of None \<Rightarrow> Inr r | Some x \<Rightarrow> box_from_raw k x r)"

definition tmp_into_raw :: "tkind \<Rightarrow> string \<Rightarrow> rust \<Rightarrow> rid \<times> rust" where
  "tmp_into_raw k s r =
     (r_next r, r\<lparr>r_tmp := (r_tmp r)(r_next r := Some (k, s)), r_next := Suc (r_next r)\<rparr>)"

definition tmp_free :: "tkind \<Rightarrow> rid option \<Rightarrow> rust \<Rightarrow> fault + rust" where
  "tmp_free k x r =
     (case x of None \<Rightarrow> Inr r
      | Some x \<Rightarrow> (case r_tmp r x of
           Some (k', s) \<Rightarrow> if k' = k then Inr (r\<lparr>r_tmp := (r_tmp r)(x := None)\<rparr>) else Inl DoubleFree
         | None \<Rightarrow> Inl DoubleFree))"

definition tmp_val :: "tkind \<Rightarrow> rid \<Rightarrow> rust \<Rightarrow> fault + string" where
  "tmp_val k x r =
     (case r_tmp r x of
        Some (k', s) \<Rightarrow> if k' = k then Inr s else Inl UseAfterFree
      | None \<Rightarrow> Inl UseAfterFree)"

text \<open>\<open>iroh_*_from_string\<close>: a parse failure is a NULL pointer and sets the last error.\<close>

fun parse_failed :: "tkind \<Rightarrow> string" where
  "parse_failed TBlobHash = ''Failed to parse hash: ''"
| "parse_failed TBlobTicket = ''Failed to parse ticket: ''"
| "parse_failed TAuthorId = ''Failed to parse author ID: ''"
| "parse_failed TNamespaceId = ''Failed to parse namespace ID: ''"
| "parse_failed TDocTicket = ''Failed to parse doc ticket: ''"
| "parse_failed TTopicId = ''Failed to parse topic: ''"
| "parse_failed _ = ''Failed to parse public key: ''"

definition tmp_from_string ::
  "'e sysenv_scheme \<Rightarrow> tkind \<Rightarrow> string \<Rightarrow> rust \<Rightarrow> rid option \<times> rust" where
  "tmp_from_string env k s r =
     (case env_parse env k s of
        Inl e \<Rightarrow> (None, set_last_error (parse_failed k @ e) r)
      | Inr c \<Rightarrow> (case tmp_into_raw k c r of (x, r') \<Rightarrow> (Some x, r')))"

text \<open>\<open>iroh_*_to_string\<close>: NULL when the text holds a NUL.\<close>

definition tmp_to_string :: "tkind \<Rightarrow> rid \<Rightarrow> rust \<Rightarrow> fault + string option" where
  "tmp_to_string k x r = bnd (tmp_val k x r) (\<lambda>s. Inr (cstring_new s))"

section \<open>Tasks\<close>

text \<open>
  The raw pointers a spawned task dereferences while it runs (\<open>let ep_ptr = endpoint as usize\<close>
  and its kin). Every other task works on clones made before it is spawned.
\<close>

fun task_borrows :: "req \<Rightarrow> rid list" where
  "task_borrows (RqConnect e _ _) = [e]"
| "task_borrows (RqAccept e) = [e]"
| "task_borrows (RqWaitOnline e) = [e]"
| "task_borrows (RqWrite s _) = [s]"
| "task_borrows (RqRead s _) = [s]"
| "task_borrows (RqSubscribe g _ _) = [g]"
| "task_borrows (RqBroadcast t _) = [t]"
| "task_borrows (RqGossipRecv t) = [t]"
| "task_borrows _ = []"

text \<open>The type of result each task stores when it succeeds.\<close>

fun task_result :: "req \<Rightarrow> rust_any \<Rightarrow> bool" where
  "task_result (RqEndpointCreate _) v = (v = AEndpoint)"
| "task_result (RqEndpointClose _) v = (v = AUnit)"
| "task_result (RqConnect _ _ _) v = (v = AConnection)"
| "task_result (RqAccept _) v = (v = AConnection)"
| "task_result (RqOpenBi _) v = (v = ABiStream)"
| "task_result (RqAcceptBi _) v = (v = ABiStream)"
| "task_result (RqWrite _ d) v = (v = AUsize (length d))"
| "task_result (RqRead _ m) v =
     (case v of ARead d fin \<Rightarrow> length d \<le> m \<and> (fin \<longrightarrow> d = []) | _ \<Rightarrow> False)"
| "task_result (RqRecvDatagram _) v = (\<exists>d. v = ABytes d)"
| "task_result (RqWaitOnline _) v = (v = AUnit)"
| "task_result (RqGossipCreate _) v = (v = AGossipWithRouter)"
| "task_result (RqSubscribe _ _ _) v = (v = AGossipTopic)"
| "task_result (RqBroadcast _ _) v = (v = AUnit)"
| "task_result (RqGossipRecv _) v =
     (case v of AGossipEvent t d p \<Rightarrow>
        t = 0 \<and> p \<noteq> None \<or> (t = 1 \<or> t = 2) \<and> d = [] \<and> p \<noteq> None \<or> t = 4 \<and> d = [] \<and> p = None
      | _ \<Rightarrow> False)"
| "task_result (RqBlobsCreate _ _) v = (v = ABlobsWithRouter)"
| "task_result (RqAddBytes _ _) v = (\<exists>s. v = ABlobHash s)"
| "task_result (RqAddFile _ _) v = (\<exists>s. v = ABlobHash s)"
| "task_result (RqBlobsRead _ _) v = (\<exists>d. v = ABytes d)"
| "task_result (RqDownload _ _ _) v = (\<exists>s. v = ABlobHash s)"
| "task_result (RqDocsCreate _ _) v = (v = ADocsWithRouter)"
| "task_result (RqCreateAuthor _) v = (\<exists>s. v = AAuthorId s)"
| "task_result (RqCreateDoc _) v = (\<exists>s. v = ANamespaceId s)"
| "task_result (RqDocsSet _ _ _ _ _) v = (v = AUnit)"
| "task_result (RqDocsSetMulti _ _ _ _) v = (v = AUnit)"
| "task_result (RqDocsGet _ _ _ _) v = (\<exists>d. v = ABytes d)"
| "task_result (RqDocsGetLatest _ _ _) v = (\<exists>d. v = ABytes d)"
| "task_result (RqDocsGetAll _ _) v = (\<exists>ps. v = APairs ps)"
| "task_result (RqDocsDelete _ _ _ _) v = (v = AUnit)"
| "task_result (RqCreateTicket _ _ _) v = (\<exists>s. v = ADocTicket s)"
| "task_result (RqJoin _ _) v = (\<exists>s. v = ANamespaceId s)"

text \<open>
  A running task finishes: it has held its raw pointers until now, so each of them must still
  be live; then it stores its result or its error and writes to the pipe. It does so even when
  C cancelled the operation or gave its reference back.
\<close>

definition task_complete :: "rust \<Rightarrow> hid \<Rightarrow> string + rust_any \<Rightarrow> fault + rust" where
  "task_complete r h out =
     (case r_handles r h of
        None \<Rightarrow> Inl UseAfterFree
      | Some ah \<Rightarrow>
          if \<not> list_all (\<lambda>x. r_res r x \<noteq> None) (task_borrows (h_req ah)) then Inl UseAfterFree
          else Inr (put_handle h
                 (case out of Inl msg \<Rightarrow> complete_with_error msg ah
                  | Inr v \<Rightarrow> complete_with_result v ah) r))"

section \<open>Initialisation\<close>

datatype IrohError =
    ErrOk | ErrInvalidArgument | ErrOutOfMemory | ErrTimeout | ErrConnectionFailed | ErrStreamError
  | ErrEndpointClosed | ErrPending | ErrInternal | ErrParseError | ErrNotInitialized
  | ErrAlreadyInitialized | ErrBlobNotFound | ErrTopicError | ErrDocError

definition iroh_init :: "'e sysenv_scheme \<Rightarrow> rust \<Rightarrow> IrohError \<times> rust" where
  "iroh_init env r =
     (if r_runtime r then (ErrAlreadyInitialized, r)
      else case env_runtime_new env of
             None \<Rightarrow> (ErrOk, r\<lparr>r_runtime := True\<rparr>)
           | Some e \<Rightarrow> (ErrInternal, set_last_error (''Failed to create runtime: '' @ e) r))"

end
