(* ===== verification/IrohFfi.thy ===== *)
theory IrohFfi
  imports IrohAsync
begin

text \<open>
  The entry points of \<open>src/lib.rs\<close> the C module calls, one definition each: the functions that
  start an operation and return a handle (or NULL), the getters that take an operation's result
  out of its handle, and the synchronous calls. A pointer argument is an option, \<open>None\<close> being
  NULL. Which objects a call dereferences, consumes, clones or leaves to its task is what the
  ownership theorems of the module rest on.
\<close>

section \<open>Starting an operation\<close>

definition null_arg :: "string \<Rightarrow> rust \<Rightarrow> fault + hid option \<times> rust" where
  "null_arg msg r = Inr (None, set_last_error msg r)"

text \<open>
  The shared shape: runtime, handle, then the clones taken from the objects \<open>xs\<close>, which must be
  live, then the task.
\<close>

definition ffi_start ::
  "'e sysenv_scheme \<Rightarrow> rust \<Rightarrow> (rid \<times> rkind) list \<Rightarrow> req \<Rightarrow> fault + hid option \<times> rust" where
  "ffi_start env r xs rq =
     (case spawn env r rq of
        (None, r') \<Rightarrow> Inr (None, r')
      | (Some h, r') \<Rightarrow>
          if list_all (\<lambda>(x, k). r_res r x = Some k) xs then Inr (Some h, r')
          else Inl UseAfterFree)"

text \<open>The configuration builder: the setters the module calls.\<close>

definition iroh_endpoint_config_default :: IrohEndpointConfig where
  "iroh_endpoint_config_default =
     \<lparr>secret_key = None, alpns = [], discovery_n0 = True, discovery_dns = True,
      discovery_pkarr_publish = True, relay_mode = RelayDefault, relay_url = None,
      bind_port = None, max_idle_timeout_ms = None\<rparr>"

definition iroh_endpoint_config_secret_key_bytes ::
  "IrohEndpointConfig \<Rightarrow> bytes \<Rightarrow> IrohEndpointConfig" where
  "iroh_endpoint_config_secret_key_bytes cf b =
     (if length b \<noteq> 32 then cf else cf\<lparr>secret_key := Some b\<rparr>)"

definition iroh_endpoint_config_add_alpn :: "IrohEndpointConfig \<Rightarrow> string \<Rightarrow> IrohEndpointConfig"
where
  "iroh_endpoint_config_add_alpn cf alpn = cf\<lparr>alpns := alpns cf @ [alpn]\<rparr>"

definition iroh_endpoint_config_relay_url :: "IrohEndpointConfig \<Rightarrow> string \<Rightarrow> IrohEndpointConfig"
where
  "iroh_endpoint_config_relay_url cf url = cf\<lparr>relay_url := Some url, relay_mode := RelayCustom\<rparr>"

definition iroh_endpoint_config_bind_port :: "IrohEndpointConfig \<Rightarrow> u16 \<Rightarrow> IrohEndpointConfig"
where
  "iroh_endpoint_config_bind_port cf port =
     cf\<lparr>bind_port := (if port = 0 then None else Some port)\<rparr>"

definition iroh_endpoint_config_max_idle_timeout ::
  "IrohEndpointConfig \<Rightarrow> 64 word \<Rightarrow> IrohEndpointConfig" where
  "iroh_endpoint_config_max_idle_timeout cf ms =
     cf\<lparr>max_idle_timeout_ms := (if ms = 0 then None else Some ms)\<rparr>"

definition iroh_endpoint_create ::
  "'e sysenv_scheme \<Rightarrow> rust \<Rightarrow> IrohEndpointConfig \<Rightarrow> fault + hid option \<times> rust" where
  "iroh_endpoint_create env r config = ffi_start env r [] (RqEndpointCreate config)"

text \<open>\<open>iroh_endpoint_close\<close> takes the endpoint's box: the pointer is dead when it returns.\<close>

definition iroh_endpoint_close ::
  "'e sysenv_scheme \<Rightarrow> rust \<Rightarrow> rid option \<Rightarrow> fault + hid option \<times> rust" where
  "iroh_endpoint_close env r ep =
     (case ep of None \<Rightarrow> Inr (None, r)
      | Some e \<Rightarrow>
          (case spawn env r (RqEndpointClose e) of
             (None, r') \<Rightarrow> Inr (None, r')
           | (Some h, r') \<Rightarrow> bnd (box_from_raw KEndpoint e r') (\<lambda>r''. Inr (Some h, r''))))"

definition iroh_endpoint_connect ::
  "'e sysenv_scheme \<Rightarrow> rust \<Rightarrow> rid option \<Rightarrow> rid option \<Rightarrow> string
     \<Rightarrow> fault + hid option \<times> rust" where
  "iroh_endpoint_connect env r ep addr alpn =
     (case (ep, addr) of
        (Some e, Some a) \<Rightarrow>
          bnd (tmp_val TEndpointAddr a r) (\<lambda>s. ffi_start env r [] (RqConnect e s alpn))
      | _ \<Rightarrow> null_arg ''NULL argument'' r)"

definition iroh_endpoint_accept ::
  "'e sysenv_scheme \<Rightarrow> rust \<Rightarrow> rid option \<Rightarrow> fault + hid option \<times> rust" where
  "iroh_endpoint_accept env r ep =
     (case ep of None \<Rightarrow> null_arg ''NULL endpoint'' r
      | Some e \<Rightarrow> ffi_start env r [] (RqAccept e))"

definition iroh_endpoint_wait_online ::
  "'e sysenv_scheme \<Rightarrow> rust \<Rightarrow> rid option \<Rightarrow> fault + hid option \<times> rust" where
  "iroh_endpoint_wait_online env r ep =
     (case ep of None \<Rightarrow> null_arg ''NULL endpoint'' r
      | Some e \<Rightarrow> ffi_start env r [] (RqWaitOnline e))"

definition iroh_connection_open_bi ::
  "'e sysenv_scheme \<Rightarrow> rust \<Rightarrow> rid option \<Rightarrow> fault + hid option \<times> rust" where
  "iroh_connection_open_bi env r conn =
     (case conn of None \<Rightarrow> null_arg ''NULL connection'' r
      | Some c \<Rightarrow> ffi_start env r [(c, KConnection)] (RqOpenBi c))"

definition iroh_connection_accept_bi ::
  "'e sysenv_scheme \<Rightarrow> rust \<Rightarrow> rid option \<Rightarrow> fault + hid option \<times> rust" where
  "iroh_connection_accept_bi env r conn =
     (case conn of None \<Rightarrow> null_arg ''NULL connection'' r
      | Some c \<Rightarrow> ffi_start env r [(c, KConnection)] (RqAcceptBi c))"

definition iroh_connection_recv_datagram ::
  "'e sysenv_scheme \<Rightarrow> rust \<Rightarrow> rid option \<Rightarrow> fault + hid option \<times> rust" where
  "iroh_connection_recv_datagram env r conn =
     (case conn of None \<Rightarrow> null_arg ''NULL connection'' r
      | Some c \<Rightarrow> ffi_start env r [(c, KConnection)] (RqRecvDatagram c))"

definition iroh_send_stream_write ::
  "'e sysenv_scheme \<Rightarrow> rust \<Rightarrow> rid option \<Rightarrow> bytes \<Rightarrow> fault + hid option \<times> rust" where
  "iroh_send_stream_write env r stream data =
     (case stream of None \<Rightarrow> null_arg ''NULL argument'' r
      | Some s \<Rightarrow> ffi_start env r [] (RqWrite s data))"

definition iroh_recv_stream_read ::
  "'e sysenv_scheme \<Rightarrow> rust \<Rightarrow> rid option \<Rightarrow> nat \<Rightarrow> fault + hid option \<times> rust" where
  "iroh_recv_stream_read env r stream max_len =
     (case stream of None \<Rightarrow> null_arg ''NULL stream'' r
      | Some s \<Rightarrow> ffi_start env r [] (RqRead s max_len))"

definition iroh_gossip_create_with_router ::
  "'e sysenv_scheme \<Rightarrow> rust \<Rightarrow> rid option \<Rightarrow> fault + hid option \<times> rust" where
  "iroh_gossip_create_with_router env r ep =
     (case ep of None \<Rightarrow> null_arg ''NULL endpoint'' r
      | Some e \<Rightarrow> ffi_start env r [(e, KEndpoint)] (RqGossipCreate e))"

fun tmp_vals :: "tkind \<Rightarrow> rid list \<Rightarrow> rust \<Rightarrow> fault + string list" where
  "tmp_vals k [] r = Inr []"
| "tmp_vals k (x # xs) r =
     bnd (tmp_val k x r) (\<lambda>s. bnd (tmp_vals k xs r) (\<lambda>ss. Inr (s # ss)))"

definition iroh_gossip_subscribe ::
  "'e sysenv_scheme \<Rightarrow> rust \<Rightarrow> rid option \<Rightarrow> rid option \<Rightarrow> rid list
     \<Rightarrow> fault + hid option \<times> rust" where
  "iroh_gossip_subscribe env r gossip topic bootstrap_peers =
     (case (gossip, topic) of
        (Some g, Some t) \<Rightarrow>
          bnd (tmp_val TTopicId t r) (\<lambda>ts.
          bnd (tmp_vals TPublicKey bootstrap_peers r) (\<lambda>ps.
            ffi_start env r [] (RqSubscribe g ts ps)))
      | _ \<Rightarrow> null_arg ''NULL argument'' r)"

definition iroh_gossip_broadcast ::
  "'e sysenv_scheme \<Rightarrow> rust \<Rightarrow> rid option \<Rightarrow> bytes \<Rightarrow> fault + hid option \<times> rust" where
  "iroh_gossip_broadcast env r topic data =
     (case topic of None \<Rightarrow> null_arg ''NULL argument'' r
      | Some t \<Rightarrow> ffi_start env r [] (RqBroadcast t data))"

definition iroh_gossip_recv ::
  "'e sysenv_scheme \<Rightarrow> rust \<Rightarrow> rid option \<Rightarrow> fault + hid option \<times> rust" where
  "iroh_gossip_recv env r topic =
     (case topic of None \<Rightarrow> null_arg ''NULL topic'' r
      | Some t \<Rightarrow> ffi_start env r [] (RqGossipRecv t))"

definition iroh_blobs_create_with_router ::
  "'e sysenv_scheme \<Rightarrow> rust \<Rightarrow> rid option \<Rightarrow> fault + hid option \<times> rust" where
  "iroh_blobs_create_with_router env r ep =
     (case ep of None \<Rightarrow> null_arg ''NULL endpoint'' r
      | Some e \<Rightarrow> ffi_start env r [(e, KEndpoint)] (RqBlobsCreate e None))"

definition iroh_blobs_create_with_router_persistent ::
  "'e sysenv_scheme \<Rightarrow> rust \<Rightarrow> rid option \<Rightarrow> string \<Rightarrow> fault + hid option \<times> rust" where
  "iroh_blobs_create_with_router_persistent env r ep path =
     (case ep of None \<Rightarrow> null_arg ''NULL endpoint'' r
      | Some e \<Rightarrow> ffi_start env r [(e, KEndpoint)] (RqBlobsCreate e (Some path)))"

definition iroh_blobs_add_bytes ::
  "'e sysenv_scheme \<Rightarrow> rust \<Rightarrow> rid option \<Rightarrow> bytes \<Rightarrow> fault + hid option \<times> rust" where
  "iroh_blobs_add_bytes env r store data =
     (case store of None \<Rightarrow> null_arg ''NULL argument'' r
      | Some s \<Rightarrow> ffi_start env r [(s, KBlobStore)] (RqAddBytes s data))"

definition iroh_blobs_add_file ::
  "'e sysenv_scheme \<Rightarrow> rust \<Rightarrow> rid option \<Rightarrow> string \<Rightarrow> fault + hid option \<times> rust" where
  "iroh_blobs_add_file env r store path =
     (case store of None \<Rightarrow> null_arg ''NULL argument'' r
      | Some s \<Rightarrow> ffi_start env r [(s, KBlobStore)] (RqAddFile s path))"

definition iroh_blobs_read ::
  "'e sysenv_scheme \<Rightarrow> rust \<Rightarrow> rid option \<Rightarrow> rid option \<Rightarrow> fault + hid option \<times> rust" where
  "iroh_blobs_read env r store hash =
     (case (store, hash) of
        (Some s, Some x) \<Rightarrow>
          bnd (tmp_val TBlobHash x r) (\<lambda>hs. ffi_start env r [(s, KBlobStore)] (RqBlobsRead s hs))
      | _ \<Rightarrow> null_arg ''NULL argument'' r)"

definition iroh_blobs_download ::
  "'e sysenv_scheme \<Rightarrow> rust \<Rightarrow> rid option \<Rightarrow> rid option \<Rightarrow> rid option
     \<Rightarrow> fault + hid option \<times> rust" where
  "iroh_blobs_download env r blobs ep ticket =
     (case (blobs, ep, ticket) of
        (Some b, Some e, Some t) \<Rightarrow>
          bnd (tmp_val TBlobTicket t r) (\<lambda>ts.
            ffi_start env r [(b, KBlobsProtocol), (e, KEndpoint)] (RqDownload b e ts))
      | _ \<Rightarrow> null_arg ''NULL argument'' r)"

definition iroh_docs_create_with_router ::
  "'e sysenv_scheme \<Rightarrow> rust \<Rightarrow> rid option \<Rightarrow> fault + hid option \<times> rust" where
  "iroh_docs_create_with_router env r ep =
     (case ep of None \<Rightarrow> null_arg ''NULL endpoint'' r
      | Some e \<Rightarrow> ffi_start env r [(e, KEndpoint)] (RqDocsCreate e None))"

definition iroh_docs_create_with_router_persistent ::
  "'e sysenv_scheme \<Rightarrow> rust \<Rightarrow> rid option \<Rightarrow> string \<Rightarrow> fault + hid option \<times> rust" where
  "iroh_docs_create_with_router_persistent env r ep path =
     (case ep of None \<Rightarrow> null_arg ''NULL endpoint'' r
      | Some e \<Rightarrow> ffi_start env r [(e, KEndpoint)] (RqDocsCreate e (Some path)))"

definition iroh_docs_create_author ::
  "'e sysenv_scheme \<Rightarrow> rust \<Rightarrow> rid option \<Rightarrow> fault + hid option \<times> rust" where
  "iroh_docs_create_author env r docs =
     (case docs of None \<Rightarrow> null_arg ''NULL docs'' r
      | Some d \<Rightarrow> ffi_start env r [(d, KDocs)] (RqCreateAuthor d))"

definition iroh_docs_create_doc ::
  "'e sysenv_scheme \<Rightarrow> rust \<Rightarrow> rid option \<Rightarrow> fault + hid option \<times> rust" where
  "iroh_docs_create_doc env r docs =
     (case docs of None \<Rightarrow> null_arg ''NULL docs'' r
      | Some d \<Rightarrow> ffi_start env r [(d, KDocs)] (RqCreateDoc d))"

definition iroh_docs_set ::
  "'e sysenv_scheme \<Rightarrow> rust \<Rightarrow> rid option \<Rightarrow> rid option \<Rightarrow> rid option \<Rightarrow> string \<Rightarrow> bytes
     \<Rightarrow> fault + hid option \<times> rust" where
  "iroh_docs_set env r docs namespace author key value =
     (case (docs, namespace, author) of
        (Some d, Some n, Some a) \<Rightarrow>
          bnd (tmp_val TNamespaceId n r) (\<lambda>ns.
          bnd (tmp_val TAuthorId a r) (\<lambda>as.
            ffi_start env r [(d, KDocs)] (RqDocsSet d ns as key value)))
      | _ \<Rightarrow> null_arg ''NULL argument'' r)"

text \<open>
  \<open>iroh_docs_set_multi\<close> is called with parallel arrays; \<open>entries\<close> pairs them up. The keys come
  from an enumeration of property names and are never NULL.
\<close>

definition iroh_docs_set_multi ::
  "'e sysenv_scheme \<Rightarrow> rust \<Rightarrow> rid option \<Rightarrow> rid option \<Rightarrow> rid option
     \<Rightarrow> (string \<times> bytes) list \<Rightarrow> fault + hid option \<times> rust" where
  "iroh_docs_set_multi env r docs namespace author entries =
     (case (docs, namespace, author) of
        (Some d, Some n, Some a) \<Rightarrow>
          if entries = [] then null_arg ''count must be > 0'' r
          else bnd (tmp_val TNamespaceId n r) (\<lambda>ns.
               bnd (tmp_val TAuthorId a r) (\<lambda>as.
                 ffi_start env r [(d, KDocs)] (RqDocsSetMulti d ns as entries)))
      | _ \<Rightarrow> null_arg ''NULL argument'' r)"

definition iroh_docs_get ::
  "'e sysenv_scheme \<Rightarrow> rust \<Rightarrow> rid option \<Rightarrow> rid option \<Rightarrow> rid option \<Rightarrow> string
     \<Rightarrow> fault + hid option \<times> rust" where
  "iroh_docs_get env r docs namespace author key =
     (case (docs, namespace, author) of
        (Some d, Some n, Some a) \<Rightarrow>
          bnd (tmp_val TNamespaceId n r) (\<lambda>ns.
          bnd (tmp_val TAuthorId a r) (\<lambda>as.
            ffi_start env r [(d, KDocs)] (RqDocsGet d ns as key)))
      | _ \<Rightarrow> null_arg ''NULL argument'' r)"

definition iroh_docs_get_latest ::
  "'e sysenv_scheme \<Rightarrow> rust \<Rightarrow> rid option \<Rightarrow> rid option \<Rightarrow> string
     \<Rightarrow> fault + hid option \<times> rust" where
  "iroh_docs_get_latest env r docs namespace key =
     (case (docs, namespace) of
        (Some d, Some n) \<Rightarrow>
          bnd (tmp_val TNamespaceId n r) (\<lambda>ns.
            ffi_start env r [(d, KDocs)] (RqDocsGetLatest d ns key))
      | _ \<Rightarrow> null_arg ''NULL argument'' r)"

definition iroh_docs_get_all ::
  "'e sysenv_scheme \<Rightarrow> rust \<Rightarrow> rid option \<Rightarrow> rid option \<Rightarrow> fault + hid option \<times> rust" where
  "iroh_docs_get_all env r docs namespace =
     (case (docs, namespace) of
        (Some d, Some n) \<Rightarrow>
          bnd (tmp_val TNamespaceId n r) (\<lambda>ns.
            ffi_start env r [(d, KDocs)] (RqDocsGetAll d ns))
      | _ \<Rightarrow> null_arg ''NULL argument'' r)"

definition iroh_docs_delete ::
  "'e sysenv_scheme \<Rightarrow> rust \<Rightarrow> rid option \<Rightarrow> rid option \<Rightarrow> rid option \<Rightarrow> string
     \<Rightarrow> fault + hid option \<times> rust" where
  "iroh_docs_delete env r docs namespace author key =
     (case (docs, namespace, author) of
        (Some d, Some n, Some a) \<Rightarrow>
          bnd (tmp_val TNamespaceId n r) (\<lambda>ns.
          bnd (tmp_val TAuthorId a r) (\<lambda>as.
            ffi_start env r [(d, KDocs)] (RqDocsDelete d ns as key)))
      | _ \<Rightarrow> null_arg ''NULL argument'' r)"

definition iroh_docs_create_ticket ::
  "'e sysenv_scheme \<Rightarrow> rust \<Rightarrow> rid option \<Rightarrow> rid option \<Rightarrow> rid option
     \<Rightarrow> fault + hid option \<times> rust" where
  "iroh_docs_create_ticket env r docs namespace ep =
     (case (docs, namespace, ep) of
        (Some d, Some n, Some e) \<Rightarrow>
          bnd (tmp_val TNamespaceId n r) (\<lambda>ns.
            ffi_start env r [(d, KDocs), (e, KEndpoint)] (RqCreateTicket d ns e))
      | _ \<Rightarrow> null_arg ''NULL argument'' r)"

definition iroh_docs_join ::
  "'e sysenv_scheme \<Rightarrow> rust \<Rightarrow> rid option \<Rightarrow> rid option \<Rightarrow> fault + hid option \<times> rust" where
  "iroh_docs_join env r docs ticket =
     (case (docs, ticket) of
        (Some d, Some t) \<Rightarrow>
          bnd (tmp_val TDocTicket t r) (\<lambda>ts. ffi_start env r [(d, KDocs)] (RqJoin d ts))
      | _ \<Rightarrow> null_arg ''NULL argument'' r)"

section \<open>Taking a result\<close>

text \<open>\<open>take_result::<T>().map(Box::into_raw).unwrap_or(null)\<close> for a long-lived \<open>T\<close>.\<close>

definition take_boxed ::
  "rust_any \<Rightarrow> rkind \<Rightarrow> rust \<Rightarrow> hid option \<Rightarrow> fault + rid option \<times> rust" where
  "take_boxed v k r h =
     (case h of None \<Rightarrow> Inr (None, r)
      | Some h \<Rightarrow>
          bnd (take_result (\<lambda>x. if x = v then Some () else None) r h) (\<lambda>(x, r').
            case x of None \<Rightarrow> Inr (None, r')
            | Some _ \<Rightarrow> (case box_into_raw k r' of (i, r'') \<Rightarrow> Inr (Some i, r''))))"

text \<open>
  The getters that hand out one part of a combined result and store the rest back; the first
  getter of each operation also checks that the state is \<open>Ready\<close>.
\<close>

definition split_boxed ::
  "bool \<Rightarrow> rust_any \<Rightarrow> rust_any \<Rightarrow> rkind \<Rightarrow> rust \<Rightarrow> hid option \<Rightarrow> fault + rid option \<times> rust"
where
  "split_boxed check_ready v rest k r h =
     (case h of None \<Rightarrow> Inr (None, r)
      | Some h \<Rightarrow>
          bnd (get_handle r h) (\<lambda>ah.
            if check_ready \<and> h_state ah \<noteq> Ready then Inr (None, r)
            else if h_result ah = Some v then
              (case box_into_raw k (put_handle h (ah\<lparr>h_result := Some rest\<rparr>) r) of
                 (i, r') \<Rightarrow> Inr (Some i, r'))
            else Inr (None, put_handle h (ah\<lparr>h_result := None\<rparr>) r)))"

text \<open>A short-lived object: the printed form travels with it.\<close>

definition take_tmp ::
  "(rust_any \<Rightarrow> string option) \<Rightarrow> tkind \<Rightarrow> rust \<Rightarrow> hid option \<Rightarrow> fault + rid option \<times> rust"
where
  "take_tmp downcast k r h =
     (case h of None \<Rightarrow> Inr (None, r)
      | Some h \<Rightarrow>
          bnd (take_result downcast r h) (\<lambda>(x, r').
            case x of None \<Rightarrow> Inr (None, r')
            | Some s \<Rightarrow> (case tmp_into_raw k s r' of (i, r'') \<Rightarrow> Inr (Some i, r''))))"

definition iroh_endpoint_create_result :: "rust \<Rightarrow> hid option \<Rightarrow> fault + rid option \<times> rust" where
  "iroh_endpoint_create_result = take_boxed AEndpoint KEndpoint"

definition iroh_connection_connect_result :: "rust \<Rightarrow> hid option \<Rightarrow> fault + rid option \<times> rust"
where
  "iroh_connection_connect_result = take_boxed AConnection KConnection"

definition iroh_connection_accept_result :: "rust \<Rightarrow> hid option \<Rightarrow> fault + rid option \<times> rust"
where
  "iroh_connection_accept_result = take_boxed AConnection KConnection"

definition iroh_stream_open_bi_send_result :: "rust \<Rightarrow> hid option \<Rightarrow> fault + rid option \<times> rust"
where
  "iroh_stream_open_bi_send_result = split_boxed True ABiStream ARecvStream KSendStream"

definition iroh_stream_open_bi_recv_result :: "rust \<Rightarrow> hid option \<Rightarrow> fault + rid option \<times> rust"
where
  "iroh_stream_open_bi_recv_result = take_boxed ARecvStream KRecvStream"

definition iroh_gossip_from_router_result :: "rust \<Rightarrow> hid option \<Rightarrow> fault + rid option \<times> rust"
where
  "iroh_gossip_from_router_result = split_boxed True AGossipWithRouter ARouter KGossip"

definition iroh_router_from_gossip_result :: "rust \<Rightarrow> hid option \<Rightarrow> fault + rid option \<times> rust"
where
  "iroh_router_from_gossip_result = take_boxed ARouter KRouter"

definition iroh_gossip_subscribe_result :: "rust \<Rightarrow> hid option \<Rightarrow> fault + rid option \<times> rust"
where
  "iroh_gossip_subscribe_result = take_boxed AGossipTopic KGossipTopic"

definition iroh_blobs_store_from_router_result ::
  "rust \<Rightarrow> hid option \<Rightarrow> fault + rid option \<times> rust" where
  "iroh_blobs_store_from_router_result = split_boxed True ABlobsWithRouter ABlobsRouter KBlobStore"

definition iroh_blobs_protocol_from_router_result ::
  "rust \<Rightarrow> hid option \<Rightarrow> fault + rid option \<times> rust" where
  "iroh_blobs_protocol_from_router_result = split_boxed False ABlobsRouter ARouter KBlobsProtocol"

definition iroh_router_from_blobs_result :: "rust \<Rightarrow> hid option \<Rightarrow> fault + rid option \<times> rust"
where
  "iroh_router_from_blobs_result = take_boxed ARouter KRouter"

definition iroh_docs_from_router_result :: "rust \<Rightarrow> hid option \<Rightarrow> fault + rid option \<times> rust"
where
  "iroh_docs_from_router_result = split_boxed True ADocsWithRouter ADocs4 KDocs"

definition iroh_blobs_store_from_docs_result ::
  "rust \<Rightarrow> hid option \<Rightarrow> fault + rid option \<times> rust" where
  "iroh_blobs_store_from_docs_result = split_boxed False ADocs4 ADocs3 KBlobStore"

definition iroh_router_from_docs_result :: "rust \<Rightarrow> hid option \<Rightarrow> fault + rid option \<times> rust"
where
  "iroh_router_from_docs_result = take_boxed ADocs3 KRouter"

fun as_hash :: "rust_any \<Rightarrow> string option" where
  "as_hash (ABlobHash s) = Some s"
| "as_hash _ = None"

fun as_author :: "rust_any \<Rightarrow> string option" where
  "as_author (AAuthorId s) = Some s"
| "as_author _ = None"

fun as_namespace :: "rust_any \<Rightarrow> string option" where
  "as_namespace (ANamespaceId s) = Some s"
| "as_namespace _ = None"

fun as_ticket :: "rust_any \<Rightarrow> string option" where
  "as_ticket (ADocTicket s) = Some s"
| "as_ticket _ = None"

fun as_bytes :: "rust_any \<Rightarrow> bytes option" where
  "as_bytes (ABytes d) = Some d"
| "as_bytes _ = None"

fun as_read :: "rust_any \<Rightarrow> (bytes \<times> bool) option" where
  "as_read (ARead d fin) = Some (d, fin)"
| "as_read _ = None"

fun as_event :: "rust_any \<Rightarrow> (nat \<times> bytes \<times> string option) option" where
  "as_event (AGossipEvent t d p) = Some (t, d, p)"
| "as_event _ = None"

fun as_pairs :: "rust_any \<Rightarrow> (string \<times> bytes) list option" where
  "as_pairs (APairs ps) = Some ps"
| "as_pairs _ = None"

definition iroh_blobs_add_result :: "rust \<Rightarrow> hid option \<Rightarrow> fault + rid option \<times> rust" where
  "iroh_blobs_add_result = take_tmp as_hash TBlobHash"

definition iroh_blobs_download_result :: "rust \<Rightarrow> hid option \<Rightarrow> fault + rid option \<times> rust" where
  "iroh_blobs_download_result = take_tmp as_hash TBlobHash"

definition iroh_docs_create_author_result :: "rust \<Rightarrow> hid option \<Rightarrow> fault + rid option \<times> rust"
where
  "iroh_docs_create_author_result = take_tmp as_author TAuthorId"

definition iroh_docs_create_doc_result :: "rust \<Rightarrow> hid option \<Rightarrow> fault + rid option \<times> rust" where
  "iroh_docs_create_doc_result = take_tmp as_namespace TNamespaceId"

definition iroh_docs_join_result :: "rust \<Rightarrow> hid option \<Rightarrow> fault + rid option \<times> rust" where
  "iroh_docs_join_result = take_tmp as_namespace TNamespaceId"

definition iroh_docs_create_ticket_result :: "rust \<Rightarrow> hid option \<Rightarrow> fault + rid option \<times> rust"
where
  "iroh_docs_create_ticket_result = take_tmp as_ticket TDocTicket"

text \<open>
  Byte results: an empty vector is returned as NULL with length 0, which is also what a missing
  result looks like. The four getters share one body.
\<close>

definition iroh_docs_get_result :: "rust \<Rightarrow> hid option \<Rightarrow> fault + bytes option \<times> rust" where
  "iroh_docs_get_result r h =
     (case h of None \<Rightarrow> Inr (None, r)
      | Some h \<Rightarrow>
          bnd (take_result as_bytes r h) (\<lambda>(x, r').
            case x of None \<Rightarrow> Inr (None, r')
            | Some d \<Rightarrow> Inr (if length d > 0 then Some d else None, r')))"

definition iroh_docs_get_latest_result :: "rust \<Rightarrow> hid option \<Rightarrow> fault + bytes option \<times> rust"
where
  "iroh_docs_get_latest_result = iroh_docs_get_result"

definition iroh_blobs_read_result :: "rust \<Rightarrow> hid option \<Rightarrow> fault + bytes option \<times> rust" where
  "iroh_blobs_read_result r h =
     (case h of None \<Rightarrow> Inr (None, r)
      | Some h \<Rightarrow>
          bnd (take_result as_bytes r h) (\<lambda>(x, r').
            case x of None \<Rightarrow> Inr (None, r')
            | Some d \<Rightarrow> Inr (if length d > 0 then Some d else None, r')))"

definition iroh_connection_recv_datagram_result ::
  "rust \<Rightarrow> hid option \<Rightarrow> fault + bytes option \<times> rust" where
  "iroh_connection_recv_datagram_result r h =
     (case h of None \<Rightarrow> Inr (None, r)
      | Some h \<Rightarrow>
          bnd (take_result as_bytes r h) (\<lambda>(x, r').
            case x of None \<Rightarrow> Inr (None, r')
            | Some d \<Rightarrow> Inr (if length d > 0 then Some d else None, r')))"

record IrohReadResult =
  rr_data :: "bytes option"
  rr_len :: nat
  rr_finished :: bool

definition iroh_recv_stream_read_result :: "rust \<Rightarrow> hid option \<Rightarrow> fault + IrohReadResult \<times> rust"
where
  "iroh_recv_stream_read_result r h =
     (case h of None \<Rightarrow> Inr (\<lparr>rr_data = None, rr_len = 0, rr_finished = False\<rparr>, r)
      | Some h \<Rightarrow>
          bnd (take_result as_read r h) (\<lambda>(x, r').
            case x of None \<Rightarrow> Inr (\<lparr>rr_data = None, rr_len = 0, rr_finished = False\<rparr>, r')
            | Some (d, fin) \<Rightarrow>
                Inr (\<lparr>rr_data = (if length d > 0 then Some d else None),
                      rr_len = length d, rr_finished = fin\<rparr>, r')))"

datatype IrohGossipEventType = Received | NeighborUp | NeighborDown | Joined | GossipError

record IrohGossipEvent =
  ge_type :: IrohGossipEventType
  ge_data :: "bytes option"
  ge_peer :: "rid option"

definition event_type_of :: "nat \<Rightarrow> IrohGossipEventType" where
  "event_type_of t =
     (if t = 0 then Received else if t = 1 then NeighborUp else if t = 2 then NeighborDown
      else if t = 3 then Joined else GossipError)"

definition iroh_gossip_recv_result :: "rust \<Rightarrow> hid option \<Rightarrow> fault + IrohGossipEvent \<times> rust" where
  "iroh_gossip_recv_result r h =
     (case h of None \<Rightarrow> Inr (\<lparr>ge_type = GossipError, ge_data = None, ge_peer = None\<rparr>, r)
      | Some h \<Rightarrow>
          bnd (take_result as_event r h) (\<lambda>(x, r').
            case x of
              None \<Rightarrow> Inr (\<lparr>ge_type = GossipError, ge_data = None, ge_peer = None\<rparr>, r')
            | Some (t, d, p) \<Rightarrow>
                (case p of
                   None \<Rightarrow> Inr (\<lparr>ge_type = event_type_of t,
                                 ge_data = (if d = [] then None else Some d),
                                 ge_peer = None\<rparr>, r')
                 | Some s \<Rightarrow>
                     (case tmp_into_raw TPublicKey s r' of
                        (i, r'') \<Rightarrow> Inr (\<lparr>ge_type = event_type_of t,
                                        ge_data = (if d = [] then None else Some d),
                                        ge_peer = Some i\<rparr>, r'')))))"

definition iroh_gossip_event_free :: "IrohGossipEvent \<Rightarrow> rust \<Rightarrow> fault + rust" where
  "iroh_gossip_event_free ev r = tmp_free TPublicKey (ge_peer ev) r"

text \<open>
  The pairs of \<open>iroh_docs_get_all_result\<close>: a key with an interior NUL becomes the empty string
  (\<open>unwrap_or_default\<close>), an empty value becomes NULL.
\<close>

definition c_pair :: "string \<times> bytes \<Rightarrow> string \<times> bytes option" where
  "c_pair p =
     ((case cstring_new (fst p) of None \<Rightarrow> [] | Some k \<Rightarrow> k),
      (if length (snd p) > 0 then Some (snd p) else None))"

definition iroh_docs_get_all_result ::
  "rust \<Rightarrow> hid option \<Rightarrow> fault + (string \<times> bytes option) list \<times> rust" where
  "iroh_docs_get_all_result r h =
     (case h of None \<Rightarrow> Inr ([], r)
      | Some h \<Rightarrow>
          bnd (take_result as_pairs r h) (\<lambda>(x, r').
            case x of None \<Rightarrow> Inr ([], r') | Some ps \<Rightarrow> Inr (map c_pair ps, r')))"

section \<open>Synchronous calls\<close>

definition deref_res :: "rkind \<Rightarrow> rid \<Rightarrow> rust \<Rightarrow> fault + unit" where
  "deref_res k x r = (if r_res r x = Some k then Inr () else Inl UseAfterFree)"

definition iroh_endpoint_id :: "'e sysenv_scheme \<Rightarrow> rust \<Rightarrow> rid option \<Rightarrow> fault + rid option \<times> rust"
where
  "iroh_endpoint_id env r ep =
     (case ep of None \<Rightarrow> Inr (None, r)
      | Some e \<Rightarrow> bnd (deref_res KEndpoint e r) (\<lambda>_.
          case tmp_into_raw TPublicKey (env_endpoint_id env e) r of (i, r') \<Rightarrow> Inr (Some i, r')))"

definition iroh_endpoint_secret_key ::
  "'e sysenv_scheme \<Rightarrow> rust \<Rightarrow> rid option \<Rightarrow> fault + bytes option" where
  "iroh_endpoint_secret_key env r ep =
     (case ep of None \<Rightarrow> Inr None
      | Some e \<Rightarrow> bnd (deref_res KEndpoint e r) (\<lambda>_. Inr (Some (env_endpoint_secret env e))))"

text \<open>
  An address object is a public key with an optional relay URL; only these two are printed.
\<close>

record IrohEndpointAddr =
  endpoint_id :: string
  addr_relay_url :: "string option"

definition addr_to_string :: "IrohEndpointAddr \<Rightarrow> string" where
  "addr_to_string a =
     endpoint_id a @ (case addr_relay_url a of None \<Rightarrow> [] | Some u \<Rightarrow> ''?relay='' @ u)"

definition addr_from_string ::
  "'e sysenv_scheme \<Rightarrow> string \<Rightarrow> string + IrohEndpointAddr" where
  "addr_from_string env s =
     (let key_str = takeWhile (\<lambda>c. c \<noteq> CHR ''?'') s;
          rest = dropWhile (\<lambda>c. c \<noteq> CHR ''?'') s;
          relay = (case rest of [] \<Rightarrow> None
                   | _ # query \<Rightarrow>
                       if take 6 query = ''relay='' then Some (drop 6 query) else None)
      in case env_parse env TPublicKey key_str of
           Inl e \<Rightarrow> Inl e
         | Inr k \<Rightarrow> Inr \<lparr>endpoint_id = k, addr_relay_url = relay\<rparr>)"

definition iroh_endpoint_addr_from_string ::
  "'e sysenv_scheme \<Rightarrow> string \<Rightarrow> rust \<Rightarrow> rid option \<times> rust" where
  "iroh_endpoint_addr_from_string env s r =
     (case addr_from_string env s of
        Inl e \<Rightarrow> (None, set_last_error (''Failed to parse public key: '' @ e) r)
      | Inr a \<Rightarrow> (case tmp_into_raw TEndpointAddr (addr_to_string a) r of (i, r') \<Rightarrow> (Some i, r')))"

definition iroh_endpoint_addr ::
  "'e sysenv_scheme \<Rightarrow> rust \<Rightarrow> rid option \<Rightarrow> fault + rid option \<times> rust" where
  "iroh_endpoint_addr env r ep =
     (case ep of None \<Rightarrow> Inr (None, r)
      | Some e \<Rightarrow> bnd (deref_res KEndpoint e r) (\<lambda>_.
          case tmp_into_raw TEndpointAddr (env_endpoint_addr env e) r of
            (i, r') \<Rightarrow> Inr (Some i, r')))"

definition iroh_connection_remote_id ::
  "'e sysenv_scheme \<Rightarrow> rust \<Rightarrow> rid option \<Rightarrow> fault + rid option \<times> rust" where
  "iroh_connection_remote_id env r conn =
     (case conn of None \<Rightarrow> Inr (None, r)
      | Some c \<Rightarrow> bnd (deref_res KConnection c r) (\<lambda>_.
          case tmp_into_raw TPublicKey (env_remote_id env c) r of (i, r') \<Rightarrow> Inr (Some i, r')))"

definition iroh_connection_alpn ::
  "'e sysenv_scheme \<Rightarrow> rust \<Rightarrow> rid option \<Rightarrow> fault + string option" where
  "iroh_connection_alpn env r conn =
     (case conn of None \<Rightarrow> Inr None
      | Some c \<Rightarrow> bnd (deref_res KConnection c r) (\<lambda>_. Inr (cstring_new (env_conn_alpn env c))))"

text \<open>\<open>iroh_connection_close\<close> takes the connection's box: the pointer is dead when it returns.\<close>

definition iroh_connection_close :: "rust \<Rightarrow> rid option \<Rightarrow> fault + rust" where
  "iroh_connection_close r conn = iroh_free KConnection conn r"

definition iroh_connection_send_datagram ::
  "'e sysenv_scheme \<Rightarrow> rust \<Rightarrow> rid option \<Rightarrow> bytes \<Rightarrow> fault + IrohError \<times> rust" where
  "iroh_connection_send_datagram env r conn data =
     (case conn of None \<Rightarrow> Inr (ErrInvalidArgument, r)
      | Some c \<Rightarrow> bnd (deref_res KConnection c r) (\<lambda>_.
          case env_send_datagram env c data of
            None \<Rightarrow> Inr (ErrOk, r)
          | Some e \<Rightarrow> Inr (ErrConnectionFailed,
                          set_last_error (''Failed to send datagram: '' @ e) r)))"

definition iroh_send_stream_finish :: "rust \<Rightarrow> rid option \<Rightarrow> fault + rust" where
  "iroh_send_stream_finish r stream =
     (case stream of None \<Rightarrow> Inr r
      | Some s \<Rightarrow> bnd (deref_res KSendStream s r) (\<lambda>_. Inr r))"

definition iroh_topic_id_from_name :: "'e sysenv_scheme \<Rightarrow> string \<Rightarrow> rust \<Rightarrow> rid option \<times> rust" where
  "iroh_topic_id_from_name env name r =
     (case tmp_into_raw TTopicId (env_blake3 env name) r of (i, r') \<Rightarrow> (Some i, r'))"

definition iroh_blobs_create_ticket ::
  "'e sysenv_scheme \<Rightarrow> rust \<Rightarrow> rid option \<Rightarrow> rid option \<Rightarrow> fault + rid option \<times> rust" where
  "iroh_blobs_create_ticket env r ep hash =
     (case (ep, hash) of
        (Some e, Some x) \<Rightarrow>
          bnd (deref_res KEndpoint e r) (\<lambda>_.
          bnd (tmp_val TBlobHash x r) (\<lambda>hs.
            case tmp_into_raw TBlobTicket (env_blob_ticket env e hs) r of
              (i, r') \<Rightarrow> Inr (Some i, r')))
      | _ \<Rightarrow> Inr (None, set_last_error ''NULL argument'' r))"

end
