(* ===== verification/World.thy ===== *)
theory World
  imports IrohFfi
begin

text \<open>
  The state the C module (\<open>module/rampart-iroh.c\<close>) works on: the two structs it allocates
  (\<open>RPIROH\<close>, one per JavaScript-visible object, and \<open>RPIROH_ASYNC\<close>, one per operation in
  flight), the JavaScript objects and functions it stores properties on, the global stash, its
  two counters, the Rust side, and a log of what the outside can observe. Allocation never
  reuses an address, so that an access through a dangling pointer is always seen as one.

  The Duktape value stack is not part of the state: each definition names the values the C code
  moves over it. Duktape, rampart and libevent are outside the repository; where the C code
  depends on what they answer, the answer is a field of \<open>env\<close>, and the JavaScript callbacks are
  a parameter of type \<open>jscode\<close> of every definition that may call one.
\<close>

section \<open>Types\<close>

type_synonym addr = nat
type_synonym opaddr = nat
type_synonym evid = nat
type_synonym objid = nat
type_synonym fnid = nat

datatype iroh_obj_type =
    IROH_OBJ_ENDPOINT | IROH_OBJ_CONNECTION | IROH_OBJ_STREAM | IROH_OBJ_GOSSIP
  | IROH_OBJ_GOSSIP_TOPIC | IROH_OBJ_BLOBS | IROH_OBJ_DOCS

datatype iroh_op_type =
    IROH_OP_ENDPOINT_CREATE | IROH_OP_ENDPOINT_WAIT_ONLINE | IROH_OP_ENDPOINT_CLOSE
  | IROH_OP_ENDPOINT_ACCEPT | IROH_OP_CONNECT | IROH_OP_OPEN_BI | IROH_OP_ACCEPT_BI
  | IROH_OP_STREAM_READ | IROH_OP_STREAM_WRITE | IROH_OP_RECV_DATAGRAM
  | IROH_OP_GOSSIP_CREATE | IROH_OP_GOSSIP_SUBSCRIBE | IROH_OP_GOSSIP_BROADCAST
  | IROH_OP_GOSSIP_RECV
  | IROH_OP_BLOBS_CREATE | IROH_OP_BLOBS_ADD_BYTES | IROH_OP_BLOBS_ADD_FILE
  | IROH_OP_BLOBS_READ | IROH_OP_BLOBS_DOWNLOAD
  | IROH_OP_DOCS_CREATE | IROH_OP_DOCS_CREATE_AUTHOR | IROH_OP_DOCS_CREATE_DOC
  | IROH_OP_DOCS_SET | IROH_OP_DOCS_GET | IROH_OP_DOCS_GET_LATEST | IROH_OP_DOCS_GET_ALL
  | IROH_OP_DOCS_DELETE | IROH_OP_DOCS_CREATE_TICKET | IROH_OP_DOCS_JOIN

abbreviation (input) RPIROH_FLAG_CLOSED :: u16 where "RPIROH_FLAG_CLOSED \<equiv> 0x0001"
abbreviation (input) RPIROH_FLAG_ACCEPTING :: u16 where "RPIROH_FLAG_ACCEPTING \<equiv> 0x0002"
abbreviation (input) RPIROH_FLAG_READING :: u16 where "RPIROH_FLAG_READING \<equiv> 0x0004"
abbreviation (input) RPIROH_FLAG_STREAM_ACCEPT :: u16 where "RPIROH_FLAG_STREAM_ACCEPT \<equiv> 0x0008"
abbreviation (input) RPIROH_FLAG_FINISHED :: u16 where "RPIROH_FLAG_FINISHED \<equiv> 0x0010"
abbreviation (input) RPIROH_FLAG_AUTO_CONNECT :: u16 where "RPIROH_FLAG_AUTO_CONNECT \<equiv> 0x0020"
abbreviation (input) RPIROH_FLAG_DATAGRAM_RECV :: u16 where "RPIROH_FLAG_DATAGRAM_RECV \<equiv> 0x0040"
abbreviation (input) RPIROH_FLAG_WRITING :: u16 where "RPIROH_FLAG_WRITING \<equiv> 0x0080"
abbreviation (input) RPIROH_FLAG_FINISH_PENDING :: u16 where "RPIROH_FLAG_FINISH_PENDING \<equiv> 0x0100"

text \<open>
  The context struct. \<open>pending_ops\<close> is the allocated array (its length is the capacity in
  elements, \<open>[]\<close> the NULL pointer), of which the first \<open>npending\<close> entries are in use. The
  fields \<open>ctx\<close> and \<open>base\<close> (the interpreter and the event loop of the thread) are constant.
\<close>

record RPIROH =
  thisptr :: objid
  thiskey :: u32
  next_cb_id :: u32
  obj_type :: iroh_obj_type
  flags :: u16
  endpoint :: "rid option"
  conn_p :: "rid option"
  send_p :: "rid option"
  recv_p :: "rid option"
  gossip_p :: "rid option"
  topic_handle :: "rid option"
  blob_store :: "rid option"
  blobs_proto :: "rid option"
  docs_p :: "rid option"
  router :: "rid option"
  parent :: "addr option"
  pending_ops :: "opaddr list"
  npending :: u16
  pending_alloc :: u16

record RPIROH_ASYNC =
  aop_ictx :: addr
  aop_handle :: "hid option"
  aop_op :: iroh_op_type
  aop_ev :: "evid option"
  aop_aux :: u32

datatype jsval =
    JUndefined | JNull | JBool bool | JNum int | JStr string | JBuf bytes
  | JObj objid | JFun fnid | JErr string

text \<open>
  A JavaScript object: the \<open>_events\<close> property (per event name a table from listener ids to
  functions; \<open>None\<close> for an object that has no such property), the hidden \<open>_cbs\<close>, \<open>ictx\<close>,
  \<open>_ep\<close> and \<open>_ac_*\<close> properties, the elements if it is an array, and the remaining own
  properties.
\<close>

record jsobj =
  o_events :: "(string \<times> (int \<times> fnid) list) list option"
  o_cbs :: "u32 \<Rightarrow> fnid option"
  o_ictx :: "addr option"
  o_ep :: "jsval option"
  o_ac_addr :: "string option"
  o_ac_alpn :: "string option"
  o_ac_cbid :: "u32 option"
  o_array :: "jsval list option"
  o_props :: "(string \<times> jsval) list"

text \<open>The hidden properties the module puts on a listener function.\<close>

record jsfn =
  fn_evcb_id :: "int option"
  fn_once :: bool

datatype gsval = GsObj objid | GsMap "string \<Rightarrow> objid option"

datatype obs =
    Invoke fnid objid string "jsval list"   \<comment> \<open>a listener or one-shot callback is called\<close>
  | CallbackError string fnid               \<comment> \<open>it threw; the error is printed\<close>
  | Uncaught string                         \<comment> \<open>an \<open>error\<close> event without listeners is printed\<close>
  | Finish rid                              \<comment> \<open>\<open>iroh_send_stream_finish\<close>\<close>
  | ConnClose rid u32 string                \<comment> \<open>\<open>iroh_connection_close\<close>\<close>

record world =
  w_ctxs :: "addr \<Rightarrow> RPIROH option"
  w_ops :: "opaddr \<Rightarrow> RPIROH_ASYNC option"
  w_evs :: "evid \<Rightarrow> bool"
  w_next :: nat
  w_objs :: "objid \<Rightarrow> jsobj option"
  w_nextobj :: objid
  w_fns :: "fnid \<Rightarrow> jsfn"
  w_stash :: "string \<Rightarrow> gsval option"
  w_this_id :: u32
  w_evcb_id :: u32
  w_is_init :: bool
  w_rust :: rust
  w_log :: "obs list"

text \<open>
  What Duktape, rampart and libevent decide: whether \<open>event_new\<close> returns an event, the order in
  which an enumerator lists the keys of an object, the numeric coercions of \<open>duk_get_uint\<close> and
  \<open>duk_get_number\<close>, rampart's hex helpers and type classification.
\<close>

record env = sysenv +
  env_event_new :: "opaddr \<Rightarrow> bool"
  env_enum_int :: "int list \<Rightarrow> int list"
  env_enum_str :: "string list \<Rightarrow> string list"
  env_get_uint :: "jsval \<Rightarrow> u32"
  env_get_u64 :: "jsval \<Rightarrow> 64 word"
  env_hex_to_buf :: "string \<Rightarrow> string + bytes"
  env_to_hex :: "bytes \<Rightarrow> string"
  env_is_plain_object :: "world \<Rightarrow> jsval \<Rightarrow> bool"

text \<open>
  A JavaScript callback: the function, its \<open>this\<close>, its arguments; it may call back into the
  module, so it maps states to states, and it may throw (\<open>True\<close>).
\<close>

type_synonym jscode = "world \<Rightarrow> fnid \<Rightarrow> objid \<Rightarrow> jsval list \<Rightarrow> fault + bool \<times> world"

text \<open>What a JavaScript-callable method of the module ends in.\<close>

datatype jsres = Ret jsval | Throw string

section \<open>Reading and writing the structs\<close>

definition get_ctx :: "world \<Rightarrow> addr \<Rightarrow> fault + RPIROH" where
  "get_ctx w a = (case w_ctxs w a of None \<Rightarrow> Inl UseAfterFree | Some c \<Rightarrow> Inr c)"

definition put_ctx :: "addr \<Rightarrow> RPIROH \<Rightarrow> world \<Rightarrow> world" where
  "put_ctx a c w = w\<lparr>w_ctxs := (w_ctxs w)(a := Some c)\<rparr>"

definition upd_ctx :: "addr \<Rightarrow> (RPIROH \<Rightarrow> RPIROH) \<Rightarrow> world \<Rightarrow> fault + world" where
  "upd_ctx a f w = bnd (get_ctx w a) (\<lambda>c. Inr (put_ctx a (f c) w))"

definition free_ctx :: "addr \<Rightarrow> world \<Rightarrow> fault + world" where
  "free_ctx a w =
     (case w_ctxs w a of None \<Rightarrow> Inl DoubleFree
      | Some _ \<Rightarrow> Inr (w\<lparr>w_ctxs := (w_ctxs w)(a := None)\<rparr>))"

definition get_op :: "world \<Rightarrow> opaddr \<Rightarrow> fault + RPIROH_ASYNC" where
  "get_op w p = (case w_ops w p of None \<Rightarrow> Inl UseAfterFree | Some x \<Rightarrow> Inr x)"

definition free_op :: "opaddr \<Rightarrow> world \<Rightarrow> fault + world" where
  "free_op p w =
     (case w_ops w p of None \<Rightarrow> Inl DoubleFree
      | Some _ \<Rightarrow> Inr (w\<lparr>w_ops := (w_ops w)(p := None)\<rparr>))"

definition event_free :: "evid option \<Rightarrow> world \<Rightarrow> fault + world" where
  "event_free e w =
     (case e of None \<Rightarrow> Inr w
      | Some e \<Rightarrow> if w_evs w e then Inr (w\<lparr>w_evs := (w_evs w)(e := False)\<rparr>) else Inl DoubleFree)"

definition set_flags :: "addr \<Rightarrow> u16 \<Rightarrow> world \<Rightarrow> fault + world" where
  "set_flags a m w = upd_ctx a (\<lambda>c. c\<lparr>flags := set_flag (flags c) m\<rparr>) w"

definition clr_flags :: "addr \<Rightarrow> u16 \<Rightarrow> world \<Rightarrow> fault + world" where
  "clr_flags a m w = upd_ctx a (\<lambda>c. c\<lparr>flags := clr_flag (flags c) m\<rparr>) w"

definition in_rust :: "world \<Rightarrow> (rust \<Rightarrow> fault + 'a \<times> rust) \<Rightarrow> fault + 'a \<times> world" where
  "in_rust w f = bnd (f (w_rust w)) (\<lambda>(x, r). Inr (x, w\<lparr>w_rust := r\<rparr>))"

definition in_rust' :: "world \<Rightarrow> (rust \<Rightarrow> fault + rust) \<Rightarrow> fault + world" where
  "in_rust' w f = bnd (f (w_rust w)) (\<lambda>r. Inr (w\<lparr>w_rust := r\<rparr>))"

definition log :: "obs \<Rightarrow> world \<Rightarrow> world" where
  "log x w = w\<lparr>w_log := x # w_log w\<rparr>"

section \<open>JavaScript objects\<close>

definition empty_obj :: jsobj where
  "empty_obj = \<lparr>o_events = None, o_cbs = Map.empty, o_ictx = None, o_ep = None,
     o_ac_addr = None, o_ac_alpn = None, o_ac_cbid = None, o_array = None, o_props = []\<rparr>"

definition upd_obj :: "objid \<Rightarrow> (jsobj \<Rightarrow> jsobj) \<Rightarrow> world \<Rightarrow> world" where
  "upd_obj i f w = w\<lparr>w_objs := (w_objs w)(i := map_option f (w_objs w i))\<rparr>"

definition put_prop :: "objid \<Rightarrow> string \<Rightarrow> jsval \<Rightarrow> world \<Rightarrow> world" where
  "put_prop i k v = upd_obj i (\<lambda>ob. ob\<lparr>o_props := AList.update k v (o_props ob)\<rparr>)"

definition get_prop :: "world \<Rightarrow> jsval \<Rightarrow> string \<Rightarrow> jsval option" where
  "get_prop w v k =
     (case v of JObj i \<Rightarrow> (case w_objs w i of None \<Rightarrow> None | Some ob \<Rightarrow> map_of (o_props ob) k)
      | _ \<Rightarrow> None)"

definition new_obj :: "jsobj \<Rightarrow> world \<Rightarrow> objid \<times> world" where
  "new_obj ob w =
     (w_nextobj w,
      w\<lparr>w_objs := (w_objs w)(w_nextobj w := Some ob), w_nextobj := Suc (w_nextobj w)\<rparr>)"

definition is_function :: "jsval \<Rightarrow> bool" where
  "is_function v = (case v of JFun _ \<Rightarrow> True | _ \<Rightarrow> False)"

definition is_object :: "jsval \<Rightarrow> bool" where
  "is_object v = (case v of JObj _ \<Rightarrow> True | JFun _ \<Rightarrow> True | JErr _ \<Rightarrow> True | _ \<Rightarrow> False)"

definition to_boolean :: "jsval \<Rightarrow> bool" where
  "to_boolean v =
     (case v of JUndefined \<Rightarrow> False | JNull \<Rightarrow> False | JBool b \<Rightarrow> b | JNum n \<Rightarrow> n \<noteq> 0
      | JStr s \<Rightarrow> s \<noteq> [] | _ \<Rightarrow> True)"

text \<open>
  A JavaScript string read as a C string ends at its first NUL; \<open>REQUIRE_STRING\<close> answers \<open>None\<close>
  where the macro throws.
\<close>

definition c_str :: "string \<Rightarrow> string" where
  "c_str s = takeWhile (\<lambda>c. c \<noteq> CHR 0x00) s"

definition require_string :: "jsval \<Rightarrow> string option" where
  "require_string v = (case v of JStr s \<Rightarrow> Some (c_str s) | _ \<Rightarrow> None)"

text \<open>A string or a buffer as bytes (\<open>duk_get_lstring\<close>, \<open>duk_get_buffer_data\<close>).\<close>

definition data_arg :: "jsval \<Rightarrow> bytes option" where
  "data_arg v =
     (case v of JStr s \<Rightarrow> Some (map (\<lambda>c. word_of_nat (of_char c)) s) | JBuf b \<Rightarrow> Some b
      | _ \<Rightarrow> None)"

text \<open>The hidden \<open>ictx\<close> pointer of \<open>this\<close> (\<open>GET_ICTX\<close>, without its error branch).\<close>

definition this_ictx :: "world \<Rightarrow> objid \<Rightarrow> addr option" where
  "this_ictx w this = (case w_objs w this of None \<Rightarrow> None | Some ob \<Rightarrow> o_ictx ob)"

section \<open>The garbage-collection stash\<close>

text \<open>\<open>sprintf(keystr, "%d", (int)thiskey)\<close>.\<close>

fun digits :: "nat \<Rightarrow> string" where
  "digits n = (if n < 10 then [char_of (48 + n)] else digits (n div 10) @ [char_of (48 + n mod 10)])"

declare digits.simps [simp del]

definition sprintf_d :: "int \<Rightarrow> string" where
  "sprintf_d i = (if i < 0 then CHR ''-'' # digits (nat (- i)) else digits (nat i))"

definition keystr :: "u32 \<Rightarrow> string" where
  "keystr k = sprintf_d (sint k)"

definition iroh_put_gs_object :: "string \<Rightarrow> string option \<Rightarrow> jsval \<Rightarrow> world \<Rightarrow> jsres \<times> world" where
  "iroh_put_gs_object objname key v w =
     (case key of
        None \<Rightarrow>
          (case v of
             JObj i \<Rightarrow> (Ret JUndefined, w\<lparr>w_stash := (w_stash w)(objname := Some (GsObj i))\<rparr>)
           | _ \<Rightarrow> (Throw ''iroh: internal error in put_gs_object'', w))
      | Some k \<Rightarrow>
          (case v of
             JObj i \<Rightarrow>
               (case w_stash w objname of
                  Some (GsMap m) \<Rightarrow>
                    (Ret JUndefined, w\<lparr>w_stash := (w_stash w)(objname \<mapsto> GsMap (m(k \<mapsto> i)))\<rparr>)
                | Some (GsObj j) \<Rightarrow> (Ret JUndefined, put_prop j k (JObj i) w)
                | None \<Rightarrow>
                    (Ret JUndefined, w\<lparr>w_stash := (w_stash w)(objname \<mapsto> GsMap [k \<mapsto> i])\<rparr>))
           | _ \<Rightarrow> (Ret JUndefined, w)))"

definition iroh_del_gs_object :: "string \<Rightarrow> string option \<Rightarrow> world \<Rightarrow> int \<times> world" where
  "iroh_del_gs_object objname key w =
     (case key of
        None \<Rightarrow>
          (case w_stash w objname of
             None \<Rightarrow> (0, w)
           | Some _ \<Rightarrow> (1, w\<lparr>w_stash := (w_stash w)(objname := None)\<rparr>))
      | Some k \<Rightarrow>
          (case w_stash w objname of
             Some (GsMap m) \<Rightarrow>
               (case m k of
                  None \<Rightarrow> (0, w)
                | Some _ \<Rightarrow> (1, w\<lparr>w_stash := (w_stash w)(objname := Some (GsMap (m(k := None))))\<rparr>))
           | Some (GsObj j) \<Rightarrow>
               (case get_prop w (JObj j) k of
                  None \<Rightarrow> (0, w)
                | Some _ \<Rightarrow> (1, upd_obj j (\<lambda>ob. ob\<lparr>o_props := AList.delete k (o_props ob)\<rparr>) w))
           | None \<Rightarrow> (0, w)))"

definition gs_lookup :: "world \<Rightarrow> u32 \<Rightarrow> objid option" where
  "gs_lookup w k =
     (case w_stash w ''iroh_connkeymap'' of Some (GsMap m) \<Rightarrow> m (keystr k) | _ \<Rightarrow> None)"

end
