(* ===== verification/Emitter.thy ===== *)
theory Emitter
  imports World
begin

text \<open>
  The event emitter of \<open>module/rampart-iroh.c\<close>: registering a listener (\<open>iroh_ev_on\<close>), firing an
  event (\<open>iroh_do_callback\<close> and its two callers), \<open>off\<close> and \<open>trigger\<close>, and the one-shot
  callbacks kept in \<open>_cbs\<close>.
\<close>

section \<open>Listener tables\<close>

definition events_of :: "world \<Rightarrow> objid \<Rightarrow> (string \<times> (int \<times> fnid) list) list option" where
  "events_of w this = (case w_objs w this of None \<Rightarrow> None | Some ob \<Rightarrow> o_events ob)"

text \<open>The table of one event; \<open>None\<close> when the event has no table yet.\<close>

definition listeners :: "world \<Rightarrow> objid \<Rightarrow> string \<Rightarrow> (int \<times> fnid) list option" where
  "listeners w this ev = Option.bind (events_of w this) (\<lambda>es. map_of es ev)"

definition put_listeners :: "objid \<Rightarrow> string \<Rightarrow> (int \<times> fnid) list \<Rightarrow> world \<Rightarrow> world" where
  "put_listeners this ev t =
     upd_obj this (\<lambda>ob. ob\<lparr>o_events := map_option (AList.update ev t) (o_events ob)\<rparr>)"

definition upd_fn :: "fnid \<Rightarrow> (jsfn \<Rightarrow> jsfn) \<Rightarrow> world \<Rightarrow> world" where
  "upd_fn f g w = w\<lparr>w_fns := (w_fns w)(f := g (w_fns w f))\<rparr>"

abbreviation type_error :: string where
  "type_error \<equiv> ''TypeError: cannot read property of undefined''"

text \<open>
  \<open>iroh_ev_on\<close>: the counter is consumed first; a function that already carries an id keeps it,
  and registering it again for the same event changes nothing.
\<close>

definition iroh_ev_on :: "string \<Rightarrow> string \<Rightarrow> jsval \<Rightarrow> objid \<Rightarrow> world \<Rightarrow> jsres \<times> world" where
  "iroh_ev_on fname evname cb this w0 =
     (let id0 = sint (w_evcb_id w0);
          w = w0\<lparr>w_evcb_id := w_evcb_id w0 + 1\<rparr>
      in case cb of
           JFun f \<Rightarrow>
             (case events_of w this of
                None \<Rightarrow> (Throw type_error, w)
              | Some es \<Rightarrow>
                  (let t = (case map_of es evname of None \<Rightarrow> [] | Some t \<Rightarrow> t);
                       w1 = put_listeners this evname t w;
                       i = (case fn_evcb_id (w_fns w f) of None \<Rightarrow> id0 | Some i \<Rightarrow> i)
                   in if fn_evcb_id (w_fns w f) \<noteq> None \<and> i \<in> fst ` set t then (Ret JUndefined, w1)
                      else (Ret JUndefined,
                            put_listeners this evname (AList.update i f t)
                              (upd_fn f (\<lambda>x. x\<lparr>fn_evcb_id := Some i\<rparr>) w1))))
         | _ \<Rightarrow> (Throw (fname @ '': argument must be a Function (listener)''), w))"

section \<open>Firing an event\<close>

text \<open>
  The loop of \<open>iroh_do_callback\<close> over the keys the enumerator listed when it was created. A key
  deleted meanwhile is skipped; a one-time listener is unmarked and removed before it is
  called; an exception is printed and swallowed. The result counts the listeners called.
\<close>

fun run_listeners ::
  "jscode \<Rightarrow> objid \<Rightarrow> string \<Rightarrow> jsval list \<Rightarrow> int list \<Rightarrow> world \<Rightarrow> fault + nat \<times> world" where
  "run_listeners js this ev args [] w = Inr (0, w)"
| "run_listeners js this ev args (k # ks) w =
     (case Option.bind (listeners w this ev) (\<lambda>t. map_of t k) of
        None \<Rightarrow> run_listeners js this ev args ks w
      | Some f \<Rightarrow>
          (let w1 = (if fn_once (w_fns w f)
                     then put_listeners this ev
                            (AList.delete k (the (listeners w this ev)))
                            (upd_fn f (\<lambda>x. x\<lparr>fn_once := False\<rparr>) w)
                     else w)
           in bnd (js (log (Invoke f this ev args) w1) f this args) (\<lambda>(threw, w2).
              bnd (run_listeners js this ev args ks
                     (if threw then log (CallbackError ev f) w2 else w2)) (\<lambda>(n, w3).
                Inr (Suc n, w3)))))"

text \<open>
  \<open>iroh_do_callback\<close>. The C code passes at most one argument, so the argument is an option.
  For an \<open>error\<close> event the argument is replaced by an \<open>Error\<close> object; with no argument the value
  replaced is \<open>this\<close> itself, and reading \<open>_events\<close> of the \<open>Error\<close> object throws.
\<close>

definition error_text :: "jsval \<Rightarrow> string" where
  "error_text v = (case v of JStr s \<Rightarrow> c_str s | _ \<Rightarrow> ''unspecified error'')"

definition iroh_do_callback ::
  "'e env_scheme \<Rightarrow> jscode \<Rightarrow> objid \<Rightarrow> string \<Rightarrow> jsval option \<Rightarrow> world \<Rightarrow> fault + jsres \<times> world"
where
  "iroh_do_callback env js this ev arg w =
     (if ev = ''error'' \<and> arg = None then Inr (Throw type_error, w)
      else
        let args = (case arg of None \<Rightarrow> []
                    | Some v \<Rightarrow> if ev = ''error'' then [JErr (error_text v)] else [v])
        in case events_of w this of
             None \<Rightarrow> Inr (Throw type_error, w)
           | Some es \<Rightarrow>
               (case map_of es ev of
                  None \<Rightarrow>
                    Inr (Ret JUndefined,
                         if ev = ''error'' then log (Uncaught (error_text (the arg))) w else w)
                | Some t \<Rightarrow>
                    bnd (run_listeners js this ev args (env_enum_int env (map fst t)) w) (\<lambda>(n, w').
                      Inr (Ret JUndefined,
                           if ev = ''error'' \<and> n = 0
                           then log (Uncaught (error_text (the arg))) w' else w'))))"

text \<open>
  From the event loop there is no protected call around \<open>iroh_do_callback\<close>: an exception that
  reaches it is fatal.
\<close>

definition unprotected :: "fault + jsres \<times> world \<Rightarrow> fault + world" where
  "unprotected m = bnd m (\<lambda>(res, w). case res of Ret _ \<Rightarrow> Inr w | Throw _ \<Rightarrow> Inl DukFatal)"

definition emit ::
  "'e env_scheme \<Rightarrow> jscode \<Rightarrow> addr \<Rightarrow> string \<Rightarrow> jsval option \<Rightarrow> world \<Rightarrow> fault + world" where
  "emit env js a ev arg w =
     bnd (get_ctx w a) (\<lambda>c. unprotected (iroh_do_callback env js (thisptr c) ev arg w))"

definition iroh_fire_event ::
  "'e env_scheme \<Rightarrow> jscode \<Rightarrow> addr \<Rightarrow> string \<Rightarrow> world \<Rightarrow> fault + world" where
  "iroh_fire_event env js a evname w = emit env js a evname None w"

definition iroh_fire_error ::
  "'e env_scheme \<Rightarrow> jscode \<Rightarrow> addr \<Rightarrow> string option \<Rightarrow> world \<Rightarrow> fault + world" where
  "iroh_fire_error env js a msg w =
     emit env js a ''error''
       (Some (JStr (case msg of None \<Rightarrow> ''unknown iroh error'' | Some m \<Rightarrow> m))) w"

section \<open>off and trigger\<close>

definition duk_rp_iroh_off :: "objid \<Rightarrow> jsval \<Rightarrow> jsval \<Rightarrow> world \<Rightarrow> jsres \<times> world" where
  "duk_rp_iroh_off this arg0 arg1 w =
     (case require_string arg0 of
        Some evname \<Rightarrow>
          (case arg1 of
             JFun f \<Rightarrow>
               (case events_of w this of
                  None \<Rightarrow> (Throw type_error, w)
                | Some es \<Rightarrow>
                    (case map_of es evname of
                       None \<Rightarrow> (Ret (JObj this), w)
                     | Some t \<Rightarrow>
                         (case fn_evcb_id (w_fns w f) of
                            None \<Rightarrow> (Ret (JObj this), w)
                          | Some i \<Rightarrow> (Ret (JObj this), put_listeners this evname (AList.delete i t) w))))
           | _ \<Rightarrow> (Throw ''iroh.off: second argument must be a function'', w))
      | None \<Rightarrow> (Throw ''iroh.off: first argument must be a String (event name)'', w))"

definition duk_rp_iroh_trigger ::
  "'e env_scheme \<Rightarrow> jscode \<Rightarrow> objid \<Rightarrow> jsval \<Rightarrow> jsval \<Rightarrow> world \<Rightarrow> fault + jsres \<times> world" where
  "duk_rp_iroh_trigger env js this arg0 arg1 w =
     (case require_string arg0 of
        Some ev \<Rightarrow> iroh_do_callback env js this ev (if arg1 = JUndefined then None else Some arg1) w
      | None \<Rightarrow> Inr (Throw ''iroh.trigger: first argument must be a string (event name)'', w))"

section \<open>One-shot callbacks\<close>

text \<open>\<open>iroh_store_cb\<close>: ids start at 1, since 0 stands for no callback.\<close>

definition iroh_store_cb :: "addr \<Rightarrow> fnid \<Rightarrow> world \<Rightarrow> fault + u32 \<times> world" where
  "iroh_store_cb a f w =
     bnd (get_ctx w a) (\<lambda>c.
       let i = next_cb_id c + 1 in
       Inr (i, upd_obj (thisptr c) (\<lambda>ob. ob\<lparr>o_cbs := (o_cbs ob)(i \<mapsto> f)\<rparr>)
                 (put_ctx a (c\<lparr>next_cb_id := i\<rparr>) w)))"

text \<open>\<open>iroh_prep_cb\<close> hands the callback out and forgets it.\<close>

definition iroh_prep_cb :: "addr \<Rightarrow> u32 \<Rightarrow> world \<Rightarrow> fault + (fnid \<times> objid) option \<times> world" where
  "iroh_prep_cb a i w =
     bnd (get_ctx w a) (\<lambda>c.
       case Option.bind (w_objs w (thisptr c)) (\<lambda>ob. o_cbs ob i) of
         None \<Rightarrow> Inr (None, w)
       | Some f \<Rightarrow>
           Inr (Some (f, thisptr c),
                upd_obj (thisptr c) (\<lambda>ob. ob\<lparr>o_cbs := (o_cbs ob)(i := None)\<rparr>) w))"

text \<open>\<open>duk_pcall_method\<close> on a prepared callback: an exception is printed and swallowed.\<close>

definition pcall_cb ::
  "jscode \<Rightarrow> string \<Rightarrow> fnid \<times> objid \<Rightarrow> jsval list \<Rightarrow> world \<Rightarrow> fault + world" where
  "pcall_cb js what cb args w =
     bnd (js (log (Invoke (fst cb) (snd cb) what args) w) (fst cb) (snd cb) args)
       (\<lambda>(threw, w'). Inr (if threw then log (CallbackError what (fst cb)) w' else w'))"

end
