(* ===== verification/AsyncBridge.thy ===== *)
theory AsyncBridge
  imports Emitter
begin

text \<open>
  The async bridge of \<open>module/rampart-iroh.c\<close>: the table of operations in flight that every
  context keeps (\<open>iroh_remove_pending\<close>, \<open>iroh_free_async_op\<close>, \<open>iroh_start_async\<close>), and the
  teardown of a context (\<open>iroh_cleanup\<close>). The table is a growable C array with a 16-bit
  capacity; \<open>pending\<close> is the list it represents, and the operations refine appending to and
  removing from that list.
\<close>

section \<open>The pending table\<close>

definition pending :: "RPIROH \<Rightarrow> opaddr list" where
  "pending c = take (unat (npending c)) (pending_ops c)"

text \<open>The search loop: the first index from \<open>i\<close> on that holds \<open>x\<close>.\<close>

fun scan_index :: "opaddr \<Rightarrow> opaddr list \<Rightarrow> nat \<Rightarrow> nat option" where
  "scan_index x [] i = None"
| "scan_index x (y # ys) i = (if y = x then Some i else scan_index x ys (Suc i))"

text \<open>The loop body on a hit: \<open>memmove\<close> the entries behind the hit one cell down.\<close>

definition del_pending :: "opaddr \<Rightarrow> RPIROH \<Rightarrow> RPIROH" where
  "del_pending aop c =
     (case scan_index aop (pending c) 0 of
        None \<Rightarrow> c
      | Some i \<Rightarrow>
          (let n = unat (npending c); xs = pending_ops c in
           c\<lparr>pending_ops := take i xs @ take (n - i - 1) (drop (i + 1) xs) @ drop (n - 1) xs,
             npending := npending c - 1\<rparr>))"

definition iroh_remove_pending :: "addr \<Rightarrow> opaddr \<Rightarrow> world \<Rightarrow> fault + world" where
  "iroh_remove_pending a aop w =
     bnd (get_ctx w a) (\<lambda>c.
       if pending_ops c = [] then Inr w else Inr (put_ctx a (del_pending aop c) w))"

definition iroh_free_async_op :: "opaddr \<Rightarrow> world \<Rightarrow> fault + world" where
  "iroh_free_async_op aop w =
     bnd (get_op w aop) (\<lambda>x.
     bnd (iroh_remove_pending (aop_ictx x) aop w) (\<lambda>w.
     bnd (event_free (aop_ev x) w) (\<lambda>w.
     bnd (in_rust' w (\<lambda>r. iroh_async_free r (aop_handle x))) (\<lambda>w.
       free_op aop w))))"

text \<open>
  Growing the array: \<open>realloc\<close> keeps what fits; the fresh cells have no defined contents and
  are never read before they are written.
\<close>

definition grow_alloc :: "u16 \<Rightarrow> u16" where
  "grow_alloc n = (if n \<noteq> 0 then n * 2 else 8)"

definition realloc_ops :: "nat \<Rightarrow> opaddr list \<Rightarrow> opaddr list" where
  "realloc_ops n xs = take n xs @ replicate (n - length xs) 0"

definition grow_pending :: "RPIROH \<Rightarrow> RPIROH" where
  "grow_pending c =
     (if npending c \<ge> pending_alloc c
      then c\<lparr>pending_alloc := grow_alloc (pending_alloc c),
             pending_ops := realloc_ops (unat (grow_alloc (pending_alloc c))) (pending_ops c)\<rparr>
      else c)"

definition push_pending :: "opaddr \<Rightarrow> RPIROH \<Rightarrow> fault + RPIROH" where
  "push_pending p c0 =
     (let c = grow_pending c0 in
      if unat (npending c) < length (pending_ops c)
      then Inr (c\<lparr>pending_ops := (pending_ops c)[unat (npending c) := p],
                 npending := npending c + 1\<rparr>)
      else Inl PendingOverflow)"

definition iroh_start_async ::
  "'e env_scheme \<Rightarrow> addr \<Rightarrow> hid option \<Rightarrow> iroh_op_type \<Rightarrow> u32 \<Rightarrow> world
     \<Rightarrow> fault + opaddr option \<times> world" where
  "iroh_start_async env a handle op aux w =
     (case handle of None \<Rightarrow> Inr (None, w)
      | Some h \<Rightarrow>
          bnd (iroh_async_get_fd (w_rust w) handle) (\<lambda>fd.
          if fd < 0 then
            bnd (in_rust' w (\<lambda>r. iroh_async_free r handle)) (\<lambda>w. Inr (None, w))
          else
            bnd (get_ctx w a) (\<lambda>c.
            let p = w_next w; w = w\<lparr>w_next := Suc (w_next w)\<rparr> in
            if \<not> env_event_new env p then
              bnd (in_rust' w (\<lambda>r. iroh_async_free r handle)) (\<lambda>w. Inr (None, w))
            else
              bnd (push_pending p c) (\<lambda>c'.
                Inr (Some p,
                     put_ctx a c'
                       (w\<lparr>w_ops := (w_ops w)(p := Some \<lparr>aop_ictx = a, aop_handle = handle,
                             aop_op = op, aop_ev = Some p, aop_aux = aux\<rparr>),
                          w_evs := (w_evs w)(p := True)\<rparr>))))))"

section \<open>Teardown\<close>

text \<open>Releasing operations in flight: the event, the handle (cancelled first), the struct.\<close>

fun cancel_ops :: "opaddr list \<Rightarrow> world \<Rightarrow> fault + world" where
  "cancel_ops [] w = Inr w"
| "cancel_ops (p # ps) w =
     bnd (get_op w p) (\<lambda>x.
     bnd (event_free (aop_ev x) w) (\<lambda>w.
     bnd (in_rust' w (\<lambda>r. iroh_async_cancel r (aop_handle x))) (\<lambda>w.
     bnd (in_rust' w (\<lambda>r. iroh_async_free r (aop_handle x))) (\<lambda>w.
     bnd (free_op p w) (\<lambda>w.
       cancel_ops ps w)))))"

text \<open>The Rust objects a context of each type owns, in the order they are freed.\<close>

definition owned :: "RPIROH \<Rightarrow> (rkind \<times> rid option) list" where
  "owned c =
     (case obj_type c of
        IROH_OBJ_ENDPOINT \<Rightarrow> [(KEndpoint, endpoint c)]
      | IROH_OBJ_CONNECTION \<Rightarrow> [(KConnection, conn_p c)]
      | IROH_OBJ_STREAM \<Rightarrow> [(KSendStream, send_p c), (KRecvStream, recv_p c)]
      | IROH_OBJ_GOSSIP \<Rightarrow> [(KRouter, router c), (KGossip, gossip_p c)]
      | IROH_OBJ_GOSSIP_TOPIC \<Rightarrow> [(KGossipTopic, topic_handle c)]
      | IROH_OBJ_BLOBS \<Rightarrow>
          [(KRouter, router c), (KBlobsProtocol, blobs_proto c), (KBlobStore, blob_store c)]
      | IROH_OBJ_DOCS \<Rightarrow>
          [(KRouter, router c), (KDocs, docs_p c), (KBlobStore, blob_store c)])"

fun free_all :: "(rkind \<times> rid option) list \<Rightarrow> rust \<Rightarrow> fault + rust" where
  "free_all [] r = Inr r"
| "free_all ((k, x) # xs) r = bnd (iroh_free k x r) (\<lambda>r. free_all xs r)"

definition clear_owned :: "RPIROH \<Rightarrow> RPIROH" where
  "clear_owned c =
     (case obj_type c of
        IROH_OBJ_ENDPOINT \<Rightarrow> c\<lparr>endpoint := None\<rparr>
      | IROH_OBJ_CONNECTION \<Rightarrow> c\<lparr>conn_p := None\<rparr>
      | IROH_OBJ_STREAM \<Rightarrow> c\<lparr>send_p := None, recv_p := None\<rparr>
      | IROH_OBJ_GOSSIP \<Rightarrow> c\<lparr>router := None, gossip_p := None\<rparr>
      | IROH_OBJ_GOSSIP_TOPIC \<Rightarrow> c\<lparr>topic_handle := None\<rparr>
      | IROH_OBJ_BLOBS \<Rightarrow> c\<lparr>router := None, blobs_proto := None, blob_store := None\<rparr>
      | IROH_OBJ_DOCS \<Rightarrow> c\<lparr>router := None, docs_p := None, blob_store := None\<rparr>)"

definition iroh_cleanup ::
  "'e env_scheme \<Rightarrow> jscode \<Rightarrow> addr option \<Rightarrow> bool \<Rightarrow> world \<Rightarrow> fault + jsres \<times> world" where
  "iroh_cleanup env js ictx docb w =
     (case ictx of None \<Rightarrow> Inr (Ret JUndefined, w)
      | Some a \<Rightarrow>
          bnd (get_ctx w a) (\<lambda>c.
          if has_flag (flags c) RPIROH_FLAG_CLOSED then Inr (Ret JUndefined, w)
          else
            bnd (set_flags a RPIROH_FLAG_CLOSED w) (\<lambda>w.
            let w = upd_obj (thisptr c) (\<lambda>ob. ob\<lparr>o_ictx := None\<rparr>)
                      (put_prop (thisptr c) ''closed'' (JBool True) w) in
            bnd (cancel_ops (pending c) w) (\<lambda>w.
            bnd (upd_ctx a (\<lambda>c. c\<lparr>pending_ops := [], npending := 0, pending_alloc := 0\<rparr>) w) (\<lambda>w.
            bnd (in_rust' w (free_all (owned c))) (\<lambda>w.
            bnd (upd_ctx a clear_owned w) (\<lambda>w.
            let w = snd (iroh_del_gs_object ''iroh_connkeymap'' (Some (keystr (thiskey c))) w) in
            bnd (if docb then iroh_do_callback env js (thisptr c) ''close'' None w
                 else Inr (Ret JUndefined, w)) (\<lambda>(res, w).
            case res of
              Throw m \<Rightarrow> Inr (Throw m, w)
            | Ret _ \<Rightarrow> bnd (free_ctx a w) (\<lambda>w. Inr (Ret JUndefined, w))))))))))"

section \<open>The table refines a list\<close>

text \<open>
  The contract of the pending table: the array represents the list \<open>tbl\<close>, adding appends,
  deleting removes the first occurrence.
\<close>

locale op_table =
  fixes tbl :: "'c \<Rightarrow> opaddr list"
    and ok :: "'c \<Rightarrow> bool"
    and add :: "opaddr \<Rightarrow> 'c \<Rightarrow> fault + 'c"
    and del :: "opaddr \<Rightarrow> 'c \<Rightarrow> 'c"
  assumes add_safe: "ok c \<Longrightarrow> safe (add p c) (\<lambda>c'. ok c' \<and> tbl c' = tbl c @ [p])"
    and del_ok: "ok c \<Longrightarrow> ok (del p c)"
    and tbl_del: "ok c \<Longrightarrow> tbl (del p c) = remove1 p (tbl c)"
begin

lemma add_Inr:
  assumes "ok c" and "add p c = Inr c'"
  shows "ok c'" and "tbl c' = tbl c @ [p]"
  using add_safe[OF assms(1), of p] assms(2) by simp_all

lemma add_distinct:
  assumes "ok c" and "add p c = Inr c'" and "distinct (tbl c)" and "p \<notin> set (tbl c)"
  shows "distinct (tbl c')"
  using add_Inr(2)[OF assms(1,2)] assms(3,4) by simp

lemma del_distinct: "ok c \<Longrightarrow> distinct (tbl c) \<Longrightarrow> distinct (tbl (del p c))"
  by (simp add: tbl_del distinct_remove1)

lemma del_absent: "ok c \<Longrightarrow> distinct (tbl c) \<Longrightarrow> p \<notin> set (tbl (del p c))"
  by (simp add: tbl_del)

lemma del_add:
  assumes "ok c" and "p \<notin> set (tbl c)" and "add p c = Inr c'"
  shows "tbl (del p c') = tbl c"
  using add_Inr[OF assms(1,3)] assms(2) by (simp add: tbl_del remove1_append)

lemma del_other: "ok c \<Longrightarrow> distinct (tbl c) \<Longrightarrow> q \<in> set (tbl (del p c)) \<longleftrightarrow> q \<in> set (tbl c) \<and> q \<noteq> p"
  by (auto simp: tbl_del)

end

definition pending_ok :: "RPIROH \<Rightarrow> bool" where
  "pending_ok c \<longleftrightarrow>
     unat (npending c) \<le> length (pending_ops c) \<and> length (pending_ops c) = unat (pending_alloc c)"

lemma scan_index_None: "scan_index x ys i = None \<longleftrightarrow> x \<notin> set ys"
  by (induction ys arbitrary: i) auto

lemma scan_index_Some:
  "scan_index x ys i = Some j \<Longrightarrow>
     i \<le> j \<and> j - i < length ys \<and> ys ! (j - i) = x \<and> (\<forall>k < j - i. ys ! k \<noteq> x)"
proof (induction ys arbitrary: i)
  case Nil
  then show ?case by simp
next
  case (Cons y ys)
  show ?case
  proof (cases "y = x")
    case True
    with Cons.prems show ?thesis by simp
  next
    case False
    with Cons.prems have "scan_index x ys (Suc i) = Some j" by simp
    note IH = Cons.IH[OF this]
    then have j: "j - i = Suc (j - Suc i)" by linarith
    have "(y # ys) ! k \<noteq> x" if "k < j - i" for k
      using that IH False j by (cases k) auto
    with IH j show ?thesis by simp
  qed
qed

lemma length_pending: "pending_ok c \<Longrightarrow> length (pending c) = unat (npending c)"
  by (simp add: pending_ok_def pending_def)

lemma del_pending_refines:
  assumes "pending_ok c"
  shows "pending_ok (del_pending p c) \<and> pending (del_pending p c) = remove1 p (pending c)"
proof (cases "scan_index p (pending c) 0")
  case None
  then have "p \<notin> set (pending c)" by (simp add: scan_index_None)
  with None assms show ?thesis by (simp add: del_pending_def remove1_idem)
next
  case (Some i)
  define n where "n = unat (npending c)"
  define xs where "xs = pending_ops c"
  have n: "n \<le> length xs" "length xs = unat (pending_alloc c)"
    using assms by (simp_all add: pending_ok_def n_def xs_def)
  have p: "pending c = take n xs" by (simp add: pending_def n_def xs_def)
  have "i < length (pending c)" "pending c ! i = p" "\<forall>k < i. pending c ! k \<noteq> p"
    using scan_index_Some[OF Some] by simp_all
  then have i: "i < n" "take n xs ! i = p" "\<And>k. k < i \<Longrightarrow> take n xs ! k \<noteq> p"
    unfolding p by simp_all
  have n1: "unat (npending c - 1) = n - 1"
  proof -
    have "npending c \<noteq> 0" using i(1) by (auto simp: n_def)
    then show ?thesis by (simp add: n_def unat_minus_one)
  qed
  let ?ys = "take i xs @ take (n - i - 1) (drop (i + 1) xs) @ drop (n - 1) xs"
  have len: "length ?ys = length xs" using i(1) n(1) by simp
  have "take (n - 1) ?ys = take i xs @ take (n - i - 1) (drop (i + 1) xs)"
    using i(1) n(1) by simp
  also have "\<dots> = take i (take n xs) @ drop (Suc i) (take n xs)"
    using i(1) by (simp add: drop_take min_def)
  also have "\<dots> = remove1 p (take n xs)"
    using i n by (intro remove1_eq_take_drop[symmetric]) auto
  finally have "take (n - 1) ?ys = remove1 p (take n xs)" .
  then show ?thesis
    using Some len n n1 i(1)
    by (simp add: del_pending_def pending_ok_def pending_def Let_def n_def[symmetric] xs_def[symmetric])
qed

lemma unat_u16_less: "unat (x :: u16) < 65536"
  by (rule order_less_le_trans[OF unsigned_less]) simp

lemma unat_grow_alloc:
  "unat (grow_alloc n) =
     (if n = 0 then 8 else if unat n < 32768 then 2 * unat n else 2 * unat n - 65536)"
proof -
  have wrap: "m * 2 mod 65536 = 2 * m - 65536" if "\<not> m < 32768" "m < 65536" for m :: nat
    using that le_mod_geq[of 65536 "m * 2"] by simp
  show ?thesis
    using unat_u16_less[of n] by (auto simp: grow_alloc_def unat_word_ariths wrap)
qed

lemma length_realloc_ops [simp]: "length (realloc_ops n xs) = n"
  by (simp add: realloc_ops_def)

text \<open>
  Growing succeeds exactly while the table holds fewer than \<open>2^15\<close> operations: doubling a
  capacity of \<open>2^15\<close> or more wraps the 16-bit field around.
\<close>

lemma grow_pending_room:
  assumes "pending_ok c"
  shows "unat (npending (grow_pending c)) < length (pending_ops (grow_pending c)) \<longleftrightarrow>
           \<not> (npending c = pending_alloc c \<and> 32768 \<le> unat (npending c))"
proof (cases "npending c \<ge> pending_alloc c")
  case True
  with assms have eq: "unat (npending c) = unat (pending_alloc c)"
    by (simp add: pending_ok_def word_le_nat_alt)
  then have "npending c = pending_alloc c" by (simp add: word_unat_eq_iff)
  with True eq unat_u16_less[of "npending c"] show ?thesis
    by (auto simp: grow_pending_def unat_grow_alloc unat_gt_0 split: if_splits)
next
  case False
  with assms show ?thesis
    by (auto simp: grow_pending_def pending_ok_def word_le_nat_alt)
qed

lemma grow_pending_refines:
  assumes "pending_ok c" and "\<not> (npending c = pending_alloc c \<and> 32768 \<le> unat (npending c))"
  shows "pending_ok (grow_pending c) \<and> pending (grow_pending c) = pending c
     \<and> npending (grow_pending c) = npending c"
proof (cases "npending c \<ge> pending_alloc c")
  case True
  with assms have eq: "unat (npending c) = unat (pending_alloc c)" "unat (npending c) < 32768"
    "length (pending_ops c) = unat (npending c)"
    by (auto simp: pending_ok_def word_le_nat_alt word_unat_eq_iff)
  then have "unat (npending c) \<le> unat (grow_alloc (pending_alloc c))"
    by (simp add: unat_grow_alloc)
  with True eq show ?thesis
    by (simp add: grow_pending_def pending_ok_def pending_def realloc_ops_def)
qed (use assms in \<open>simp add: grow_pending_def\<close>)

lemma push_pending_refines:
  assumes "pending_ok c" and "\<not> (npending c = pending_alloc c \<and> 32768 \<le> unat (npending c))"
  obtains xs n al where
    "push_pending p c = Inr (c\<lparr>pending_ops := xs, npending := n, pending_alloc := al\<rparr>)"
    and "pending_ok (c\<lparr>pending_ops := xs, npending := n, pending_alloc := al\<rparr>)"
    and "pending (c\<lparr>pending_ops := xs, npending := n, pending_alloc := al\<rparr>) = pending c @ [p]"
proof -
  define d where "d = grow_pending c"
  define xs where "xs = (pending_ops d)[unat (npending d) := p]"
  define n where "n = npending d + 1"
  note g = grow_pending_refines[OF assms, folded d_def]
  have room: "unat (npending d) < length (pending_ops d)"
    using grow_pending_room[OF assms(1)] assms(2) by (simp add: d_def)
  have len: "length (pending_ops d) = unat (pending_alloc d)"
    using g by (simp add: pending_ok_def)
  have n1: "unat n = Suc (unat (npending d))"
    using room len unat_u16_less[of "pending_alloc d"]
    by (simp add: n_def unat_word_ariths)
  have d: "d = c\<lparr>pending_ops := pending_ops d, npending := npending d, pending_alloc := pending_alloc d\<rparr>"
    by (simp add: d_def grow_pending_def)
  have "push_pending p c = Inr (d\<lparr>pending_ops := xs, npending := n\<rparr>)"
    using room by (simp add: push_pending_def Let_def d_def[symmetric] xs_def n_def)
  also have "d\<lparr>pending_ops := xs, npending := n\<rparr> =
      c\<lparr>pending_ops := xs, npending := n, pending_alloc := pending_alloc d\<rparr>"
    by (subst d) simp
  finally have 1: "push_pending p c = Inr \<dots>" .
  have "take (unat n) xs = take (unat (npending d)) (pending_ops d) @ [p]"
    using room by (simp add: n1 xs_def take_Suc_conv_app_nth)
  also have "take (unat (npending d)) (pending_ops d) = pending c"
    using g unfolding pending_def by metis
  finally have 2: "take (unat n) xs = pending c @ [p]" .
  show ?thesis
    by (rule that[OF 1]) (use room len n1 2 in \<open>simp_all add: pending_ok_def pending_def xs_def\<close>)
qed

lemma push_pending_overflow:
  "pending_ok c \<Longrightarrow>
     push_pending p c = Inl PendingOverflow \<longleftrightarrow> npending c = pending_alloc c \<and> 32768 \<le> unat (npending c)"
  using grow_pending_room[of c] by (auto simp: push_pending_def Let_def)

lemma push_pending_cases:
  assumes "pending_ok c"
  obtains "push_pending p c = Inl PendingOverflow"
    | xs n al where "push_pending p c = Inr (c\<lparr>pending_ops := xs, npending := n, pending_alloc := al\<rparr>)"
      and "pending_ok (c\<lparr>pending_ops := xs, npending := n, pending_alloc := al\<rparr>)"
      and "pending (c\<lparr>pending_ops := xs, npending := n, pending_alloc := al\<rparr>) = pending c @ [p]"
  using push_pending_overflow[OF assms] push_pending_refines[OF assms] by metis

interpretation pt: op_table pending pending_ok push_pending del_pending
proof unfold_locales
  fix c p
  assume "pending_ok c"
  then show "safe (push_pending p c) (\<lambda>c'. pending_ok c' \<and> pending c' = pending c @ [p])"
    by (rule push_pending_cases[of c p]) simp_all
qed (simp_all add: del_pending_refines)

end
