(* ===== verification/Loops.thy ===== *)
theory Loops
  imports AsyncBridge
begin

text \<open>
  New contexts and the JavaScript objects they belong to (\<open>push_new_connection\<close>,
  \<open>push_new_stream\<close> and the part the constructors share), the five self-renewing loops
  (accept, stream accept, read, datagram, gossip receive), and the two registration methods
  that start them (\<open>on\<close>, \<open>once\<close>).
\<close>

section \<open>New contexts\<close>

definition zero_ctx :: "objid \<Rightarrow> iroh_obj_type \<Rightarrow> addr option \<Rightarrow> u32 \<Rightarrow> RPIROH" where
  "zero_ctx this ty par key =
     \<lparr>thisptr = this, thiskey = key, next_cb_id = 0, obj_type = ty, flags = 0,
      endpoint = None, conn_p = None, send_p = None, recv_p = None, gossip_p = None,
      topic_handle = None, blob_store = None, blobs_proto = None, docs_p = None, router = None,
      parent = par, pending_ops = [], npending = 0, pending_alloc = 0\<rparr>"

text \<open>
  The steps every constructor performs on its object: fresh \<open>_events\<close> and \<open>_cbs\<close>, a zeroed
  context with the next key, the hidden pointer to it, and the entry in the stash that keeps
  the object from being collected.
\<close>

definition init_emitter :: "objid \<Rightarrow> world \<Rightarrow> world" where
  "init_emitter this = upd_obj this (\<lambda>ob. ob\<lparr>o_events := Some [], o_cbs := Map.empty\<rparr>)"

definition new_ctx :: "objid \<Rightarrow> iroh_obj_type \<Rightarrow> addr option \<Rightarrow> world \<Rightarrow> addr \<times> world" where
  "new_ctx this ty par w =
     (w_next w,
      upd_obj this (\<lambda>ob. ob\<lparr>o_ictx := Some (w_next w)\<rparr>)
        (put_ctx (w_next w) (zero_ctx this ty par (w_this_id w))
           (w\<lparr>w_next := Suc (w_next w), w_this_id := w_this_id w + 1\<rparr>)))"

definition gc_protect :: "objid \<Rightarrow> u32 \<Rightarrow> world \<Rightarrow> world" where
  "gc_protect this key w =
     snd (iroh_put_gs_object ''iroh_connkeymap'' (Some (keystr key)) (JObj this) w)"

text \<open>Printing a short-lived id into a property and releasing it.\<close>

definition show_prop :: "objid \<Rightarrow> string \<Rightarrow> tkind \<Rightarrow> rid option \<Rightarrow> world \<Rightarrow> fault + world" where
  "show_prop this prop k x w =
     (case x of None \<Rightarrow> Inr w
      | Some i \<Rightarrow>
          bnd (tmp_to_string k i (w_rust w)) (\<lambda>s.
            in_rust' (case s of None \<Rightarrow> w | Some s \<Rightarrow> put_prop this prop (JStr s) w)
              (tmp_free k (Some i))))"

definition push_new_connection ::
  "'e env_scheme \<Rightarrow> addr \<Rightarrow> rid \<Rightarrow> world \<Rightarrow> fault + objid \<times> world" where
  "push_new_connection env par conn w =
     (let (this, w) = new_obj empty_obj w;
          w = init_emitter this w;
          key = w_this_id w;
          (a, w) = new_ctx this IROH_OBJ_CONNECTION (Some par) w in
      bnd (upd_ctx a (\<lambda>c. c\<lparr>conn_p := Some conn\<rparr>) w) (\<lambda>w.
      bnd (in_rust w (\<lambda>r. iroh_connection_remote_id env r (Some conn))) (\<lambda>(i, w).
      bnd (show_prop this ''remoteId'' TPublicKey i w) (\<lambda>w.
      bnd (iroh_connection_alpn env (w_rust w) (Some conn)) (\<lambda>alpn.
      let w = (case alpn of None \<Rightarrow> w | Some s \<Rightarrow> put_prop this ''alpn'' (JStr s) w);
          w = put_prop this ''closed'' (JBool False) w in
      Inr (this, gc_protect this key w))))))"

definition push_new_stream ::
  "addr \<Rightarrow> rid \<Rightarrow> rid \<Rightarrow> world \<Rightarrow> fault + objid \<times> world" where
  "push_new_stream par snd_s rcv w =
     (let (this, w) = new_obj empty_obj w;
          w = init_emitter this w;
          key = w_this_id w;
          (a, w) = new_ctx this IROH_OBJ_STREAM (Some par) w in
      bnd (upd_ctx a (\<lambda>c. c\<lparr>send_p := Some snd_s, recv_p := Some rcv\<rparr>) w) (\<lambda>w.
      let w = put_prop this ''closed'' (JBool False) w;
          w = put_prop this ''finished'' (JBool False) w in
      Inr (this, gc_protect this key w)))"

section \<open>Loops\<close>

text \<open>
  The tail every loop shares: start the next operation, or clear the loop's flag when it could
  not be started.
\<close>

definition arm_loop ::
  "'e env_scheme \<Rightarrow> addr \<Rightarrow> iroh_op_type \<Rightarrow> u16 \<Rightarrow> (rust \<Rightarrow> fault + hid option \<times> rust) \<Rightarrow> world
     \<Rightarrow> fault + world" where
  "arm_loop env a op fl start w =
     bnd (in_rust w start) (\<lambda>(h, w).
       case h of
         Some _ \<Rightarrow> bnd (iroh_start_async env a h op 0 w) (\<lambda>(_, w). Inr w)
       | None \<Rightarrow> clr_flags a fl w)"

definition iroh_start_accept_loop :: "'e env_scheme \<Rightarrow> addr \<Rightarrow> world \<Rightarrow> fault + world" where
  "iroh_start_accept_loop env a w =
     bnd (get_ctx w a) (\<lambda>c.
       if endpoint c = None \<or> has_flag (flags c) RPIROH_FLAG_CLOSED
          \<or> has_flag (flags c) RPIROH_FLAG_ACCEPTING
       then Inr w
       else bnd (set_flags a RPIROH_FLAG_ACCEPTING w)
              (arm_loop env a IROH_OP_ENDPOINT_ACCEPT RPIROH_FLAG_ACCEPTING
                 (\<lambda>r. iroh_endpoint_accept env r (endpoint c))))"

definition iroh_start_stream_accept_loop :: "'e env_scheme \<Rightarrow> addr \<Rightarrow> world \<Rightarrow> fault + world" where
  "iroh_start_stream_accept_loop env a w =
     bnd (get_ctx w a) (\<lambda>c.
       if conn_p c = None \<or> has_flag (flags c) RPIROH_FLAG_CLOSED
          \<or> has_flag (flags c) RPIROH_FLAG_STREAM_ACCEPT
       then Inr w
       else bnd (set_flags a RPIROH_FLAG_STREAM_ACCEPT w)
              (arm_loop env a IROH_OP_ACCEPT_BI RPIROH_FLAG_STREAM_ACCEPT
                 (\<lambda>r. iroh_connection_accept_bi env r (conn_p c))))"

definition iroh_start_read_loop :: "'e env_scheme \<Rightarrow> addr \<Rightarrow> world \<Rightarrow> fault + world" where
  "iroh_start_read_loop env a w =
     bnd (get_ctx w a) (\<lambda>c.
       if recv_p c = None \<or> has_flag (flags c) RPIROH_FLAG_CLOSED
          \<or> has_flag (flags c) RPIROH_FLAG_READING
       then Inr w
       else bnd (set_flags a RPIROH_FLAG_READING w)
              (arm_loop env a IROH_OP_STREAM_READ RPIROH_FLAG_READING
                 (\<lambda>r. iroh_recv_stream_read env r (recv_p c) 65536)))"

definition iroh_start_datagram_loop :: "'e env_scheme \<Rightarrow> addr \<Rightarrow> world \<Rightarrow> fault + world" where
  "iroh_start_datagram_loop env a w =
     bnd (get_ctx w a) (\<lambda>c.
       if conn_p c = None \<or> has_flag (flags c) RPIROH_FLAG_CLOSED
          \<or> has_flag (flags c) RPIROH_FLAG_DATAGRAM_RECV
       then Inr w
       else bnd (set_flags a RPIROH_FLAG_DATAGRAM_RECV w)
              (arm_loop env a IROH_OP_RECV_DATAGRAM RPIROH_FLAG_DATAGRAM_RECV
                 (\<lambda>r. iroh_connection_recv_datagram env r (conn_p c))))"

definition iroh_start_gossip_recv_loop :: "'e env_scheme \<Rightarrow> addr \<Rightarrow> world \<Rightarrow> fault + world" where
  "iroh_start_gossip_recv_loop env a w =
     bnd (get_ctx w a) (\<lambda>c.
       if topic_handle c = None \<or> has_flag (flags c) RPIROH_FLAG_CLOSED
          \<or> has_flag (flags c) RPIROH_FLAG_READING
       then Inr w
       else bnd (set_flags a RPIROH_FLAG_READING w)
              (arm_loop env a IROH_OP_GOSSIP_RECV RPIROH_FLAG_READING
                 (\<lambda>r. iroh_gossip_recv env r (topic_handle c))))"

section \<open>Registering listeners\<close>

text \<open>
  The part \<open>on\<close> and \<open>once\<close> share: which loop the event name starts on which type of object.
\<close>

definition auto_start :: "'e env_scheme \<Rightarrow> objid \<Rightarrow> string \<Rightarrow> world \<Rightarrow> fault + world" where
  "auto_start env this evname w =
     (case this_ictx w this of None \<Rightarrow> Inr w
      | Some a \<Rightarrow>
          bnd (get_ctx w a) (\<lambda>c.
          if has_flag (flags c) RPIROH_FLAG_CLOSED then Inr w
          else if obj_type c = IROH_OBJ_ENDPOINT \<and> evname = ''connection'' then
            (if endpoint c \<noteq> None \<and> \<not> has_flag (flags c) RPIROH_FLAG_ACCEPTING
             then iroh_start_accept_loop env a w else Inr w)
          else if obj_type c = IROH_OBJ_CONNECTION \<and> evname = ''stream'' then
            (if conn_p c \<noteq> None \<and> \<not> has_flag (flags c) RPIROH_FLAG_STREAM_ACCEPT
             then iroh_start_stream_accept_loop env a w else Inr w)
          else if obj_type c = IROH_OBJ_STREAM \<and> evname = ''data'' then
            (if recv_p c \<noteq> None \<and> \<not> has_flag (flags c) RPIROH_FLAG_READING
             then iroh_start_read_loop env a w else Inr w)
          else if obj_type c = IROH_OBJ_CONNECTION \<and> evname = ''datagram'' then
            (if conn_p c \<noteq> None \<and> \<not> has_flag (flags c) RPIROH_FLAG_DATAGRAM_RECV
             then iroh_start_datagram_loop env a w else Inr w)
          else Inr w))"

definition duk_rp_iroh_on ::
  "'e env_scheme \<Rightarrow> objid \<Rightarrow> jsval \<Rightarrow> jsval \<Rightarrow> world \<Rightarrow> fault + jsres \<times> world" where
  "duk_rp_iroh_on env this arg0 arg1 w =
     (case require_string arg0 of
        Some evname \<Rightarrow>
          if \<not> is_function arg1
          then Inr (Throw ''iroh.on: second argument must be a function'', w)
          else (case iroh_ev_on ''iroh.on'' evname arg1 this w of
                  (Throw m, w) \<Rightarrow> Inr (Throw m, w)
                | (Ret _, w) \<Rightarrow> bnd (auto_start env this evname w) (\<lambda>w. Inr (Ret (JObj this), w)))
      | None \<Rightarrow> Inr (Throw ''iroh.on: first argument must be a String (event name)'', w))"

definition duk_rp_iroh_once ::
  "'e env_scheme \<Rightarrow> objid \<Rightarrow> jsval \<Rightarrow> jsval \<Rightarrow> world \<Rightarrow> fault + jsres \<times> world" where
  "duk_rp_iroh_once env this arg0 arg1 w =
     (case require_string arg0 of
        Some evname \<Rightarrow>
          (case arg1 of
             JFun f \<Rightarrow>
               (case iroh_ev_on ''iroh.once'' evname arg1 this
                       (upd_fn f (\<lambda>x. x\<lparr>fn_once := True\<rparr>) w) of
                  (Throw m, w) \<Rightarrow> Inr (Throw m, w)
                | (Ret _, w) \<Rightarrow> bnd (auto_start env this evname w) (\<lambda>w. Inr (Ret (JObj this), w)))
           | _ \<Rightarrow> Inr (Throw ''iroh.once: second argument must be a function'', w))
      | None \<Rightarrow> Inr (Throw ''iroh.once: first argument must be a String (event name)'', w))"

end
