(* ===== verification/CoreHandlers.thy ===== *)
theory CoreHandlers
  imports Loops
begin

text \<open>
  The result handlers for endpoints, connections and streams. Each gets an operation whose
  handle has left the \<open>Pending\<close> state, takes the result, releases the operation and only then
  runs JavaScript; a loop's handler starts the next round at the end.
\<close>

section \<open>Shared parts\<close>

abbreviation or_default :: "string option \<Rightarrow> string \<Rightarrow> string" where
  "or_default err dflt \<equiv> (case err of None \<Rightarrow> dflt | Some m \<Rightarrow> m)"

text \<open>
  The failure branch most handlers share: fetch the message, release the operation, fire
  \<open>error\<close> with the message or a default.
\<close>

definition fail_op ::
  "'e env_scheme \<Rightarrow> jscode \<Rightarrow> opaddr \<Rightarrow> string \<Rightarrow> world \<Rightarrow> fault + world" where
  "fail_op env js aop dflt w =
     bnd (get_op w aop) (\<lambda>x.
     bnd (iroh_async_get_error (w_rust w) (aop_handle x)) (\<lambda>err.
     bnd (iroh_free_async_op aop w) (\<lambda>w.
       iroh_fire_error env js (aop_ictx x) (Some (or_default err dflt)) w)))"

text \<open>The tail of the loop handlers: go on while the context is open and has its object.\<close>

definition rearm_loop ::
  "'e env_scheme \<Rightarrow> addr \<Rightarrow> iroh_op_type \<Rightarrow> u16 \<Rightarrow> (RPIROH \<Rightarrow> rid option)
     \<Rightarrow> (rust \<Rightarrow> rid option \<Rightarrow> fault + hid option \<times> rust) \<Rightarrow> world \<Rightarrow> fault + world" where
  "rearm_loop env a op fl sel start w =
     bnd (get_ctx w a) (\<lambda>c.
       if \<not> has_flag (flags c) RPIROH_FLAG_CLOSED \<and> sel c \<noteq> None
       then arm_loop env a op fl (\<lambda>r. start r (sel c)) w
       else clr_flags a fl w)"

section \<open>Endpoint\<close>

definition iroh_on_endpoint_created ::
  "'e env_scheme \<Rightarrow> jscode \<Rightarrow> opaddr \<Rightarrow> IrohAsyncState \<Rightarrow> world \<Rightarrow> fault + world" where
  "iroh_on_endpoint_created env js aop state w =
     bnd (get_op w aop) (\<lambda>x. let a = aop_ictx x in
     if state \<noteq> Ready then fail_op env js aop ''endpoint creation failed'' w
     else
       bnd (in_rust w (\<lambda>r. iroh_endpoint_create_result r (aop_handle x))) (\<lambda>(e, w).
       bnd (upd_ctx a (\<lambda>c. c\<lparr>endpoint := e\<rparr>) w) (\<lambda>w.
       bnd (iroh_free_async_op aop w) (\<lambda>w.
       if e = None then iroh_fire_error env js a (Some ''Failed to get endpoint result'') w
       else
         bnd (iroh_fire_event env js a ''ready'' w) (\<lambda>w.
         bnd (get_ctx w a) (\<lambda>c.
         bnd (in_rust w (\<lambda>r. iroh_endpoint_wait_online env r (endpoint c))) (\<lambda>(h, w).
         bnd (iroh_start_async env a h IROH_OP_ENDPOINT_WAIT_ONLINE 0 w) (\<lambda>(_, w). Inr w))))))))"

text \<open>The properties set when an endpoint comes online.\<close>

definition set_online_props :: "'e env_scheme \<Rightarrow> objid \<Rightarrow> rid option \<Rightarrow> world \<Rightarrow> fault + world" where
  "set_online_props env this ep w =
     bnd (in_rust w (\<lambda>r. iroh_endpoint_id env r ep)) (\<lambda>(i, w).
     bnd (show_prop this ''nodeId'' TPublicKey i w) (\<lambda>w.
     bnd (iroh_endpoint_secret_key env (w_rust w) ep) (\<lambda>sk.
     let w = (case sk of
                None \<Rightarrow> w
              | Some b \<Rightarrow>
                  if length b = 32
                  then put_prop this ''secretKeyHex'' (JStr (env_to_hex env b))
                         (put_prop this ''secretKey'' (JBuf b) w)
                  else w) in
     bnd (in_rust w (\<lambda>r. iroh_endpoint_addr env r ep)) (\<lambda>(i, w).
     bnd (show_prop this ''address'' TEndpointAddr i w) (\<lambda>w.
       Inr (put_prop this ''online'' (JBool True) w))))))"

text \<open>The pending \<open>iroh.connect\<close>, if the endpoint was created by it.\<close>

definition auto_connect :: "'e env_scheme \<Rightarrow> addr \<Rightarrow> world \<Rightarrow> fault + world" where
  "auto_connect env a w =
     bnd (get_ctx w a) (\<lambda>c.
     case w_objs w (thisptr c) of None \<Rightarrow> Inr w
     | Some ob \<Rightarrow>
         (case o_ac_addr ob of None \<Rightarrow> Inr w
          | Some addr_str \<Rightarrow>
              (let cb_id = (case o_ac_cbid ob of None \<Rightarrow> 0 | Some i \<Rightarrow> i);
                   (raddr, r) = iroh_endpoint_addr_from_string env addr_str (w_rust w);
                   w = w\<lparr>w_rust := r\<rparr> in
               bnd (case raddr of None \<Rightarrow> Inr w
                    | Some _ \<Rightarrow>
                        bnd (in_rust w (\<lambda>r. case o_ac_alpn ob of
                                None \<Rightarrow> null_arg ''NULL argument'' r
                              | Some alpn \<Rightarrow> iroh_endpoint_connect env r (endpoint c) raddr alpn))
                          (\<lambda>(h, w).
                        bnd (in_rust' w (tmp_free TEndpointAddr raddr)) (\<lambda>w.
                        bnd (iroh_start_async env a h IROH_OP_CONNECT cb_id w) (\<lambda>(_, w). Inr w))))
                 (\<lambda>w. Inr (upd_obj (thisptr c)
                        (\<lambda>ob. ob\<lparr>o_ac_addr := None, o_ac_alpn := None, o_ac_cbid := None\<rparr>) w)))))"

definition iroh_on_endpoint_online ::
  "'e env_scheme \<Rightarrow> jscode \<Rightarrow> opaddr \<Rightarrow> IrohAsyncState \<Rightarrow> world \<Rightarrow> fault + world" where
  "iroh_on_endpoint_online env js aop state w =
     bnd (get_op w aop) (\<lambda>x. let a = aop_ictx x in
     bnd (iroh_free_async_op aop w) (\<lambda>w.
     if state \<noteq> Ready then iroh_fire_error env js a (Some ''Failed to go online'') w
     else
       bnd (get_ctx w a) (\<lambda>c.
       bnd (set_online_props env (thisptr c) (endpoint c) w) (\<lambda>w.
       bnd (iroh_fire_event env js a ''online'' w) (\<lambda>w.
       bnd (auto_connect env a w) (\<lambda>w.
       bnd (get_ctx w a) (\<lambda>c.
         if listeners w (thisptr c) ''connection'' \<noteq> None
            \<and> \<not> has_flag (flags c) RPIROH_FLAG_ACCEPTING
         then iroh_start_accept_loop env a w else Inr w)))))))"

definition iroh_on_endpoint_closed ::
  "'e env_scheme \<Rightarrow> jscode \<Rightarrow> opaddr \<Rightarrow> IrohAsyncState \<Rightarrow> world \<Rightarrow> fault + world" where
  "iroh_on_endpoint_closed env js aop state w =
     bnd (get_op w aop) (\<lambda>x. let a = aop_ictx x in
     bnd (iroh_free_async_op aop w) (\<lambda>w.
     bnd (upd_ctx a (\<lambda>c. c\<lparr>endpoint := None\<rparr>) w) (\<lambda>w.
       unprotected (iroh_cleanup env js (Some a) True w))))"

section \<open>Connections\<close>

definition iroh_on_connection_accepted ::
  "'e env_scheme \<Rightarrow> jscode \<Rightarrow> opaddr \<Rightarrow> IrohAsyncState \<Rightarrow> world \<Rightarrow> fault + world" where
  "iroh_on_connection_accepted env js aop state w =
     bnd (get_op w aop) (\<lambda>x. let a = aop_ictx x in
     if state \<noteq> Ready then
       bnd (iroh_async_get_error (w_rust w) (aop_handle x)) (\<lambda>err.
       bnd (iroh_free_async_op aop w) (\<lambda>w.
       bnd (case err of
              Some m \<Rightarrow> if \<not> strstr m ''closed'' then iroh_fire_error env js a (Some m) w else Inr w
            | None \<Rightarrow> iroh_fire_error env js a (Some ''accept failed'') w) (\<lambda>w.
         clr_flags a RPIROH_FLAG_ACCEPTING w)))
     else
       bnd (in_rust w (\<lambda>r. iroh_connection_accept_result r (aop_handle x))) (\<lambda>(conn, w).
       bnd (iroh_free_async_op aop w) (\<lambda>w.
       bnd (case conn of None \<Rightarrow> Inr w
            | Some cn \<Rightarrow>
                bnd (push_new_connection env a cn w) (\<lambda>(ob, w).
                  emit env js a ''connection'' (Some (JObj ob)) w))
         (rearm_loop env a IROH_OP_ENDPOINT_ACCEPT RPIROH_FLAG_ACCEPTING endpoint
            (iroh_endpoint_accept env)))))"

definition iroh_on_connected ::
  "'e env_scheme \<Rightarrow> jscode \<Rightarrow> opaddr \<Rightarrow> IrohAsyncState \<Rightarrow> world \<Rightarrow> fault + world" where
  "iroh_on_connected env js aop state w =
     bnd (get_op w aop) (\<lambda>x. let a = aop_ictx x; cb_id = aop_aux x in
     if state \<noteq> Ready then fail_op env js aop ''connect failed'' w
     else
       bnd (in_rust w (\<lambda>r. iroh_connection_connect_result r (aop_handle x))) (\<lambda>(conn, w).
       bnd (iroh_free_async_op aop w) (\<lambda>w.
       case conn of None \<Rightarrow> iroh_fire_error env js a (Some ''connect failed'') w
       | Some cn \<Rightarrow>
           bnd (if cb_id \<noteq> 0 then iroh_prep_cb a cb_id w else Inr (None, w)) (\<lambda>(cb, w).
           bnd (push_new_connection env a cn w) (\<lambda>(ob, w).
           case cb of
             Some f \<Rightarrow> pcall_cb js ''connect'' f [JObj ob] w
           | None \<Rightarrow> emit env js a ''connect'' (Some (JObj ob)) w)))))"

section \<open>Streams\<close>

text \<open>Both getters of a bidirectional stream, in order.\<close>

definition take_bi :: "hid option \<Rightarrow> rust \<Rightarrow> fault + (rid option \<times> rid option) \<times> rust" where
  "take_bi h r =
     bnd (iroh_stream_open_bi_send_result r h) (\<lambda>(s, r).
     bnd (iroh_stream_open_bi_recv_result r h) (\<lambda>(t, r). Inr ((s, t), r)))"

definition iroh_on_stream_accepted ::
  "'e env_scheme \<Rightarrow> jscode \<Rightarrow> opaddr \<Rightarrow> IrohAsyncState \<Rightarrow> world \<Rightarrow> fault + world" where
  "iroh_on_stream_accepted env js aop state w =
     bnd (get_op w aop) (\<lambda>x. let a = aop_ictx x in
     bnd (if state = Ready then in_rust w (take_bi (aop_handle x)) else Inr ((None, None), w))
       (\<lambda>((s, t), w).
     bnd (if state = Ready then Inr None else iroh_async_get_error (w_rust w) (aop_handle x)) (\<lambda>err.
     bnd (iroh_free_async_op aop w) (\<lambda>w.
     case (s, t) of
       (Some sp, Some rp) \<Rightarrow>
         bnd (push_new_stream a sp rp w) (\<lambda>(ob, w).
         bnd (emit env js a ''stream'' (Some (JObj ob)) w)
           (rearm_loop env a IROH_OP_ACCEPT_BI RPIROH_FLAG_STREAM_ACCEPT conn_p
              (iroh_connection_accept_bi env)))
     | _ \<Rightarrow>
         bnd (in_rust' w (iroh_free KSendStream s)) (\<lambda>w.
         bnd (in_rust' w (iroh_free KRecvStream t)) (\<lambda>w.
         bnd (case err of
                Some m \<Rightarrow> if \<not> strstr m ''closed'' then iroh_fire_error env js a (Some m) w else Inr w
              | None \<Rightarrow> iroh_fire_error env js a (Some ''stream accept failed'') w) (\<lambda>w.
           clr_flags a RPIROH_FLAG_STREAM_ACCEPT w)))))))"

definition iroh_on_bi_opened ::
  "'e env_scheme \<Rightarrow> jscode \<Rightarrow> opaddr \<Rightarrow> IrohAsyncState \<Rightarrow> world \<Rightarrow> fault + world" where
  "iroh_on_bi_opened env js aop state w =
     bnd (get_op w aop) (\<lambda>x. let a = aop_ictx x; cb_id = aop_aux x in
     bnd (if state = Ready then in_rust w (take_bi (aop_handle x)) else Inr ((None, None), w))
       (\<lambda>((s, t), w).
     bnd (if state = Ready then Inr None else iroh_async_get_error (w_rust w) (aop_handle x)) (\<lambda>err.
     bnd (iroh_free_async_op aop w) (\<lambda>w.
     case (s, t) of
       (Some sp, Some rp) \<Rightarrow>
         bnd (iroh_prep_cb a cb_id w) (\<lambda>(cb, w).
         case cb of None \<Rightarrow> Inr w
         | Some f \<Rightarrow>
             bnd (push_new_stream a sp rp w) (\<lambda>(ob, w). pcall_cb js ''openBi'' f [JObj ob] w))
     | _ \<Rightarrow>
         bnd (in_rust' w (iroh_free KSendStream s)) (\<lambda>w.
         bnd (in_rust' w (iroh_free KRecvStream t)) (\<lambda>w.
           iroh_fire_error env js a (Some (or_default err ''openBi failed'')) w))))))"

definition iroh_on_stream_data ::
  "'e env_scheme \<Rightarrow> jscode \<Rightarrow> opaddr \<Rightarrow> IrohAsyncState \<Rightarrow> world \<Rightarrow> fault + world" where
  "iroh_on_stream_data env js aop state w =
     bnd (get_op w aop) (\<lambda>x. let a = aop_ictx x in
     if state \<noteq> Ready then
       bnd (iroh_async_get_error (w_rust w) (aop_handle x)) (\<lambda>err.
       bnd (iroh_free_async_op aop w) (\<lambda>w.
       bnd (case err of
              Some m \<Rightarrow>
                if strstr m ''closed'' \<or> strstr m ''connection lost'' then Inr w
                else iroh_fire_error env js a (Some m) w
            | None \<Rightarrow> iroh_fire_error env js a (Some ''stream read failed'') w) (\<lambda>w.
       bnd (clr_flags a RPIROH_FLAG_READING w) (\<lambda>w.
         iroh_fire_event env js a ''end'' w))))
     else
       bnd (in_rust w (\<lambda>r. iroh_recv_stream_read_result r (aop_handle x))) (\<lambda>(result, w).
       bnd (iroh_free_async_op aop w) (\<lambda>w.
       bnd (case rr_data result of None \<Rightarrow> Inr w
            | Some d \<Rightarrow>
                if rr_len result > 0 then emit env js a ''data'' (Some (JBuf d)) w else Inr w) (\<lambda>w.
       if rr_finished result then
         bnd (clr_flags a RPIROH_FLAG_READING w) (\<lambda>w. iroh_fire_event env js a ''end'' w)
       else
         rearm_loop env a IROH_OP_STREAM_READ RPIROH_FLAG_READING recv_p
           (\<lambda>r p. iroh_recv_stream_read env r p 65536) w))))"

definition iroh_do_finish :: "addr \<Rightarrow> world \<Rightarrow> fault + world" where
  "iroh_do_finish a w =
     bnd (get_ctx w a) (\<lambda>c.
     case send_p c of None \<Rightarrow> Inr w
     | Some s \<Rightarrow>
         if has_flag (flags c) RPIROH_FLAG_FINISHED then Inr w
         else
           bnd (in_rust' w (\<lambda>r. iroh_send_stream_finish r (Some s))) (\<lambda>w.
           bnd (set_flags a RPIROH_FLAG_FINISHED (log (Finish s) w)) (\<lambda>w.
             Inr (put_prop (thisptr c) ''finished'' (JBool True) w))))"

definition iroh_on_stream_written ::
  "'e env_scheme \<Rightarrow> jscode \<Rightarrow> opaddr \<Rightarrow> IrohAsyncState \<Rightarrow> world \<Rightarrow> fault + world" where
  "iroh_on_stream_written env js aop state w =
     bnd (get_op w aop) (\<lambda>x. let a = aop_ictx x in
     bnd (clr_flags a RPIROH_FLAG_WRITING w) (\<lambda>w.
     if state \<noteq> Ready then fail_op env js aop ''stream write failed'' w
     else
       bnd (iroh_free_async_op aop w) (\<lambda>w.
       bnd (iroh_fire_event env js a ''drain'' w) (\<lambda>w.
       bnd (get_ctx w a) (\<lambda>c.
         if has_flag (flags c) RPIROH_FLAG_FINISH_PENDING
         then bnd (clr_flags a RPIROH_FLAG_FINISH_PENDING w) (iroh_do_finish a)
         else Inr w)))))"

definition iroh_on_datagram_received ::
  "'e env_scheme \<Rightarrow> jscode \<Rightarrow> opaddr \<Rightarrow> IrohAsyncState \<Rightarrow> world \<Rightarrow> fault + world" where
  "iroh_on_datagram_received env js aop state w =
     bnd (get_op w aop) (\<lambda>x. let a = aop_ictx x in
     if state \<noteq> Ready then
       bnd (fail_op env js aop ''datagram recv failed'' w) (clr_flags a RPIROH_FLAG_DATAGRAM_RECV)
     else
       bnd (in_rust w (\<lambda>r. iroh_connection_recv_datagram_result r (aop_handle x))) (\<lambda>(d, w).
       bnd (iroh_free_async_op aop w) (\<lambda>w.
       bnd (case d of None \<Rightarrow> Inr w
            | Some d \<Rightarrow> if length d > 0 then emit env js a ''datagram'' (Some (JBuf d)) w else Inr w)
         (rearm_loop env a IROH_OP_RECV_DATAGRAM RPIROH_FLAG_DATAGRAM_RECV conn_p
            (iroh_connection_recv_datagram env)))))"

end
