(* ===== verification/CoreApi.thy ===== *)
theory CoreApi
  imports CoreHandlers
begin

text \<open>
  The JavaScript-callable constructors and methods for endpoints, connections and streams, the
  two convenience functions, and the generic \<open>close\<close>. A method is given \<open>this\<close> and its
  arguments (a missing argument is \<open>JUndefined\<close>) and ends in a value or an exception.
\<close>

section \<open>Shared parts\<close>

text \<open>\<open>GET_ICTX\<close>: the context pointer of \<open>this\<close>, or an exception.\<close>

definition GET_ICTX ::
  "objid \<Rightarrow> string \<Rightarrow> world \<Rightarrow> (addr \<Rightarrow> fault + jsres \<times> world) \<Rightarrow> fault + jsres \<times> world" where
  "GET_ICTX this errmsg w k =
     (case this_ictx w this of None \<Rightarrow> Inr (Throw errmsg, w) | Some a \<Rightarrow> k a)"

text \<open>\<open>if (!ictx->field) RP_THROW(...)\<close>.\<close>

definition ready ::
  "addr \<Rightarrow> (RPIROH \<Rightarrow> rid option) \<Rightarrow> string \<Rightarrow> world \<Rightarrow> (rid \<Rightarrow> fault + jsres \<times> world)
     \<Rightarrow> fault + jsres \<times> world" where
  "ready a sel msg w k =
     bnd (get_ctx w a) (\<lambda>c. case sel c of None \<Rightarrow> Inr (Throw msg, w) | Some x \<Rightarrow> k x)"

text \<open>The optional callback argument: stored if it is a function; 0 is the NULL \<open>aux\<close>.\<close>

definition opt_cb :: "addr \<Rightarrow> jsval \<Rightarrow> world \<Rightarrow> fault + u32 \<times> world" where
  "opt_cb a arg w = (case arg of JFun f \<Rightarrow> iroh_store_cb a f w | _ \<Rightarrow> Inr (0, w))"

text \<open>The common end of the methods: no handle is an exception, else start and return \<open>this\<close>.\<close>

definition start_or_throw ::
  "'e env_scheme \<Rightarrow> objid \<Rightarrow> addr \<Rightarrow> iroh_op_type \<Rightarrow> u32 \<Rightarrow> string \<Rightarrow> hid option \<times> world
     \<Rightarrow> fault + jsres \<times> world" where
  "start_or_throw env this a op aux msg hw =
     (case fst hw of
        None \<Rightarrow> Inr (Throw msg, snd hw)
      | Some _ \<Rightarrow>
          bnd (iroh_start_async env a (fst hw) op aux (snd hw)) (\<lambda>(_, w). Inr (Ret (JObj this), w)))"

section \<open>Endpoint constructor\<close>

text \<open>The options object, one step per recognised property.\<close>

definition str_elems :: "jsval list \<Rightarrow> string list" where
  "str_elems vs = List.map_filter (\<lambda>v. case v of JStr s \<Rightarrow> Some (c_str s) | _ \<Rightarrow> None) vs"

definition array_of :: "world \<Rightarrow> jsval \<Rightarrow> jsval list option" where
  "array_of w v =
     (case v of JObj i \<Rightarrow> (case w_objs w i of None \<Rightarrow> None | Some ob \<Rightarrow> o_array ob) | _ \<Rightarrow> None)"

definition opt_alpn :: "world \<Rightarrow> jsval \<Rightarrow> IrohEndpointConfig \<Rightarrow> IrohEndpointConfig" where
  "opt_alpn w opts cf =
     (case get_prop w opts ''alpn'' of
        None \<Rightarrow> cf
      | Some (JStr s) \<Rightarrow> iroh_endpoint_config_add_alpn cf (c_str s)
      | Some v \<Rightarrow>
          (case array_of w v of None \<Rightarrow> cf
           | Some vs \<Rightarrow> fold (\<lambda>s cf. iroh_endpoint_config_add_alpn cf s) (str_elems vs) cf))"

definition opt_secret_key ::
  "'e env_scheme \<Rightarrow> world \<Rightarrow> jsval \<Rightarrow> IrohEndpointConfig \<Rightarrow> string + IrohEndpointConfig" where
  "opt_secret_key env w opts cf =
     (case get_prop w opts ''secretKey'' of
        Some (JStr s) \<Rightarrow>
          (case env_hex_to_buf env s of
             Inl e \<Rightarrow> Inl e
           | Inr b \<Rightarrow>
               Inr (if length b = 32 then iroh_endpoint_config_secret_key_bytes cf b else cf))
      | Some (JBuf b) \<Rightarrow>
          Inr (if length b = 32 then iroh_endpoint_config_secret_key_bytes cf b else cf)
      | _ \<Rightarrow> Inr cf)"

definition opt_discovery :: "world \<Rightarrow> jsval \<Rightarrow> IrohEndpointConfig \<Rightarrow> IrohEndpointConfig" where
  "opt_discovery w opts cf =
     (case get_prop w opts ''discovery'' of
        None \<Rightarrow> cf
      | Some v \<Rightarrow> cf\<lparr>discovery_n0 := to_boolean v, discovery_dns := to_boolean v,
                   discovery_pkarr_publish := to_boolean v\<rparr>)"

definition opt_relay :: "world \<Rightarrow> jsval \<Rightarrow> IrohEndpointConfig \<Rightarrow> IrohEndpointConfig" where
  "opt_relay w opts cf =
     (case get_prop w opts ''relay'' of
        Some (JStr s) \<Rightarrow> iroh_endpoint_config_relay_url cf (c_str s)
      | Some (JBool False) \<Rightarrow> cf\<lparr>relay_mode := RelayDisabled\<rparr>
      | _ \<Rightarrow> cf)"

definition opt_port ::
  "'e env_scheme \<Rightarrow> world \<Rightarrow> jsval \<Rightarrow> IrohEndpointConfig \<Rightarrow> IrohEndpointConfig" where
  "opt_port env w opts cf =
     (case get_prop w opts ''port'' of
        None \<Rightarrow> cf
      | Some v \<Rightarrow> iroh_endpoint_config_bind_port cf (ucast (env_get_uint env v)))"

definition opt_timeout ::
  "'e env_scheme \<Rightarrow> world \<Rightarrow> jsval \<Rightarrow> IrohEndpointConfig \<Rightarrow> IrohEndpointConfig" where
  "opt_timeout env w opts cf =
     (case get_prop w opts ''timeout'' of
        None \<Rightarrow> cf
      | Some v \<Rightarrow> iroh_endpoint_config_max_idle_timeout cf (env_get_u64 env v))"

definition endpoint_config ::
  "'e env_scheme \<Rightarrow> world \<Rightarrow> jsval \<Rightarrow> string + IrohEndpointConfig" where
  "endpoint_config env w opts =
     (if \<not> is_object opts then Inr iroh_endpoint_config_default
      else case opt_secret_key env w opts (opt_alpn w opts iroh_endpoint_config_default) of
             Inl e \<Rightarrow> Inl e
           | Inr cf \<Rightarrow>
               Inr (opt_timeout env w opts (opt_port env w opts
                      (opt_relay w opts (opt_discovery w opts cf)))))"

definition duk_rp_iroh_endpoint ::
  "'e env_scheme \<Rightarrow> bool \<Rightarrow> objid \<Rightarrow> jsval \<Rightarrow> world \<Rightarrow> fault + jsres \<times> world" where
  "duk_rp_iroh_endpoint env is_constructor_call this opts w =
     (if \<not> is_constructor_call then Inr (Throw ''TypeError'', w)
      else
        let w = put_prop this ''online'' (JBool False)
                  (put_prop this ''closed'' (JBool False) (init_emitter this w));
            key = w_this_id w;
            (a, w) = new_ctx this IROH_OBJ_ENDPOINT None w;
            w = gc_protect this key w in
        case endpoint_config env w opts of
          Inl e \<Rightarrow> Inr (Throw e, w)
        | Inr config \<Rightarrow>
            bnd (in_rust w (\<lambda>r. iroh_endpoint_create env r config)) (\<lambda>(h, w).
            case h of
              None \<Rightarrow>
                Inr (Throw (''iroh.Endpoint: failed to start creation: '' @
                       or_default (iroh_last_error (w_rust w)) ''unknown error''), w)
            | Some _ \<Rightarrow>
                bnd (iroh_start_async env a h IROH_OP_ENDPOINT_CREATE 0 w) (\<lambda>(_, w).
                  Inr (Ret JUndefined, w))))"

text \<open>\<open>duk_new\<close> on the \<open>Endpoint\<close> constructor: a fresh object, then the constructor on it.\<close>

definition new_endpoint ::
  "'e env_scheme \<Rightarrow> jsval \<Rightarrow> world \<Rightarrow> fault + (objid \<times> jsres) \<times> world" where
  "new_endpoint env opts w =
     (let (this, w) = new_obj empty_obj w in
      bnd (duk_rp_iroh_endpoint env True this opts w) (\<lambda>(res, w). Inr ((this, res), w)))"

section \<open>Endpoint methods\<close>

definition duk_rp_iroh_ep_connect ::
  "'e env_scheme \<Rightarrow> objid \<Rightarrow> jsval \<Rightarrow> jsval \<Rightarrow> jsval \<Rightarrow> world \<Rightarrow> fault + jsres \<times> world" where
  "duk_rp_iroh_ep_connect env this a0 a1 a2 w =
     (case require_string a0 of
        None \<Rightarrow> Inr (Throw ''endpoint.connect: first arg must be a string (address)'', w)
      | Some addr_str \<Rightarrow>
     (case require_string a1 of
        None \<Rightarrow> Inr (Throw ''endpoint.connect: second arg must be a string (ALPN)'', w)
      | Some alpn \<Rightarrow>
     GET_ICTX this ''endpoint.connect: endpoint not initialized'' w (\<lambda>a.
     ready a endpoint ''endpoint.connect: endpoint not ready'' w (\<lambda>e.
     case iroh_endpoint_addr_from_string env addr_str (w_rust w) of
       (None, r) \<Rightarrow>
         Inr (Throw (''endpoint.connect: invalid address: '' @
                or_default (iroh_last_error r) ''parse error''), w\<lparr>w_rust := r\<rparr>)
     | (Some ra, r) \<Rightarrow>
         bnd (opt_cb a a2 (w\<lparr>w_rust := r\<rparr>)) (\<lambda>(aux, w).
         bnd (in_rust w (\<lambda>r. iroh_endpoint_connect env r (Some e) (Some ra) alpn)) (\<lambda>(h, w).
         bnd (in_rust' w (tmp_free TEndpointAddr (Some ra))) (\<lambda>w.
           start_or_throw env this a IROH_OP_CONNECT aux
             ''endpoint.connect: failed to start connection'' (h, w))))))))"

definition duk_rp_iroh_ep_close ::
  "'e env_scheme \<Rightarrow> jscode \<Rightarrow> objid \<Rightarrow> world \<Rightarrow> fault + jsres \<times> world" where
  "duk_rp_iroh_ep_close env js this w =
     GET_ICTX this ''endpoint.close: not initialized'' w (\<lambda>a.
     bnd (get_ctx w a) (\<lambda>c.
     if has_flag (flags c) RPIROH_FLAG_CLOSED then Inr (Ret JUndefined, w)
     else
       bnd (set_flags a RPIROH_FLAG_CLOSED w) (\<lambda>w.
       bnd (cancel_ops (rev (pending c)) w) (\<lambda>w.
       bnd (upd_ctx a (\<lambda>c. c\<lparr>npending := 0\<rparr>) w) (\<lambda>w.
       bnd (if endpoint c \<noteq> None then in_rust w (\<lambda>r. iroh_endpoint_close env r (endpoint c))
            else Inr (None, w)) (\<lambda>(h, w).
       if h \<noteq> None then
         bnd (clr_flags a RPIROH_FLAG_CLOSED w) (\<lambda>w.
         bnd (iroh_start_async env a h IROH_OP_ENDPOINT_CLOSE 0 w) (\<lambda>(_, w).
           Inr (Ret JUndefined, w)))
       else iroh_cleanup env js (Some a) True w))))))"

text \<open>
  Printing a short-lived id of the endpoint: \<open>undefined\<close> without an endpoint, the empty string
  for a text with a NUL.
\<close>

definition show_id ::
  "tkind \<Rightarrow> rid option \<Rightarrow> world \<Rightarrow> fault + jsres \<times> world" where
  "show_id k x w =
     (case x of None \<Rightarrow> Inr (Ret JUndefined, w)
      | Some i \<Rightarrow>
          bnd (tmp_to_string k i (w_rust w)) (\<lambda>s.
          bnd (in_rust' w (tmp_free k (Some i))) (\<lambda>w.
            Inr (Ret (JStr (or_default s [])), w))))"

definition duk_rp_iroh_ep_node_id ::
  "'e env_scheme \<Rightarrow> objid \<Rightarrow> world \<Rightarrow> fault + jsres \<times> world" where
  "duk_rp_iroh_ep_node_id env this w =
     GET_ICTX this ''endpoint.nodeId: not initialized'' w (\<lambda>a.
     bnd (get_ctx w a) (\<lambda>c.
     if endpoint c = None then Inr (Ret JUndefined, w)
     else bnd (in_rust w (\<lambda>r. iroh_endpoint_id env r (endpoint c))) (\<lambda>(i, w).
            show_id TPublicKey i w)))"

definition duk_rp_iroh_ep_address ::
  "'e env_scheme \<Rightarrow> objid \<Rightarrow> world \<Rightarrow> fault + jsres \<times> world" where
  "duk_rp_iroh_ep_address env this w =
     GET_ICTX this ''endpoint.address: not initialized'' w (\<lambda>a.
     bnd (get_ctx w a) (\<lambda>c.
     if endpoint c = None then Inr (Ret JUndefined, w)
     else bnd (in_rust w (\<lambda>r. iroh_endpoint_addr env r (endpoint c))) (\<lambda>(i, w).
            show_id TEndpointAddr i w)))"

section \<open>Connection methods\<close>

definition duk_rp_iroh_conn_open_bi ::
  "'e env_scheme \<Rightarrow> objid \<Rightarrow> jsval \<Rightarrow> world \<Rightarrow> fault + jsres \<times> world" where
  "duk_rp_iroh_conn_open_bi env this a0 w =
     (case a0 of
        JFun f \<Rightarrow>
          GET_ICTX this ''connection.openBi: not initialized'' w (\<lambda>a.
          ready a conn_p ''connection.openBi: connection not ready'' w (\<lambda>cn.
          bnd (iroh_store_cb a f w) (\<lambda>(aux, w).
          bnd (in_rust w (\<lambda>r. iroh_connection_open_bi env r (Some cn)))
            (start_or_throw env this a IROH_OP_OPEN_BI aux ''connection.openBi: failed to start''))))
      | _ \<Rightarrow> Inr (Throw ''connection.openBi: first arg must be a function (callback)'', w))"

definition duk_rp_iroh_conn_close ::
  "'e env_scheme \<Rightarrow> jscode \<Rightarrow> objid \<Rightarrow> jsval \<Rightarrow> jsval \<Rightarrow> world \<Rightarrow> fault + jsres \<times> world" where
  "duk_rp_iroh_conn_close env js this a0 a1 w =
     GET_ICTX this ''connection.close: not initialized'' w (\<lambda>a.
     let code = (case a0 of JNum _ \<Rightarrow> env_get_uint env a0 | _ \<Rightarrow> 0);
         reason = (case a1 of JStr s \<Rightarrow> c_str s | _ \<Rightarrow> ''closed'') in
     bnd (get_ctx w a) (\<lambda>c.
     bnd (case conn_p c of None \<Rightarrow> Inr w
          | Some cn \<Rightarrow>
              if has_flag (flags c) RPIROH_FLAG_CLOSED then Inr w
              else in_rust' (log (ConnClose cn code reason) w)
                     (\<lambda>r. iroh_connection_close r (Some cn)))
       (iroh_cleanup env js (Some a) True)))"

definition duk_rp_iroh_conn_send_datagram ::
  "'e env_scheme \<Rightarrow> objid \<Rightarrow> jsval \<Rightarrow> world \<Rightarrow> fault + jsres \<times> world" where
  "duk_rp_iroh_conn_send_datagram env this a0 w =
     GET_ICTX this ''connection.sendDatagram: not initialized'' w (\<lambda>a.
     ready a conn_p ''connection.sendDatagram: not connected'' w (\<lambda>cn.
     case data_arg a0 of
       None \<Rightarrow> Inr (Throw ''connection.sendDatagram: arg must be a string or buffer'', w)
     | Some data \<Rightarrow>
         bnd (in_rust w (\<lambda>r. iroh_connection_send_datagram env r (Some cn) data)) (\<lambda>(err, w).
         if err \<noteq> ErrOk
         then Inr (Throw (''connection.sendDatagram: '' @
                     or_default (iroh_last_error (w_rust w)) ''send failed''), w)
         else Inr (Ret JUndefined, w))))"

section \<open>Stream methods\<close>

definition duk_rp_iroh_stream_write ::
  "'e env_scheme \<Rightarrow> objid \<Rightarrow> jsval \<Rightarrow> world \<Rightarrow> fault + jsres \<times> world" where
  "duk_rp_iroh_stream_write env this a0 w =
     GET_ICTX this ''stream.write: not initialized'' w (\<lambda>a.
     ready a send_p ''stream.write: no send stream'' w (\<lambda>s.
     bnd (get_ctx w a) (\<lambda>c.
     if has_flag (flags c) RPIROH_FLAG_FINISHED
     then Inr (Throw ''stream.write: stream already finished'', w)
     else
       case data_arg a0 of
         None \<Rightarrow> Inr (Throw ''stream.write: arg must be a string or buffer'', w)
       | Some data \<Rightarrow>
           bnd (in_rust w (\<lambda>r. iroh_send_stream_write env r (Some s) data)) (\<lambda>(h, w).
           case h of
             None \<Rightarrow> Inr (Throw ''stream.write: failed to start write'', w)
           | Some _ \<Rightarrow>
               bnd (set_flags a RPIROH_FLAG_WRITING w) (\<lambda>w.
                 start_or_throw env this a IROH_OP_STREAM_WRITE 0 [] (h, w))))))"

definition duk_rp_iroh_stream_finish :: "objid \<Rightarrow> world \<Rightarrow> fault + jsres \<times> world" where
  "duk_rp_iroh_stream_finish this w =
     GET_ICTX this ''stream.finish: not initialized'' w (\<lambda>a.
     bnd (get_ctx w a) (\<lambda>c.
     bnd (if has_flag (flags c) RPIROH_FLAG_WRITING
          then set_flags a RPIROH_FLAG_FINISH_PENDING w
          else iroh_do_finish a w) (\<lambda>w.
       Inr (Ret JUndefined, w))))"

definition duk_rp_iroh_stream_destroy ::
  "'e env_scheme \<Rightarrow> jscode \<Rightarrow> objid \<Rightarrow> world \<Rightarrow> fault + jsres \<times> world" where
  "duk_rp_iroh_stream_destroy env js this w =
     GET_ICTX this ''stream.destroy: not initialized'' w (\<lambda>a. iroh_cleanup env js (Some a) True w)"

section \<open>Convenience functions\<close>

text \<open>
  The argument scan of \<open>createServer\<close>: of the first two arguments, up to the first
  \<open>undefined\<close>, the last function is the listener and the last other object the options.
\<close>

fun server_args ::
  "jsval list \<Rightarrow> jsval option \<times> jsval option \<Rightarrow> jsval option \<times> jsval option" where
  "server_args [] fo = fo"
| "server_args (v # vs) (f, ob) =
     (if v = JUndefined then (f, ob)
      else server_args vs
             (if is_function v then (Some v, ob) else if is_object v then (f, Some v) else (f, ob)))"

definition duk_rp_iroh_create_server ::
  "'e env_scheme \<Rightarrow> jsval list \<Rightarrow> world \<Rightarrow> fault + jsres \<times> world" where
  "duk_rp_iroh_create_server env args w =
     (let (func, opts) = server_args (take 2 args) (None, None);
          (opts, w) = (case opts of
                         Some v \<Rightarrow> (v, w)
                       | None \<Rightarrow> (case new_obj empty_obj w of (i, w) \<Rightarrow> (JObj i, w))) in
      bnd (new_endpoint env opts w) (\<lambda>((ep, res), w).
      case res of
        Throw m \<Rightarrow> Inr (Throw m, w)
      | Ret _ \<Rightarrow>
          (case func of
             None \<Rightarrow> Inr (Ret (JObj ep), w)
           | Some f \<Rightarrow>
               (case iroh_ev_on ''createServer'' ''connection'' f ep w of
                  (Throw m, w) \<Rightarrow> Inr (Throw m, w)
                | (Ret _, w) \<Rightarrow> Inr (Ret (JObj ep), w)))))"

definition duk_rp_iroh_connect_to ::
  "'e env_scheme \<Rightarrow> jsval \<Rightarrow> jsval \<Rightarrow> jsval \<Rightarrow> world \<Rightarrow> fault + jsres \<times> world" where
  "duk_rp_iroh_connect_to env a0 a1 a2 w =
     (case require_string a0 of
        None \<Rightarrow> Inr (Throw ''iroh.connect: first arg must be a string (address)'', w)
      | Some addr_str \<Rightarrow>
     (case require_string a1 of
        None \<Rightarrow> Inr (Throw ''iroh.connect: second arg must be a string (ALPN)'', w)
      | Some alpn \<Rightarrow>
     (case a2 of
        JFun f \<Rightarrow>
          bnd (new_endpoint env JUndefined w) (\<lambda>((ep, res), w).
          case res of
            Throw m \<Rightarrow> Inr (Throw m, w)
          | Ret _ \<Rightarrow>
              (case this_ictx w ep of
                 None \<Rightarrow> Inr (Ret (JObj ep), w)
               | Some a \<Rightarrow>
                   bnd (iroh_store_cb a f w) (\<lambda>(cb_id, w).
                     Inr (Ret (JObj ep),
                          upd_obj ep (\<lambda>ob. ob\<lparr>o_ac_addr := Some addr_str, o_ac_alpn := Some alpn,
                            o_ac_cbid := Some cb_id\<rparr>) w))))
      | _ \<Rightarrow> Inr (Throw ''iroh.connect: third arg must be a function (callback)'', w))))"

section \<open>Generic close\<close>

definition duk_rp_iroh_close ::
  "'e env_scheme \<Rightarrow> jscode \<Rightarrow> objid \<Rightarrow> world \<Rightarrow> fault + jsres \<times> world" where
  "duk_rp_iroh_close env js this w =
     (case this_ictx w this of
        None \<Rightarrow> Inr (Ret JUndefined, w)
      | Some a \<Rightarrow>
          bnd (get_ctx w a) (\<lambda>c.
          if \<not> has_flag (flags c) RPIROH_FLAG_CLOSED then iroh_cleanup env js (Some a) True w
          else Inr (Ret JUndefined, w)))"

end
