(* ===== verification/Gossip.thy ===== *)
theory Gossip
  imports CoreApi
begin

text \<open>
  Gossip: the constructor and the two methods of the JavaScript interface, and the four result
  handlers. The part the constructors of \<open>Gossip\<close>, \<open>Blobs\<close> and \<open>Docs\<close> share comes first.
\<close>

section \<open>Services on top of an endpoint\<close>

text \<open>\<open>ep_ictx\<close> of the first constructor argument, when it is an endpoint that is ready.\<close>

definition ready_endpoint :: "world \<Rightarrow> jsval \<Rightarrow> fault + (addr \<times> rid) option" where
  "ready_endpoint w v =
     (case (case v of JObj i \<Rightarrow> this_ictx w i | _ \<Rightarrow> None) of
        None \<Rightarrow> Inr None
      | Some e \<Rightarrow>
          bnd (get_ctx w e) (\<lambda>c.
            Inr (if obj_type c \<noteq> IROH_OBJ_ENDPOINT then None
                 else map_option (Pair e) (endpoint c))))"

text \<open>The \<open>path\<close> option: a value that is not a string reads as NULL.\<close>

definition opt_path :: "world \<Rightarrow> jsval \<Rightarrow> string option" where
  "opt_path w opts =
     (if is_object opts then Option.bind (get_prop w opts ''path'') require_string else None)"

definition new_service ::
  "'e env_scheme \<Rightarrow> string \<Rightarrow> iroh_obj_type \<Rightarrow> iroh_op_type
     \<Rightarrow> (rid \<Rightarrow> rust \<Rightarrow> fault + hid option \<times> rust) \<Rightarrow> bool \<Rightarrow> objid \<Rightarrow> jsval \<Rightarrow> world
     \<Rightarrow> fault + jsres \<times> world" where
  "new_service env name ty op create is_constructor_call this a0 w =
     (if \<not> is_constructor_call then Inr (Throw ''TypeError'', w)
      else if \<not> is_object a0
      then Inr (Throw (''new '' @ name @ '': first argument must be an Endpoint object''), w)
      else
        bnd (ready_endpoint w a0) (\<lambda>ep.
        case ep of
          None \<Rightarrow> Inr (Throw (''new '' @ name @ '': argument must be a ready Endpoint''), w)
        | Some (ep_ictx, e) \<Rightarrow>
            (let w = put_prop this ''closed'' (JBool False) (init_emitter this w);
                 key = w_this_id w;
                 (a, w) = new_ctx this ty (Some ep_ictx) w;
                 w = upd_obj this (\<lambda>ob. ob\<lparr>o_ep := Some a0\<rparr>) w;
                 w = gc_protect this key w in
             bnd (in_rust w (create e)) (\<lambda>(h, w).
             case h of
               None \<Rightarrow> Inr (Throw (''new '' @ name @ '': failed to start creation''), w)
             | Some _ \<Rightarrow>
                 bnd (iroh_start_async env a h op 0 w) (\<lambda>(_, w). Inr (Ret JUndefined, w))))))"

section \<open>Gossip: constructor and methods\<close>

definition duk_rp_iroh_gossip ::
  "'e env_scheme \<Rightarrow> bool \<Rightarrow> objid \<Rightarrow> jsval \<Rightarrow> world \<Rightarrow> fault + jsres \<times> world" where
  "duk_rp_iroh_gossip env is_constructor_call this a0 w =
     new_service env ''Gossip'' IROH_OBJ_GOSSIP IROH_OP_GOSSIP_CREATE
       (\<lambda>e r. iroh_gossip_create_with_router env r (Some e)) is_constructor_call this a0 w"

text \<open>The peers that parse as public keys; the others are skipped.\<close>

fun parse_peers :: "'e sysenv_scheme \<Rightarrow> string list \<Rightarrow> rust \<Rightarrow> rid list \<times> rust" where
  "parse_peers env [] r = ([], r)"
| "parse_peers env (s # ss) r =
     (case tmp_from_string env TPublicKey s r of
        (None, r) \<Rightarrow> parse_peers env ss r
      | (Some x, r) \<Rightarrow> (case parse_peers env ss r of (xs, r) \<Rightarrow> (x # xs, r)))"

fun free_tmps :: "tkind \<Rightarrow> rid list \<Rightarrow> rust \<Rightarrow> fault + rust" where
  "free_tmps k [] r = Inr r"
| "free_tmps k (x # xs) r = bnd (tmp_free k (Some x) r) (free_tmps k xs)"

definition new_topic :: "addr \<Rightarrow> world \<Rightarrow> (objid \<times> addr) \<times> world" where
  "new_topic par w =
     (let (this, w) = new_obj empty_obj w;
          w = put_prop this ''closed'' (JBool False) (init_emitter this w);
          key = w_this_id w;
          (a, w) = new_ctx this IROH_OBJ_GOSSIP_TOPIC (Some par) w in
      ((this, a), gc_protect this key w))"

definition duk_rp_iroh_gossip_subscribe ::
  "'e env_scheme \<Rightarrow> objid \<Rightarrow> jsval \<Rightarrow> jsval \<Rightarrow> world \<Rightarrow> fault + jsres \<times> world" where
  "duk_rp_iroh_gossip_subscribe env this a0 a1 w =
     GET_ICTX this ''gossip.subscribe: not initialized'' w (\<lambda>a.
     ready a gossip_p ''gossip.subscribe: gossip not ready'' w (\<lambda>g.
     case require_string a0 of
       None \<Rightarrow> Inr (Throw ''gossip.subscribe: first arg must be a string (topic name)'', w)
     | Some name \<Rightarrow>
         (case iroh_topic_id_from_name env name (w_rust w) of
            (None, r) \<Rightarrow> Inr (Throw ''gossip.subscribe: invalid topic name'', w\<lparr>w_rust := r\<rparr>)
          | (Some t, r) \<Rightarrow>
              (let (peers, r) = (case array_of w a1 of None \<Rightarrow> ([], r)
                                 | Some vs \<Rightarrow> parse_peers env (str_elems vs) r);
                   ((topic, ta), w) = new_topic a (w\<lparr>w_rust := r\<rparr>) in
               bnd (in_rust w (\<lambda>r. iroh_gossip_subscribe env r (Some g) (Some t) peers)) (\<lambda>(h, w).
               bnd (in_rust' w (tmp_free TTopicId (Some t))) (\<lambda>w.
               bnd (in_rust' w (free_tmps TPublicKey peers)) (\<lambda>w.
                 start_or_throw env topic ta IROH_OP_GOSSIP_SUBSCRIBE 0
                   ''gossip.subscribe: failed to start'' (h, w))))))))"

definition duk_rp_iroh_topic_broadcast ::
  "'e env_scheme \<Rightarrow> objid \<Rightarrow> jsval \<Rightarrow> world \<Rightarrow> fault + jsres \<times> world" where
  "duk_rp_iroh_topic_broadcast env this a0 w =
     GET_ICTX this ''topic.broadcast: not initialized'' w (\<lambda>a.
     ready a topic_handle ''topic.broadcast: topic not ready'' w (\<lambda>t.
     case data_arg a0 of
       None \<Rightarrow> Inr (Throw ''topic.broadcast: arg must be a string or buffer'', w)
     | Some data \<Rightarrow>
         bnd (in_rust w (\<lambda>r. iroh_gossip_broadcast env r (Some t) data))
           (start_or_throw env this a IROH_OP_GOSSIP_BROADCAST 0 ''topic.broadcast: failed'')))"

section \<open>Result handlers\<close>

definition iroh_on_gossip_created ::
  "'e env_scheme \<Rightarrow> jscode \<Rightarrow> opaddr \<Rightarrow> IrohAsyncState \<Rightarrow> world \<Rightarrow> fault + world" where
  "iroh_on_gossip_created env js aop state w =
     bnd (get_op w aop) (\<lambda>x. let a = aop_ictx x in
     if state \<noteq> Ready then fail_op env js aop ''gossip creation failed'' w
     else
       bnd (in_rust w (\<lambda>r. iroh_gossip_from_router_result r (aop_handle x))) (\<lambda>(g, w).
       bnd (upd_ctx a (\<lambda>c. c\<lparr>gossip_p := g\<rparr>) w) (\<lambda>w.
       bnd (in_rust w (\<lambda>r. iroh_router_from_gossip_result r (aop_handle x))) (\<lambda>(ro, w).
       bnd (upd_ctx a (\<lambda>c. c\<lparr>router := ro\<rparr>) w) (\<lambda>w.
       bnd (iroh_free_async_op aop w) (\<lambda>w.
       if g = None then iroh_fire_error env js a (Some ''Failed to get gossip result'') w
       else iroh_fire_event env js a ''ready'' w))))))"

definition iroh_on_gossip_subscribed ::
  "'e env_scheme \<Rightarrow> jscode \<Rightarrow> opaddr \<Rightarrow> IrohAsyncState \<Rightarrow> world \<Rightarrow> fault + world" where
  "iroh_on_gossip_subscribed env js aop state w =
     bnd (get_op w aop) (\<lambda>x. let a = aop_ictx x in
     if state \<noteq> Ready then fail_op env js aop ''gossip subscribe failed'' w
     else
       bnd (in_rust w (\<lambda>r. iroh_gossip_subscribe_result r (aop_handle x))) (\<lambda>(t, w).
       bnd (upd_ctx a (\<lambda>c. c\<lparr>topic_handle := t\<rparr>) w) (\<lambda>w.
       bnd (iroh_free_async_op aop w) (\<lambda>w.
       if t = None then iroh_fire_error env js a (Some ''Failed to get topic result'') w
       else
         bnd (iroh_start_gossip_recv_loop env a w) (\<lambda>w.
           iroh_fire_event env js a ''ready'' w)))))"

definition iroh_on_gossip_broadcast ::
  "'e env_scheme \<Rightarrow> jscode \<Rightarrow> opaddr \<Rightarrow> IrohAsyncState \<Rightarrow> world \<Rightarrow> fault + world" where
  "iroh_on_gossip_broadcast env js aop state w =
     (if state \<noteq> Ready then fail_op env js aop ''broadcast failed'' w
      else iroh_free_async_op aop w)"

text \<open>The name of the peer an event is about; the empty string without one.\<close>

definition peer_text :: "rid option \<Rightarrow> rust \<Rightarrow> fault + string" where
  "peer_text p r =
     (case p of None \<Rightarrow> Inr []
      | Some i \<Rightarrow> bnd (tmp_to_string TPublicKey i r) (\<lambda>s. Inr (or_default s [])))"

text \<open>The object passed to \<open>message\<close> listeners.\<close>

definition message_props :: "IrohGossipEvent \<Rightarrow> string \<Rightarrow> (string \<times> jsval) list" where
  "message_props ev sender =
     (case ge_data ev of None \<Rightarrow> []
      | Some d \<Rightarrow> if length d > 0 then [(''data'', JBuf d)] else []) @
     (case ge_peer ev of None \<Rightarrow> [] | Some _ \<Rightarrow> [(''sender'', JStr sender)])"

definition gossip_deliver ::
  "'e env_scheme \<Rightarrow> jscode \<Rightarrow> addr \<Rightarrow> IrohGossipEvent \<Rightarrow> world \<Rightarrow> fault + world" where
  "gossip_deliver env js a ev w =
     (case ge_type ev of
        Received \<Rightarrow>
          bnd (peer_text (ge_peer ev) (w_rust w)) (\<lambda>sender.
            let (ob, w) = new_obj (empty_obj\<lparr>o_props := message_props ev sender\<rparr>) w in
            emit env js a ''message'' (Some (JObj ob)) w)
      | NeighborUp \<Rightarrow>
          bnd (peer_text (ge_peer ev) (w_rust w)) (\<lambda>s.
            emit env js a ''peerJoin'' (Some (JStr s)) w)
      | NeighborDown \<Rightarrow>
          bnd (peer_text (ge_peer ev) (w_rust w)) (\<lambda>s.
            emit env js a ''peerLeave'' (Some (JStr s)) w)
      | _ \<Rightarrow> Inr w)"

definition iroh_on_gossip_recv ::
  "'e env_scheme \<Rightarrow> jscode \<Rightarrow> opaddr \<Rightarrow> IrohAsyncState \<Rightarrow> world \<Rightarrow> fault + world" where
  "iroh_on_gossip_recv env js aop state w =
     bnd (get_op w aop) (\<lambda>x. let a = aop_ictx x in
     if state \<noteq> Ready then
       bnd (iroh_async_get_error (w_rust w) (aop_handle x)) (\<lambda>err.
       bnd (iroh_free_async_op aop w) (\<lambda>w.
       bnd (case err of
              Some m \<Rightarrow>
                if strstr m ''closed'' \<or> strstr m ''connection lost'' then Inr w
                else iroh_fire_error env js a (Some m) w
            | None \<Rightarrow> iroh_fire_error env js a (Some ''gossip recv failed'') w)
         (clr_flags a RPIROH_FLAG_READING)))
     else
       bnd (in_rust w (\<lambda>r. iroh_gossip_recv_result r (aop_handle x))) (\<lambda>(ev, w).
       bnd (iroh_free_async_op aop w) (\<lambda>w.
       bnd (gossip_deliver env js a ev w) (\<lambda>w.
       bnd (in_rust' w (iroh_gossip_event_free ev))
         (rearm_loop env a IROH_OP_GOSSIP_RECV RPIROH_FLAG_READING topic_handle
            (iroh_gossip_recv env))))))"

end
