(* ===== verification/Blobs.thy ===== *)
theory Blobs
  imports Gossip
begin

text \<open>
  Blobs: the constructor and the five methods of the JavaScript interface, and the four result
  handlers. The one-shot callback step most of these handlers end in comes first.
\<close>

section \<open>One-shot results\<close>

text \<open>
  \<open>if (iroh_prep_cb(...)) \<dots> duk_pcall_method(...)\<close>: without a callback the result is dropped.
\<close>

definition oneshot ::
  "jscode \<Rightarrow> addr \<Rightarrow> u32 \<Rightarrow> string \<Rightarrow> jsval list \<Rightarrow> world \<Rightarrow> fault + world" where
  "oneshot js a cb_id what args w =
     bnd (iroh_prep_cb a cb_id w) (\<lambda>(cb, w).
       case cb of None \<Rightarrow> Inr w | Some f \<Rightarrow> pcall_cb js what f args w)"

text \<open>A byte result is passed as a buffer, an empty or missing one as \<open>null\<close>.\<close>

definition bytes_val :: "bytes option \<Rightarrow> jsval" where
  "bytes_val d =
     (case d of None \<Rightarrow> JNull | Some b \<Rightarrow> if length b > 0 then JBuf b else JNull)"

text \<open>An id result is passed as its text, a missing one as \<open>null\<close>; then it is released.\<close>

definition id_val :: "tkind \<Rightarrow> rid option \<Rightarrow> rust \<Rightarrow> fault + jsval" where
  "id_val k x r =
     (case x of None \<Rightarrow> Inr JNull
      | Some i \<Rightarrow> bnd (tmp_to_string k i r) (\<lambda>s. Inr (JStr (or_default s []))))"

section \<open>Constructor and methods\<close>

definition duk_rp_iroh_blobs ::
  "'e env_scheme \<Rightarrow> bool \<Rightarrow> objid \<Rightarrow> jsval \<Rightarrow> jsval \<Rightarrow> world \<Rightarrow> fault + jsres \<times> world" where
  "duk_rp_iroh_blobs env is_constructor_call this a0 a1 w =
     new_service env ''Blobs'' IROH_OBJ_BLOBS IROH_OP_BLOBS_CREATE
       (\<lambda>e r. case opt_path w a1 of
          Some path \<Rightarrow> iroh_blobs_create_with_router_persistent env r (Some e) path
        | None \<Rightarrow> iroh_blobs_create_with_router env r (Some e))
       is_constructor_call this a0 w"

definition duk_rp_iroh_blobs_add_bytes ::
  "'e env_scheme \<Rightarrow> objid \<Rightarrow> jsval \<Rightarrow> jsval \<Rightarrow> world \<Rightarrow> fault + jsres \<times> world" where
  "duk_rp_iroh_blobs_add_bytes env this a0 a1 w =
     GET_ICTX this ''blobs.addBytes: not initialized'' w (\<lambda>a.
     ready a blob_store ''blobs.addBytes: blobs not ready'' w (\<lambda>s.
     case data_arg a0 of
       None \<Rightarrow> Inr (Throw ''blobs.addBytes: first arg must be a string or buffer'', w)
     | Some data \<Rightarrow>
         bnd (opt_cb a a1 w) (\<lambda>(aux, w).
         bnd (in_rust w (\<lambda>r. iroh_blobs_add_bytes env r (Some s) data))
           (start_or_throw env this a IROH_OP_BLOBS_ADD_BYTES aux ''blobs.addBytes: failed''))))"

definition duk_rp_iroh_blobs_add_file ::
  "'e env_scheme \<Rightarrow> objid \<Rightarrow> jsval \<Rightarrow> jsval \<Rightarrow> world \<Rightarrow> fault + jsres \<times> world" where
  "duk_rp_iroh_blobs_add_file env this a0 a1 w =
     GET_ICTX this ''blobs.addFile: not initialized'' w (\<lambda>a.
     ready a blob_store ''blobs.addFile: blobs not ready'' w (\<lambda>s.
     case require_string a0 of
       None \<Rightarrow> Inr (Throw ''blobs.addFile: first arg must be a string (path)'', w)
     | Some path \<Rightarrow>
         bnd (opt_cb a a1 w) (\<lambda>(aux, w).
         bnd (in_rust w (\<lambda>r. iroh_blobs_add_file env r (Some s) path))
           (start_or_throw env this a IROH_OP_BLOBS_ADD_FILE aux ''blobs.addFile: failed''))))"

definition duk_rp_iroh_blobs_read ::
  "'e env_scheme \<Rightarrow> objid \<Rightarrow> jsval \<Rightarrow> jsval \<Rightarrow> world \<Rightarrow> fault + jsres \<times> world" where
  "duk_rp_iroh_blobs_read env this a0 a1 w =
     GET_ICTX this ''blobs.read: not initialized'' w (\<lambda>a.
     ready a blob_store ''blobs.read: blobs not ready'' w (\<lambda>s.
     case require_string a0 of
       None \<Rightarrow> Inr (Throw ''blobs.read: first arg must be a string (hash)'', w)
     | Some hash_str \<Rightarrow>
         (case tmp_from_string env TBlobHash hash_str (w_rust w) of
            (None, r) \<Rightarrow> Inr (Throw ''blobs.read: invalid hash'', w\<lparr>w_rust := r\<rparr>)
          | (Some x, r) \<Rightarrow>
              bnd (opt_cb a a1 (w\<lparr>w_rust := r\<rparr>)) (\<lambda>(aux, w).
              bnd (in_rust w (\<lambda>r. iroh_blobs_read env r (Some s) (Some x))) (\<lambda>(h, w).
              bnd (in_rust' w (tmp_free TBlobHash (Some x))) (\<lambda>w.
                start_or_throw env this a IROH_OP_BLOBS_READ aux ''blobs.read: failed'' (h, w)))))))"

text \<open>\<open>ep_ictx = ictx->parent\<close> and its endpoint; \<open>None\<close> when either is NULL.\<close>

definition parent_endpoint :: "addr \<Rightarrow> world \<Rightarrow> fault + rid option" where
  "parent_endpoint a w =
     bnd (get_ctx w a) (\<lambda>c.
       case parent c of None \<Rightarrow> Inr None
       | Some p \<Rightarrow> bnd (get_ctx w p) (\<lambda>pc. Inr (endpoint pc)))"

definition duk_rp_iroh_blobs_download ::
  "'e env_scheme \<Rightarrow> objid \<Rightarrow> jsval \<Rightarrow> jsval \<Rightarrow> world \<Rightarrow> fault + jsres \<times> world" where
  "duk_rp_iroh_blobs_download env this a0 a1 w =
     GET_ICTX this ''blobs.download: not initialized'' w (\<lambda>a.
     ready a blobs_proto ''blobs.download: blobs not ready'' w (\<lambda>b.
     case require_string a0 of
       None \<Rightarrow> Inr (Throw ''blobs.download: first arg must be a string (ticket)'', w)
     | Some ticket_str \<Rightarrow>
         (case tmp_from_string env TBlobTicket ticket_str (w_rust w) of
            (None, r) \<Rightarrow> Inr (Throw ''blobs.download: invalid ticket'', w\<lparr>w_rust := r\<rparr>)
          | (Some t, r) \<Rightarrow>
              (let w = w\<lparr>w_rust := r\<rparr> in
               bnd (parent_endpoint a w) (\<lambda>ep.
               if ep = None then
                 bnd (in_rust' w (tmp_free TBlobTicket (Some t))) (\<lambda>w.
                   Inr (Throw ''blobs.download: endpoint not available'', w))
               else
                 bnd (opt_cb a a1 w) (\<lambda>(aux, w).
                 bnd (in_rust w (\<lambda>r. iroh_blobs_download env r (Some b) ep (Some t))) (\<lambda>(h, w).
                 bnd (in_rust' w (tmp_free TBlobTicket (Some t))) (\<lambda>w.
                   start_or_throw env this a IROH_OP_BLOBS_DOWNLOAD aux
                     ''blobs.download: failed'' (h, w)))))))))"

definition duk_rp_iroh_blobs_ticket ::
  "'e env_scheme \<Rightarrow> objid \<Rightarrow> jsval \<Rightarrow> world \<Rightarrow> fault + jsres \<times> world" where
  "duk_rp_iroh_blobs_ticket env this a0 w =
     GET_ICTX this ''blobs.createTicket: not initialized'' w (\<lambda>a.
     case require_string a0 of
       None \<Rightarrow> Inr (Throw ''blobs.createTicket: first arg must be a string (hash)'', w)
     | Some hash_str \<Rightarrow>
         (case tmp_from_string env TBlobHash hash_str (w_rust w) of
            (None, r) \<Rightarrow> Inr (Throw ''blobs.createTicket: invalid hash'', w\<lparr>w_rust := r\<rparr>)
          | (Some x, r) \<Rightarrow>
              (let w = w\<lparr>w_rust := r\<rparr> in
               bnd (parent_endpoint a w) (\<lambda>ep.
               if ep = None then
                 bnd (in_rust' w (tmp_free TBlobHash (Some x))) (\<lambda>w.
                   Inr (Throw ''blobs.createTicket: endpoint not available'', w))
               else
                 bnd (in_rust w (\<lambda>r. iroh_blobs_create_ticket env r ep (Some x))) (\<lambda>(t, w).
                 bnd (in_rust' w (tmp_free TBlobHash (Some x))) (\<lambda>w.
                   if t = None then Inr (Ret JNull, w) else show_id TBlobTicket t w))))))"

section \<open>Result handlers\<close>

definition iroh_on_blobs_created ::
  "'e env_scheme \<Rightarrow> jscode \<Rightarrow> opaddr \<Rightarrow> IrohAsyncState \<Rightarrow> world \<Rightarrow> fault + world" where
  "iroh_on_blobs_created env js aop state w =
     bnd (get_op w aop) (\<lambda>x. let a = aop_ictx x in
     if state \<noteq> Ready then fail_op env js aop ''blobs creation failed'' w
     else
       bnd (in_rust w (\<lambda>r. iroh_blobs_store_from_router_result r (aop_handle x))) (\<lambda>(s, w).
       bnd (upd_ctx a (\<lambda>c. c\<lparr>blob_store := s\<rparr>) w) (\<lambda>w.
       bnd (in_rust w (\<lambda>r. iroh_blobs_protocol_from_router_result r (aop_handle x))) (\<lambda>(p, w).
       bnd (upd_ctx a (\<lambda>c. c\<lparr>blobs_proto := p\<rparr>) w) (\<lambda>w.
       bnd (in_rust w (\<lambda>r. iroh_router_from_blobs_result r (aop_handle x))) (\<lambda>(ro, w).
       bnd (upd_ctx a (\<lambda>c. c\<lparr>router := ro\<rparr>) w) (\<lambda>w.
       bnd (iroh_free_async_op aop w) (\<lambda>w.
       if s = None then iroh_fire_error env js a (Some ''Failed to get blobs result'') w
       else iroh_fire_event env js a ''ready'' w))))))))"

text \<open>The object passed to the \<open>addBytes\<close> and \<open>addFile\<close> callbacks.\<close>

definition str_or_null :: "string option \<Rightarrow> jsval" where
  "str_or_null s = (case s of None \<Rightarrow> JNull | Some t \<Rightarrow> JStr t)"

definition added_props ::
  "'e env_scheme \<Rightarrow> addr \<Rightarrow> rid \<Rightarrow> world \<Rightarrow> fault + (string \<times> jsval) list \<times> world" where
  "added_props env a hash w =
     bnd (tmp_to_string TBlobHash hash (w_rust w)) (\<lambda>hs.
     bnd (parent_endpoint a w) (\<lambda>ep.
     case ep of
       None \<Rightarrow> Inr ([(''hash'', str_or_null hs)], w)
     | Some _ \<Rightarrow>
         bnd (in_rust w (\<lambda>r. iroh_blobs_create_ticket env r ep (Some hash))) (\<lambda>(t, w).
         case t of
           None \<Rightarrow> Inr ([(''hash'', str_or_null hs)], w)
         | Some ti \<Rightarrow>
             bnd (tmp_to_string TBlobTicket ti (w_rust w)) (\<lambda>ts.
             bnd (in_rust' w (tmp_free TBlobTicket t)) (\<lambda>w.
               Inr ([(''hash'', str_or_null hs), (''ticket'', str_or_null ts)], w))))))"

definition iroh_on_blobs_added ::
  "'e env_scheme \<Rightarrow> jscode \<Rightarrow> opaddr \<Rightarrow> IrohAsyncState \<Rightarrow> world \<Rightarrow> fault + world" where
  "iroh_on_blobs_added env js aop state w =
     bnd (get_op w aop) (\<lambda>x. let a = aop_ictx x; cb_id = aop_aux x in
     if state \<noteq> Ready then fail_op env js aop ''blob add failed'' w
     else
       bnd (in_rust w (\<lambda>r. iroh_blobs_add_result r (aop_handle x))) (\<lambda>(hash, w).
       bnd (iroh_free_async_op aop w) (\<lambda>w.
       case hash of
         None \<Rightarrow> Inr w
       | Some x \<Rightarrow>
           bnd (iroh_prep_cb a cb_id w) (\<lambda>(cb, w).
           bnd (case cb of
                  None \<Rightarrow> Inr w
                | Some f \<Rightarrow>
                    bnd (added_props env a x w) (\<lambda>(ps, w).
                    let (ob, w) = new_obj (empty_obj\<lparr>o_props := ps\<rparr>) w in
                    pcall_cb js ''addBytes'' f [JObj ob] w)) (\<lambda>w.
             in_rust' w (tmp_free TBlobHash hash))))))"

definition iroh_on_blobs_read ::
  "'e env_scheme \<Rightarrow> jscode \<Rightarrow> opaddr \<Rightarrow> IrohAsyncState \<Rightarrow> world \<Rightarrow> fault + world" where
  "iroh_on_blobs_read env js aop state w =
     bnd (get_op w aop) (\<lambda>x. let a = aop_ictx x; cb_id = aop_aux x in
     if state \<noteq> Ready then fail_op env js aop ''blob read failed'' w
     else
       bnd (in_rust w (\<lambda>r. iroh_blobs_read_result r (aop_handle x))) (\<lambda>(d, w).
       bnd (iroh_free_async_op aop w) (oneshot js a cb_id ''blobs.read'' [bytes_val d])))"

definition iroh_on_blobs_downloaded ::
  "'e env_scheme \<Rightarrow> jscode \<Rightarrow> opaddr \<Rightarrow> IrohAsyncState \<Rightarrow> world \<Rightarrow> fault + world" where
  "iroh_on_blobs_downloaded env js aop state w =
     bnd (get_op w aop) (\<lambda>x. let a = aop_ictx x; cb_id = aop_aux x in
     if state \<noteq> Ready then fail_op env js aop ''blob download failed'' w
     else
       bnd (in_rust w (\<lambda>r. iroh_blobs_download_result r (aop_handle x))) (\<lambda>(hash, w).
       bnd (iroh_free_async_op aop w) (\<lambda>w.
       bnd (id_val TBlobHash hash (w_rust w)) (\<lambda>v.
       bnd (oneshot js a cb_id ''download'' [v] w) (\<lambda>w.
         in_rust' w (tmp_free TBlobHash hash))))))"

end
