(* ===== verification/Docs.thy ===== *)
theory Docs
  imports Blobs
begin

text \<open>
  Docs: the constructor and the nine methods of the JavaScript interface, and the result
  handlers. Every method follows one pattern: check the arguments, parse the ids into
  short-lived objects, store the optional callback, start the operation, release the ids.
\<close>

section \<open>Constructor and methods\<close>

definition duk_rp_iroh_docs ::
  "'e env_scheme \<Rightarrow> bool \<Rightarrow> objid \<Rightarrow> jsval \<Rightarrow> jsval \<Rightarrow> world \<Rightarrow> fault + jsres \<times> world" where
  "duk_rp_iroh_docs env is_constructor_call this a0 a1 w =
     new_service env ''Docs'' IROH_OBJ_DOCS IROH_OP_DOCS_CREATE
       (\<lambda>e r. case opt_path w a1 of
          Some path \<Rightarrow> iroh_docs_create_with_router_persistent env r (Some e) path
        | None \<Rightarrow> iroh_docs_create_with_router env r (Some e))
       is_constructor_call this a0 w"

definition duk_rp_iroh_docs_create_author ::
  "'e env_scheme \<Rightarrow> objid \<Rightarrow> jsval \<Rightarrow> world \<Rightarrow> fault + jsres \<times> world" where
  "duk_rp_iroh_docs_create_author env this a0 w =
     GET_ICTX this ''docs.createAuthor: not initialized'' w (\<lambda>a.
     ready a docs_p ''docs.createAuthor: docs not ready'' w (\<lambda>d.
     bnd (opt_cb a a0 w) (\<lambda>(aux, w).
     bnd (in_rust w (\<lambda>r. iroh_docs_create_author env r (Some d)))
       (start_or_throw env this a IROH_OP_DOCS_CREATE_AUTHOR aux ''docs.createAuthor: failed''))))"

definition duk_rp_iroh_docs_create_doc ::
  "'e env_scheme \<Rightarrow> objid \<Rightarrow> jsval \<Rightarrow> world \<Rightarrow> fault + jsres \<times> world" where
  "duk_rp_iroh_docs_create_doc env this a0 w =
     GET_ICTX this ''docs.createDoc: not initialized'' w (\<lambda>a.
     ready a docs_p ''docs.createDoc: docs not ready'' w (\<lambda>d.
     bnd (opt_cb a a0 w) (\<lambda>(aux, w).
     bnd (in_rust w (\<lambda>r. iroh_docs_create_doc env r (Some d)))
       (start_or_throw env this a IROH_OP_DOCS_CREATE_DOC aux ''docs.createDoc: failed''))))"

text \<open>
  Parsing the ids of a call. The second parse failing releases the first id before it throws.
\<close>

definition with_ns ::
  "'e env_scheme \<Rightarrow> string \<Rightarrow> string \<Rightarrow> world \<Rightarrow> (rid \<Rightarrow> world \<Rightarrow> fault + jsres \<times> world)
     \<Rightarrow> fault + jsres \<times> world" where
  "with_ns env name ns_str w k =
     (case tmp_from_string env TNamespaceId ns_str (w_rust w) of
        (None, r) \<Rightarrow> Inr (Throw (name @ '': invalid namespace ID''), w\<lparr>w_rust := r\<rparr>)
      | (Some ns, r) \<Rightarrow> k ns (w\<lparr>w_rust := r\<rparr>))"

definition with_ns_author ::
  "'e env_scheme \<Rightarrow> string \<Rightarrow> string \<Rightarrow> string \<Rightarrow> world
     \<Rightarrow> (rid \<Rightarrow> rid \<Rightarrow> world \<Rightarrow> fault + jsres \<times> world) \<Rightarrow> fault + jsres \<times> world" where
  "with_ns_author env name ns_str author_str w k =
     with_ns env name ns_str w (\<lambda>ns w.
     case tmp_from_string env TAuthorId author_str (w_rust w) of
       (None, r) \<Rightarrow>
         bnd (in_rust' (w\<lparr>w_rust := r\<rparr>) (tmp_free TNamespaceId (Some ns))) (\<lambda>w.
           Inr (Throw (name @ '': invalid author ID''), w))
     | (Some au, r) \<Rightarrow> k ns au (w\<lparr>w_rust := r\<rparr>))"

definition free_ns_author :: "rid \<Rightarrow> rid \<Rightarrow> world \<Rightarrow> fault + world" where
  "free_ns_author ns au w =
     bnd (in_rust' w (tmp_free TNamespaceId (Some ns))) (\<lambda>w.
       in_rust' w (tmp_free TAuthorId (Some au)))"

text \<open>
  The entries of the object form of \<open>set\<close>, in the order of enumeration: the value of each key
  must be a string or a buffer.
\<close>

fun set_entries :: "world \<Rightarrow> jsval \<Rightarrow> string list \<Rightarrow> (string \<times> bytes) list option" where
  "set_entries w v [] = Some []"
| "set_entries w v (k # ks) =
     (case Option.bind (get_prop w v k) data_arg of
        None \<Rightarrow> None
      | Some d \<Rightarrow> map_option (Cons (c_str k, d)) (set_entries w v ks))"

definition own_keys :: "world \<Rightarrow> jsval \<Rightarrow> string list" where
  "own_keys w v =
     (case v of JObj i \<Rightarrow> (case w_objs w i of None \<Rightarrow> [] | Some ob \<Rightarrow> map fst (o_props ob)) | _ \<Rightarrow> [])"

text \<open>The common end of both forms of \<open>set\<close>, of \<open>get\<close> and of \<open>delete\<close>.\<close>

definition ns_author_call ::
  "'e env_scheme \<Rightarrow> string \<Rightarrow> iroh_op_type \<Rightarrow> objid \<Rightarrow> addr \<Rightarrow> jsval \<Rightarrow> rid \<Rightarrow> rid
     \<Rightarrow> (rust \<Rightarrow> fault + hid option \<times> rust) \<Rightarrow> world \<Rightarrow> fault + jsres \<times> world" where
  "ns_author_call env name op this a cb ns au start w =
     bnd (opt_cb a cb w) (\<lambda>(aux, w).
     bnd (in_rust w start) (\<lambda>(h, w).
     bnd (free_ns_author ns au w) (\<lambda>w.
       start_or_throw env this a op aux (name @ '': failed'') (h, w))))"

definition duk_rp_iroh_docs_set ::
  "'e env_scheme \<Rightarrow> objid \<Rightarrow> jsval \<Rightarrow> jsval \<Rightarrow> jsval \<Rightarrow> jsval \<Rightarrow> jsval \<Rightarrow> world
     \<Rightarrow> fault + jsres \<times> world" where
  "duk_rp_iroh_docs_set env this a0 a1 a2 a3 a4 w =
     GET_ICTX this ''docs.set: not initialized'' w (\<lambda>a.
     ready a docs_p ''docs.set: docs not ready'' w (\<lambda>d.
     case require_string a0 of
       None \<Rightarrow> Inr (Throw ''docs.set: arg 1 must be namespace ID string'', w)
     | Some ns_str \<Rightarrow>
     (case require_string a1 of
       None \<Rightarrow> Inr (Throw ''docs.set: arg 2 must be author ID string'', w)
     | Some author_str \<Rightarrow>
     with_ns_author env ''docs.set'' ns_str author_str w (\<lambda>ns au w.
     if env_is_plain_object env w a2 then
       (case set_entries w a2 (env_enum_str env (own_keys w a2)) of
          None \<Rightarrow>
            bnd (free_ns_author ns au w) (\<lambda>w.
              Inr (Throw ''docs.set: object values must be strings or buffers'', w))
        | Some [] \<Rightarrow>
            bnd (free_ns_author ns au w) (\<lambda>w.
              Inr (Throw ''docs.set: object must have at least one property'', w))
        | Some entries \<Rightarrow>
            ns_author_call env ''docs.set'' IROH_OP_DOCS_SET this a a3 ns au
              (\<lambda>r. iroh_docs_set_multi env r (Some d) (Some ns) (Some au) entries) w)
     else
       (case require_string a2 of
          None \<Rightarrow>
            bnd (free_ns_author ns au w) (\<lambda>w.
              Inr (Throw ''docs.set: arg 3 must be a key string or an object of key-value pairs'', w))
        | Some key \<Rightarrow>
            (case data_arg a3 of
               None \<Rightarrow>
                 bnd (free_ns_author ns au w) (\<lambda>w.
                   Inr (Throw ''docs.set: arg 4 must be a string or buffer (value)'', w))
             | Some value \<Rightarrow>
                 ns_author_call env ''docs.set'' IROH_OP_DOCS_SET this a a4 ns au
                   (\<lambda>r. iroh_docs_set env r (Some d) (Some ns) (Some au) key value) w))))))"

definition duk_rp_iroh_docs_get ::
  "'e env_scheme \<Rightarrow> objid \<Rightarrow> jsval \<Rightarrow> jsval \<Rightarrow> jsval \<Rightarrow> jsval \<Rightarrow> world
     \<Rightarrow> fault + jsres \<times> world" where
  "duk_rp_iroh_docs_get env this a0 a1 a2 a3 w =
     GET_ICTX this ''docs.get: not initialized'' w (\<lambda>a.
     ready a docs_p ''docs.get: docs not ready'' w (\<lambda>d.
     case require_string a0 of
       None \<Rightarrow> Inr (Throw ''docs.get: arg 1 must be namespace ID string'', w)
     | Some ns_str \<Rightarrow>
     (case require_string a1 of
       None \<Rightarrow> Inr (Throw ''docs.get: arg 2 must be author ID string'', w)
     | Some author_str \<Rightarrow>
     (case require_string a2 of
       None \<Rightarrow> Inr (Throw ''docs.get: arg 3 must be key string'', w)
     | Some key \<Rightarrow>
     with_ns_author env ''docs.get'' ns_str author_str w (\<lambda>ns au w.
       ns_author_call env ''docs.get'' IROH_OP_DOCS_GET this a a3 ns au
         (\<lambda>r. iroh_docs_get env r (Some d) (Some ns) (Some au) key) w)))))"

definition duk_rp_iroh_docs_delete ::
  "'e env_scheme \<Rightarrow> objid \<Rightarrow> jsval \<Rightarrow> jsval \<Rightarrow> jsval \<Rightarrow> jsval \<Rightarrow> world
     \<Rightarrow> fault + jsres \<times> world" where
  "duk_rp_iroh_docs_delete env this a0 a1 a2 a3 w =
     GET_ICTX this ''docs.delete: not initialized'' w (\<lambda>a.
     ready a docs_p ''docs.delete: docs not ready'' w (\<lambda>d.
     case require_string a0 of
       None \<Rightarrow> Inr (Throw ''docs.delete: arg 1 must be namespace ID string'', w)
     | Some ns_str \<Rightarrow>
     (case require_string a1 of
       None \<Rightarrow> Inr (Throw ''docs.delete: arg 2 must be author ID string'', w)
     | Some author_str \<Rightarrow>
     (case require_string a2 of
       None \<Rightarrow> Inr (Throw ''docs.delete: arg 3 must be key string'', w)
     | Some key \<Rightarrow>
     with_ns_author env ''docs.delete'' ns_str author_str w (\<lambda>ns au w.
       ns_author_call env ''docs.delete'' IROH_OP_DOCS_DELETE this a a3 ns au
         (\<lambda>r. iroh_docs_delete env r (Some d) (Some ns) (Some au) key) w)))))"

text \<open>The common end of the calls that take a namespace only.\<close>

definition ns_call ::
  "'e env_scheme \<Rightarrow> string \<Rightarrow> iroh_op_type \<Rightarrow> objid \<Rightarrow> addr \<Rightarrow> jsval \<Rightarrow> rid
     \<Rightarrow> (rust \<Rightarrow> fault + hid option \<times> rust) \<Rightarrow> world \<Rightarrow> fault + jsres \<times> world" where
  "ns_call env name op this a cb ns start w =
     bnd (opt_cb a cb w) (\<lambda>(aux, w).
     bnd (in_rust w start) (\<lambda>(h, w).
     bnd (in_rust' w (tmp_free TNamespaceId (Some ns))) (\<lambda>w.
       start_or_throw env this a op aux (name @ '': failed'') (h, w))))"

definition duk_rp_iroh_docs_get_latest ::
  "'e env_scheme \<Rightarrow> objid \<Rightarrow> jsval \<Rightarrow> jsval \<Rightarrow> jsval \<Rightarrow> world \<Rightarrow> fault + jsres \<times> world" where
  "duk_rp_iroh_docs_get_latest env this a0 a1 a2 w =
     GET_ICTX this ''docs.getAttr: not initialized'' w (\<lambda>a.
     ready a docs_p ''docs.getAttr: docs not ready'' w (\<lambda>d.
     case require_string a0 of
       None \<Rightarrow> Inr (Throw ''docs.getAttr: arg 1 must be namespace ID string'', w)
     | Some ns_str \<Rightarrow>
     (case require_string a1 of
       None \<Rightarrow> Inr (Throw ''docs.getAttr: arg 2 must be key string'', w)
     | Some key \<Rightarrow>
     with_ns env ''docs.getAttr'' ns_str w (\<lambda>ns w.
       ns_call env ''docs.getAttr'' IROH_OP_DOCS_GET_LATEST this a a2 ns
         (\<lambda>r. iroh_docs_get_latest env r (Some d) (Some ns) key) w))))"

definition duk_rp_iroh_docs_get_all ::
  "'e env_scheme \<Rightarrow> objid \<Rightarrow> jsval \<Rightarrow> jsval \<Rightarrow> world \<Rightarrow> fault + jsres \<times> world" where
  "duk_rp_iroh_docs_get_all env this a0 a1 w =
     GET_ICTX this ''docs.getAll: not initialized'' w (\<lambda>a.
     ready a docs_p ''docs.getAll: docs not ready'' w (\<lambda>d.
     case require_string a0 of
       None \<Rightarrow> Inr (Throw ''docs.getAll: arg 1 must be namespace ID string'', w)
     | Some ns_str \<Rightarrow>
     with_ns env ''docs.getAll'' ns_str w (\<lambda>ns w.
       ns_call env ''docs.getAll'' IROH_OP_DOCS_GET_ALL this a a1 ns
         (\<lambda>r. iroh_docs_get_all env r (Some d) (Some ns)) w)))"

definition duk_rp_iroh_docs_ticket ::
  "'e env_scheme \<Rightarrow> objid \<Rightarrow> jsval \<Rightarrow> jsval \<Rightarrow> world \<Rightarrow> fault + jsres \<times> world" where
  "duk_rp_iroh_docs_ticket env this a0 a1 w =
     GET_ICTX this ''docs.createTicket: not initialized'' w (\<lambda>a.
     ready a docs_p ''docs.createTicket: docs not ready'' w (\<lambda>d.
     case require_string a0 of
       None \<Rightarrow> Inr (Throw ''docs.createTicket: arg 1 must be namespace ID string'', w)
     | Some ns_str \<Rightarrow>
     with_ns env ''docs.createTicket'' ns_str w (\<lambda>ns w.
     bnd (parent_endpoint a w) (\<lambda>ep.
     if ep = None then
       bnd (in_rust' w (tmp_free TNamespaceId (Some ns))) (\<lambda>w.
         Inr (Throw ''docs.createTicket: endpoint not available'', w))
     else
       ns_call env ''docs.createTicket'' IROH_OP_DOCS_CREATE_TICKET this a a1 ns
         (\<lambda>r. iroh_docs_create_ticket env r (Some d) (Some ns) ep) w))))"

definition duk_rp_iroh_docs_join ::
  "'e env_scheme \<Rightarrow> objid \<Rightarrow> jsval \<Rightarrow> jsval \<Rightarrow> world \<Rightarrow> fault + jsres \<times> world" where
  "duk_rp_iroh_docs_join env this a0 a1 w =
     GET_ICTX this ''docs.join: not initialized'' w (\<lambda>a.
     ready a docs_p ''docs.join: docs not ready'' w (\<lambda>d.
     case require_string a0 of
       None \<Rightarrow> Inr (Throw ''docs.join: arg 1 must be a ticket string'', w)
     | Some ticket_str \<Rightarrow>
         (case tmp_from_string env TDocTicket ticket_str (w_rust w) of
            (None, r) \<Rightarrow> Inr (Throw ''docs.join: invalid ticket'', w\<lparr>w_rust := r\<rparr>)
          | (Some t, r) \<Rightarrow>
              bnd (opt_cb a a1 (w\<lparr>w_rust := r\<rparr>)) (\<lambda>(aux, w).
              bnd (in_rust w (\<lambda>r. iroh_docs_join env r (Some d) (Some t))) (\<lambda>(h, w).
              bnd (in_rust' w (tmp_free TDocTicket (Some t))) (\<lambda>w.
                start_or_throw env this a IROH_OP_DOCS_JOIN aux ''docs.join: failed'' (h, w)))))))"

section \<open>Result handlers\<close>

definition iroh_on_docs_created ::
  "'e env_scheme \<Rightarrow> jscode \<Rightarrow> opaddr \<Rightarrow> IrohAsyncState \<Rightarrow> world \<Rightarrow> fault + world" where
  "iroh_on_docs_created env js aop state w =
     bnd (get_op w aop) (\<lambda>x. let a = aop_ictx x in
     if state \<noteq> Ready then fail_op env js aop ''docs creation failed'' w
     else
       bnd (in_rust w (\<lambda>r. iroh_docs_from_router_result r (aop_handle x))) (\<lambda>(d, w).
       bnd (upd_ctx a (\<lambda>c. c\<lparr>docs_p := d\<rparr>) w) (\<lambda>w.
       bnd (in_rust w (\<lambda>r. iroh_blobs_store_from_docs_result r (aop_handle x))) (\<lambda>(s, w).
       bnd (upd_ctx a (\<lambda>c. c\<lparr>blob_store := s\<rparr>) w) (\<lambda>w.
       bnd (in_rust w (\<lambda>r. iroh_router_from_docs_result r (aop_handle x))) (\<lambda>(ro, w).
       bnd (upd_ctx a (\<lambda>c. c\<lparr>router := ro\<rparr>) w) (\<lambda>w.
       bnd (iroh_free_async_op aop w) (\<lambda>w.
       if d = None then iroh_fire_error env js a (Some ''Failed to get docs result'') w
       else iroh_fire_event env js a ''ready'' w))))))))"

definition iroh_on_docs_id_result ::
  "'e env_scheme \<Rightarrow> jscode \<Rightarrow> opaddr \<Rightarrow> IrohAsyncState \<Rightarrow> tkind
     \<Rightarrow> (rust \<Rightarrow> hid option \<Rightarrow> fault + rid option \<times> rust) \<Rightarrow> world \<Rightarrow> fault + world" where
  "iroh_on_docs_id_result env js aop state k get_result w =
     bnd (get_op w aop) (\<lambda>x. let a = aop_ictx x; cb_id = aop_aux x in
     if state \<noteq> Ready then fail_op env js aop ''docs operation failed'' w
     else
       bnd (in_rust w (\<lambda>r. get_result r (aop_handle x))) (\<lambda>(i, w).
       bnd (iroh_free_async_op aop w) (\<lambda>w.
       bnd (id_val k i (w_rust w)) (\<lambda>v.
       bnd (oneshot js a cb_id ''docs'' [v] w) (\<lambda>w.
         in_rust' w (tmp_free k i))))))"

definition iroh_on_docs_author_created ::
  "'e env_scheme \<Rightarrow> jscode \<Rightarrow> opaddr \<Rightarrow> IrohAsyncState \<Rightarrow> world \<Rightarrow> fault + world" where
  "iroh_on_docs_author_created env js aop state =
     iroh_on_docs_id_result env js aop state TAuthorId iroh_docs_create_author_result"

definition iroh_on_docs_doc_created ::
  "'e env_scheme \<Rightarrow> jscode \<Rightarrow> opaddr \<Rightarrow> IrohAsyncState \<Rightarrow> world \<Rightarrow> fault + world" where
  "iroh_on_docs_doc_created env js aop state =
     iroh_on_docs_id_result env js aop state TNamespaceId iroh_docs_create_doc_result"

definition iroh_on_docs_set_done ::
  "'e env_scheme \<Rightarrow> jscode \<Rightarrow> opaddr \<Rightarrow> IrohAsyncState \<Rightarrow> world \<Rightarrow> fault + world" where
  "iroh_on_docs_set_done env js aop state w =
     bnd (get_op w aop) (\<lambda>x. let a = aop_ictx x; cb_id = aop_aux x in
     if state \<noteq> Ready then fail_op env js aop ''docs set failed'' w
     else bnd (iroh_free_async_op aop w) (oneshot js a cb_id ''docs.set'' []))"

definition iroh_on_docs_get_done ::
  "'e env_scheme \<Rightarrow> jscode \<Rightarrow> opaddr \<Rightarrow> IrohAsyncState \<Rightarrow> world \<Rightarrow> fault + world" where
  "iroh_on_docs_get_done env js aop state w =
     bnd (get_op w aop) (\<lambda>x. let a = aop_ictx x; cb_id = aop_aux x in
     if state \<noteq> Ready then fail_op env js aop ''docs get failed'' w
     else
       bnd (in_rust w (\<lambda>r. iroh_docs_get_result r (aop_handle x))) (\<lambda>(d, w).
       bnd (iroh_free_async_op aop w) (oneshot js a cb_id ''docs.get'' [bytes_val d])))"

definition iroh_on_docs_get_latest_done ::
  "'e env_scheme \<Rightarrow> jscode \<Rightarrow> opaddr \<Rightarrow> IrohAsyncState \<Rightarrow> world \<Rightarrow> fault + world" where
  "iroh_on_docs_get_latest_done env js aop state w =
     bnd (get_op w aop) (\<lambda>x. let a = aop_ictx x; cb_id = aop_aux x in
     if state \<noteq> Ready then fail_op env js aop ''docs getAttr failed'' w
     else
       bnd (in_rust w (\<lambda>r. iroh_docs_get_latest_result r (aop_handle x))) (\<lambda>(d, w).
       bnd (iroh_free_async_op aop w) (oneshot js a cb_id ''docs.getAttr'' [bytes_val d])))"

text \<open>The object of \<open>getAll\<close>: a later pair with the same key overwrites an earlier one.\<close>

definition pairs_props :: "(string \<times> bytes option) list \<Rightarrow> (string \<times> jsval) list" where
  "pairs_props ps = fold (\<lambda>(k, d) ob. AList.update k (bytes_val d) ob) ps []"

definition iroh_on_docs_get_all_done ::
  "'e env_scheme \<Rightarrow> jscode \<Rightarrow> opaddr \<Rightarrow> IrohAsyncState \<Rightarrow> world \<Rightarrow> fault + world" where
  "iroh_on_docs_get_all_done env js aop state w =
     bnd (get_op w aop) (\<lambda>x. let a = aop_ictx x; cb_id = aop_aux x in
     if state \<noteq> Ready then fail_op env js aop ''docs getAll failed'' w
     else
       bnd (in_rust w (\<lambda>r. iroh_docs_get_all_result r (aop_handle x))) (\<lambda>(ps, w).
       bnd (iroh_free_async_op aop w) (\<lambda>w.
       bnd (iroh_prep_cb a cb_id w) (\<lambda>(cb, w).
       case cb of None \<Rightarrow> Inr w
       | Some f \<Rightarrow>
           (let (ob, w) = new_obj (empty_obj\<lparr>o_props := pairs_props ps\<rparr>) w in
            pcall_cb js ''docs.getAll'' f [JObj ob] w)))))"

definition iroh_on_docs_delete_done ::
  "'e env_scheme \<Rightarrow> jscode \<Rightarrow> opaddr \<Rightarrow> IrohAsyncState \<Rightarrow> world \<Rightarrow> fault + world" where
  "iroh_on_docs_delete_done env js aop state w = iroh_on_docs_set_done env js aop state w"

definition iroh_on_docs_ticket_created ::
  "'e env_scheme \<Rightarrow> jscode \<Rightarrow> opaddr \<Rightarrow> IrohAsyncState \<Rightarrow> world \<Rightarrow> fault + world" where
  "iroh_on_docs_ticket_created env js aop state w =
     bnd (get_op w aop) (\<lambda>x. let a = aop_ictx x; cb_id = aop_aux x in
     if state \<noteq> Ready then fail_op env js aop ''docs createTicket failed'' w
     else
       bnd (in_rust w (\<lambda>r. iroh_docs_create_ticket_result r (aop_handle x))) (\<lambda>(i, w).
       bnd (iroh_free_async_op aop w) (\<lambda>w.
       bnd (id_val TDocTicket i (w_rust w)) (\<lambda>v.
       bnd (oneshot js a cb_id ''docs.createTicket'' [v] w) (\<lambda>w.
         in_rust' w (tmp_free TDocTicket i))))))"

definition iroh_on_docs_joined ::
  "'e env_scheme \<Rightarrow> jscode \<Rightarrow> opaddr \<Rightarrow> IrohAsyncState \<Rightarrow> world \<Rightarrow> fault + world" where
  "iroh_on_docs_joined env js aop state =
     iroh_on_docs_id_result env js aop state TNamespaceId iroh_docs_join_result"

end
