(* ===== verification/Dispatch.thy ===== *)
theory Dispatch
  imports Docs
begin

text \<open>
  The event-loop side: routing a finished operation to its handler
  (\<open>iroh_dispatch_result\<close>), and the callback libevent runs when an operation's pipe becomes
  readable (\<open>iroh_async_cb\<close>).
\<close>

fun dispatch_on ::
  "iroh_op_type \<Rightarrow> 'e env_scheme \<Rightarrow> jscode \<Rightarrow> opaddr \<Rightarrow> IrohAsyncState \<Rightarrow> world \<Rightarrow> fault + world"
where
  "dispatch_on IROH_OP_ENDPOINT_CREATE = iroh_on_endpoint_created"
| "dispatch_on IROH_OP_ENDPOINT_WAIT_ONLINE = iroh_on_endpoint_online"
| "dispatch_on IROH_OP_ENDPOINT_CLOSE = iroh_on_endpoint_closed"
| "dispatch_on IROH_OP_ENDPOINT_ACCEPT = iroh_on_connection_accepted"
| "dispatch_on IROH_OP_CONNECT = iroh_on_connected"
| "dispatch_on IROH_OP_OPEN_BI = iroh_on_bi_opened"
| "dispatch_on IROH_OP_ACCEPT_BI = iroh_on_stream_accepted"
| "dispatch_on IROH_OP_STREAM_READ = iroh_on_stream_data"
| "dispatch_on IROH_OP_STREAM_WRITE = iroh_on_stream_written"
| "dispatch_on IROH_OP_RECV_DATAGRAM = iroh_on_datagram_received"
| "dispatch_on IROH_OP_GOSSIP_CREATE = iroh_on_gossip_created"
| "dispatch_on IROH_OP_GOSSIP_SUBSCRIBE = iroh_on_gossip_subscribed"
| "dispatch_on IROH_OP_GOSSIP_BROADCAST = iroh_on_gossip_broadcast"
| "dispatch_on IROH_OP_GOSSIP_RECV = iroh_on_gossip_recv"
| "dispatch_on IROH_OP_BLOBS_CREATE = iroh_on_blobs_created"
| "dispatch_on IROH_OP_BLOBS_ADD_BYTES = iroh_on_blobs_added"
| "dispatch_on IROH_OP_BLOBS_ADD_FILE = iroh_on_blobs_added"
| "dispatch_on IROH_OP_BLOBS_READ = iroh_on_blobs_read"
| "dispatch_on IROH_OP_BLOBS_DOWNLOAD = iroh_on_blobs_downloaded"
| "dispatch_on IROH_OP_DOCS_CREATE = iroh_on_docs_created"
| "dispatch_on IROH_OP_DOCS_CREATE_AUTHOR = iroh_on_docs_author_created"
| "dispatch_on IROH_OP_DOCS_CREATE_DOC = iroh_on_docs_doc_created"
| "dispatch_on IROH_OP_DOCS_SET = iroh_on_docs_set_done"
| "dispatch_on IROH_OP_DOCS_GET = iroh_on_docs_get_done"
| "dispatch_on IROH_OP_DOCS_GET_LATEST = iroh_on_docs_get_latest_done"
| "dispatch_on IROH_OP_DOCS_GET_ALL = iroh_on_docs_get_all_done"
| "dispatch_on IROH_OP_DOCS_DELETE = iroh_on_docs_delete_done"
| "dispatch_on IROH_OP_DOCS_CREATE_TICKET = iroh_on_docs_ticket_created"
| "dispatch_on IROH_OP_DOCS_JOIN = iroh_on_docs_joined"

definition iroh_dispatch_result ::
  "'e env_scheme \<Rightarrow> jscode \<Rightarrow> opaddr \<Rightarrow> IrohAsyncState \<Rightarrow> world \<Rightarrow> fault + world" where
  "iroh_dispatch_result env js aop state w =
     bnd (get_op w aop) (\<lambda>x. dispatch_on (aop_op x) env js aop state w)"

text \<open>
  While the operation is pending the one-shot event is armed again (a spurious wake-up);
  otherwise the handler takes over and releases the operation.
\<close>

definition iroh_async_cb ::
  "'e env_scheme \<Rightarrow> jscode \<Rightarrow> opaddr \<Rightarrow> world \<Rightarrow> fault + world" where
  "iroh_async_cb env js aop w =
     bnd (get_op w aop) (\<lambda>x.
     bnd (iroh_async_poll (w_rust w) (aop_handle x)) (\<lambda>state.
       if state = Pending then Inr w else iroh_dispatch_result env js aop state w))"

end
