(* ===== verification/ModuleInit.thy ===== *)
theory ModuleInit
  imports Dispatch
begin

text \<open>
  Module initialisation (\<open>duk_open_module\<close>): the runtime is created once per process, then the
  module object is built. The constructors and prototypes are tables from property names to C
  functions with the number of arguments Duktape coerces a call to (\<open>None\<close> is
  \<open>DUK_VARARGS\<close>); \<open>iroh_call\<close> runs the C function a method name stands for.
\<close>

section \<open>The functions exported to JavaScript\<close>

datatype cfunc =
    F_on | F_once | F_off | F_trigger
  | F_endpoint | F_ep_connect | F_ep_close | F_ep_node_id | F_ep_address
  | F_conn_open_bi | F_conn_close | F_conn_send_datagram
  | F_stream_write | F_stream_finish | F_stream_destroy
  | F_topic_broadcast | F_close
  | F_gossip | F_gossip_subscribe
  | F_blobs | F_blobs_add_bytes | F_blobs_add_file | F_blobs_read | F_blobs_download
  | F_blobs_ticket
  | F_docs | F_docs_create_author | F_docs_create_doc | F_docs_set | F_docs_get
  | F_docs_get_latest | F_docs_get_all | F_docs_delete | F_docs_ticket | F_docs_join
  | F_create_server | F_connect_to

type_synonym method_table = "(string \<times> cfunc \<times> nat option) list"

definition iroh_add_emitter_methods :: "method_table \<Rightarrow> method_table" where
  "iroh_add_emitter_methods t =
     t @ [(''on'', F_on, Some 2), (''once'', F_once, Some 2), (''off'', F_off, Some 2),
          (''trigger'', F_trigger, Some 2)]"

definition endpoint_proto :: method_table where
  "endpoint_proto = iroh_add_emitter_methods
     [(''connect'', F_ep_connect, Some 3), (''close'', F_ep_close, Some 0),
      (''getNodeId'', F_ep_node_id, Some 0), (''getAddress'', F_ep_address, Some 0)]"

definition conn_proto :: method_table where
  "conn_proto = iroh_add_emitter_methods
     [(''openBi'', F_conn_open_bi, Some 1), (''close'', F_conn_close, Some 2),
      (''sendDatagram'', F_conn_send_datagram, Some 1)]"

definition stream_proto :: method_table where
  "stream_proto = iroh_add_emitter_methods
     [(''write'', F_stream_write, Some 1), (''finish'', F_stream_finish, Some 0),
      (''destroy'', F_stream_destroy, Some 0)]"

definition topic_proto :: method_table where
  "topic_proto = iroh_add_emitter_methods
     [(''broadcast'', F_topic_broadcast, Some 1), (''close'', F_close, Some 0)]"

definition gossip_proto :: method_table where
  "gossip_proto = iroh_add_emitter_methods
     [(''subscribe'', F_gossip_subscribe, Some 2), (''close'', F_close, Some 0)]"

definition blobs_proto_tbl :: method_table where
  "blobs_proto_tbl = iroh_add_emitter_methods
     [(''addBytes'', F_blobs_add_bytes, Some 2), (''addFile'', F_blobs_add_file, Some 2),
      (''read'', F_blobs_read, Some 2), (''download'', F_blobs_download, Some 2),
      (''createTicket'', F_blobs_ticket, Some 1), (''close'', F_close, Some 0)]"

definition docs_proto :: method_table where
  "docs_proto = iroh_add_emitter_methods
     [(''createAuthor'', F_docs_create_author, Some 1), (''createDoc'', F_docs_create_doc, Some 1),
      (''set'', F_docs_set, Some 5), (''get'', F_docs_get, Some 4),
      (''getAttr'', F_docs_get_latest, Some 3), (''getAll'', F_docs_get_all, Some 2),
      (''delete'', F_docs_delete, Some 4), (''createTicket'', F_docs_ticket, Some 2),
      (''join'', F_docs_join, Some 2), (''close'', F_close, Some 0)]"

definition module_table :: method_table where
  "module_table =
     [(''Endpoint'', F_endpoint, Some 1), (''Gossip'', F_gossip, Some 1),
      (''Blobs'', F_blobs, Some 2), (''Docs'', F_docs, Some 2),
      (''createServer'', F_create_server, None), (''connect'', F_connect_to, Some 3)]"

fun proto_of :: "iroh_obj_type \<Rightarrow> method_table" where
  "proto_of IROH_OBJ_ENDPOINT = endpoint_proto"
| "proto_of IROH_OBJ_CONNECTION = conn_proto"
| "proto_of IROH_OBJ_STREAM = stream_proto"
| "proto_of IROH_OBJ_GOSSIP = gossip_proto"
| "proto_of IROH_OBJ_GOSSIP_TOPIC = topic_proto"
| "proto_of IROH_OBJ_BLOBS = blobs_proto_tbl"
| "proto_of IROH_OBJ_DOCS = docs_proto"

section \<open>Calling one of them\<close>

definition nth_arg :: "jsval list \<Rightarrow> nat \<Rightarrow> jsval" where
  "nth_arg args i = (if i < length args then args ! i else JUndefined)"

definition lift_js :: "jsres \<times> world \<Rightarrow> fault + jsres \<times> world" where
  "lift_js x = Inr x"

fun iroh_call ::
  "'e env_scheme \<Rightarrow> jscode \<Rightarrow> cfunc \<Rightarrow> bool \<Rightarrow> objid \<Rightarrow> jsval list \<Rightarrow> world \<Rightarrow> fault + jsres \<times> world"
where
  "iroh_call env js F_on ctor this as w = duk_rp_iroh_on env this (nth_arg as 0) (nth_arg as 1) w"
| "iroh_call env js F_once ctor this as w = duk_rp_iroh_once env this (nth_arg as 0) (nth_arg as 1) w"
| "iroh_call env js F_off ctor this as w = lift_js (duk_rp_iroh_off this (nth_arg as 0) (nth_arg as 1) w)"
| "iroh_call env js F_trigger ctor this as w =
     duk_rp_iroh_trigger env js this (nth_arg as 0) (nth_arg as 1) w"
| "iroh_call env js F_endpoint ctor this as w = duk_rp_iroh_endpoint env ctor this (nth_arg as 0) w"
| "iroh_call env js F_ep_connect ctor this as w =
     duk_rp_iroh_ep_connect env this (nth_arg as 0) (nth_arg as 1) (nth_arg as 2) w"
| "iroh_call env js F_ep_close ctor this as w = duk_rp_iroh_ep_close env js this w"
| "iroh_call env js F_ep_node_id ctor this as w = duk_rp_iroh_ep_node_id env this w"
| "iroh_call env js F_ep_address ctor this as w = duk_rp_iroh_ep_address env this w"
| "iroh_call env js F_conn_open_bi ctor this as w = duk_rp_iroh_conn_open_bi env this (nth_arg as 0) w"
| "iroh_call env js F_conn_close ctor this as w =
     duk_rp_iroh_conn_close env js this (nth_arg as 0) (nth_arg as 1) w"
| "iroh_call env js F_conn_send_datagram ctor this as w =
     duk_rp_iroh_conn_send_datagram env this (nth_arg as 0) w"
| "iroh_call env js F_stream_write ctor this as w = duk_rp_iroh_stream_write env this (nth_arg as 0) w"
| "iroh_call env js F_stream_finish ctor this as w = duk_rp_iroh_stream_finish this w"
| "iroh_call env js F_stream_destroy ctor this as w = duk_rp_iroh_stream_destroy env js this w"
| "iroh_call env js F_topic_broadcast ctor this as w =
     duk_rp_iroh_topic_broadcast env this (nth_arg as 0) w"
| "iroh_call env js F_close ctor this as w = duk_rp_iroh_close env js this w"
| "iroh_call env js F_gossip ctor this as w = duk_rp_iroh_gossip env ctor this (nth_arg as 0) w"
| "iroh_call env js F_gossip_subscribe ctor this as w =
     duk_rp_iroh_gossip_subscribe env this (nth_arg as 0) (nth_arg as 1) w"
| "iroh_call env js F_blobs ctor this as w =
     duk_rp_iroh_blobs env ctor this (nth_arg as 0) (nth_arg as 1) w"
| "iroh_call env js F_blobs_add_bytes ctor this as w =
     duk_rp_iroh_blobs_add_bytes env this (nth_arg as 0) (nth_arg as 1) w"
| "iroh_call env js F_blobs_add_file ctor this as w =
     duk_rp_iroh_blobs_add_file env this (nth_arg as 0) (nth_arg as 1) w"
| "iroh_call env js F_blobs_read ctor this as w =
     duk_rp_iroh_blobs_read env this (nth_arg as 0) (nth_arg as 1) w"
| "iroh_call env js F_blobs_download ctor this as w =
     duk_rp_iroh_blobs_download env this (nth_arg as 0) (nth_arg as 1) w"
| "iroh_call env js F_blobs_ticket ctor this as w = duk_rp_iroh_blobs_ticket env this (nth_arg as 0) w"
| "iroh_call env js F_docs ctor this as w = duk_rp_iroh_docs env ctor this (nth_arg as 0) (nth_arg as 1) w"
| "iroh_call env js F_docs_create_author ctor this as w =
     duk_rp_iroh_docs_create_author env this (nth_arg as 0) w"
| "iroh_call env js F_docs_create_doc ctor this as w =
     duk_rp_iroh_docs_create_doc env this (nth_arg as 0) w"
| "iroh_call env js F_docs_set ctor this as w =
     duk_rp_iroh_docs_set env this (nth_arg as 0) (nth_arg as 1) (nth_arg as 2) (nth_arg as 3) (nth_arg as 4) w"
| "iroh_call env js F_docs_get ctor this as w =
     duk_rp_iroh_docs_get env this (nth_arg as 0) (nth_arg as 1) (nth_arg as 2) (nth_arg as 3) w"
| "iroh_call env js F_docs_get_latest ctor this as w =
     duk_rp_iroh_docs_get_latest env this (nth_arg as 0) (nth_arg as 1) (nth_arg as 2) w"
| "iroh_call env js F_docs_get_all ctor this as w =
     duk_rp_iroh_docs_get_all env this (nth_arg as 0) (nth_arg as 1) w"
| "iroh_call env js F_docs_delete ctor this as w =
     duk_rp_iroh_docs_delete env this (nth_arg as 0) (nth_arg as 1) (nth_arg as 2) (nth_arg as 3) w"
| "iroh_call env js F_docs_ticket ctor this as w =
     duk_rp_iroh_docs_ticket env this (nth_arg as 0) (nth_arg as 1) w"
| "iroh_call env js F_docs_join ctor this as w =
     duk_rp_iroh_docs_join env this (nth_arg as 0) (nth_arg as 1) w"
| "iroh_call env js F_create_server ctor this as w = duk_rp_iroh_create_server env as w"
| "iroh_call env js F_connect_to ctor this as w =
     duk_rp_iroh_connect_to env (nth_arg as 0) (nth_arg as 1) (nth_arg as 2) w"

section \<open>Initialisation\<close>

definition duk_open_module ::
  "'e env_scheme \<Rightarrow> world \<Rightarrow> (string + method_table) \<times> world" where
  "duk_open_module env w =
     (if w_is_init w then (Inr module_table, w)
      else case iroh_init env (w_rust w) of
             (err, r) \<Rightarrow>
               if err \<noteq> ErrOk
               then (Inl (''Failed to initialize iroh: '' @
                       or_default (iroh_last_error r) ''unknown error''), w\<lparr>w_rust := r\<rparr>)
               else (Inr module_table, w\<lparr>w_rust := r, w_is_init := True\<rparr>))"

text \<open>The state before the module is loaded.\<close>

definition boot :: world where
  "boot = \<lparr>w_ctxs = \<lambda>_. None, w_ops = \<lambda>_. None, w_evs = \<lambda>_. False, w_next = 1,
     w_objs = \<lambda>_. None, w_nextobj = 0, w_fns = \<lambda>_. \<lparr>fn_evcb_id = None, fn_once = False\<rparr>,
     w_stash = \<lambda>_. None, w_this_id = 0, w_evcb_id = 0, w_is_init = False,
     w_rust = \<lparr>r_handles = \<lambda>_. None, r_res = \<lambda>_. None, r_tmp = \<lambda>_. None, r_next = 0,
       r_runtime = False, r_last_error = None\<rparr>,
     w_log = []\<rparr>"

end
