(* ===== verification/Ownership.thy ===== *)
theory Ownership
  imports ModuleInit
begin

text \<open>
  Ownership on the Rust side. \<open>RInv\<close>: identifiers are fresh above \<open>r_next\<close>, every raw pointer a
  running task holds points to a live object of a kind a task may borrow, and a handle that is
  pending has a task that is still to finish. \<open>rstep r r'\<close>: going
  from \<open>r\<close> to \<open>r'\<close> loses nothing C relies on. Starting an operation and taking a result are such
  steps; only the explicit release functions are not.
\<close>

section \<open>The invariant and the frame\<close>

definition borrowable :: "rkind set" where
  "borrowable = {KEndpoint, KSendStream, KRecvStream, KGossip, KGossipTopic}"

definition rfresh :: "rust \<Rightarrow> bool" where
  "rfresh r \<longleftrightarrow> (\<forall>n \<ge> r_next r. r_handles r n = None \<and> r_res r n = None \<and> r_tmp r n = None)"

definition tasks_ok :: "rust \<Rightarrow> bool" where
  "tasks_ok r \<longleftrightarrow>
     (\<forall>h ah. r_handles r h = Some ah \<and> h_running ah \<longrightarrow>
        (\<forall>x \<in> set (task_borrows (h_req ah)). \<exists>k \<in> borrowable. r_res r x = Some k))"

definition attended :: "(hid \<Rightarrow> IrohAsyncHandle option) \<Rightarrow> bool" where
  "attended hs \<longleftrightarrow> (\<forall>h ah. hs h = Some ah \<and> h_state ah = Pending \<longrightarrow> h_running ah)"

lemma attended_upd:
  "attended hs \<Longrightarrow> attended (hs(h := None))"
  "attended hs \<Longrightarrow> h_state ah = Pending \<longrightarrow> h_running ah \<Longrightarrow> attended (hs(h \<mapsto> ah))"
  "attended hs \<Longrightarrow> hs h = Some ah \<Longrightarrow> attended (hs(h \<mapsto> ah\<lparr>h_cref := b\<rparr>))"
  "attended hs \<Longrightarrow> hs h = Some ah \<Longrightarrow> attended (hs(h \<mapsto> ah\<lparr>h_result := v\<rparr>))"
  by (auto simp: attended_def)

lemma attended_empty [simp]: "attended (\<lambda>_. None)"
  by (simp add: attended_def)

lemma attendedD: "attended hs \<Longrightarrow> hs h = Some ah \<Longrightarrow> h_state ah = Pending \<Longrightarrow> h_running ah"
  by (auto simp: attended_def)

definition RInv :: "rust \<Rightarrow> bool" where
  "RInv r \<longleftrightarrow> rfresh r \<and> tasks_ok r \<and> attended (r_handles r)"

definition handle_live :: "rust \<Rightarrow> hid \<Rightarrow> bool" where
  "handle_live r h \<longleftrightarrow> (\<exists>ah. r_handles r h = Some ah \<and> h_cref ah)"

text \<open>The operation each request is started for, and the handles whose task works on such a request.\<close>

fun op_of :: "req \<Rightarrow> iroh_op_type" where
  "op_of (RqEndpointCreate _) = IROH_OP_ENDPOINT_CREATE"
| "op_of (RqEndpointClose _) = IROH_OP_ENDPOINT_CLOSE"
| "op_of (RqConnect _ _ _) = IROH_OP_CONNECT"
| "op_of (RqAccept _) = IROH_OP_ENDPOINT_ACCEPT"
| "op_of (RqOpenBi _) = IROH_OP_OPEN_BI"
| "op_of (RqAcceptBi _) = IROH_OP_ACCEPT_BI"
| "op_of (RqWrite _ _) = IROH_OP_STREAM_WRITE"
| "op_of (RqRead _ _) = IROH_OP_STREAM_READ"
| "op_of (RqRecvDatagram _) = IROH_OP_RECV_DATAGRAM"
| "op_of (RqWaitOnline _) = IROH_OP_ENDPOINT_WAIT_ONLINE"
| "op_of (RqGossipCreate _) = IROH_OP_GOSSIP_CREATE"
| "op_of (RqSubscribe _ _ _) = IROH_OP_GOSSIP_SUBSCRIBE"
| "op_of (RqBroadcast _ _) = IROH_OP_GOSSIP_BROADCAST"
| "op_of (RqGossipRecv _) = IROH_OP_GOSSIP_RECV"
| "op_of (RqBlobsCreate _ _) = IROH_OP_BLOBS_CREATE"
| "op_of (RqAddBytes _ _) = IROH_OP_BLOBS_ADD_BYTES"
| "op_of (RqAddFile _ _) = IROH_OP_BLOBS_ADD_FILE"
| "op_of (RqBlobsRead _ _) = IROH_OP_BLOBS_READ"
| "op_of (RqDownload _ _ _) = IROH_OP_BLOBS_DOWNLOAD"
| "op_of (RqDocsCreate _ _) = IROH_OP_DOCS_CREATE"
| "op_of (RqCreateAuthor _) = IROH_OP_DOCS_CREATE_AUTHOR"
| "op_of (RqCreateDoc _) = IROH_OP_DOCS_CREATE_DOC"
| "op_of (RqDocsSet _ _ _ _ _) = IROH_OP_DOCS_SET"
| "op_of (RqDocsSetMulti _ _ _ _) = IROH_OP_DOCS_SET"
| "op_of (RqDocsGet _ _ _ _) = IROH_OP_DOCS_GET"
| "op_of (RqDocsGetLatest _ _ _) = IROH_OP_DOCS_GET_LATEST"
| "op_of (RqDocsGetAll _ _) = IROH_OP_DOCS_GET_ALL"
| "op_of (RqDocsDelete _ _ _ _) = IROH_OP_DOCS_DELETE"
| "op_of (RqCreateTicket _ _ _) = IROH_OP_DOCS_CREATE_TICKET"
| "op_of (RqJoin _ _) = IROH_OP_DOCS_JOIN"

definition works_on :: "rust \<Rightarrow> hid \<Rightarrow> iroh_op_type \<Rightarrow> bool" where
  "works_on r h op \<longleftrightarrow> (\<exists>ah. r_handles r h = Some ah \<and> op_of (h_req ah) = op)"

definition rstep :: "rust \<Rightarrow> rust \<Rightarrow> bool" where
  "rstep r r' \<longleftrightarrow>
     r_next r \<le> r_next r' \<and> (\<forall>h. handle_live r h \<longrightarrow> handle_live r' h) \<and> (\<forall>h op. works_on r h op \<longrightarrow> works_on r' h op)
     \<and> (\<forall>x k. r_res r x = Some k \<longrightarrow> r_res r' x = Some k) \<and> (RInv r \<longrightarrow> RInv r')"

text \<open>The tasks of two states, and the objects no running task holds.\<close>

definition same_tasks :: "rust \<Rightarrow> rust \<Rightarrow> bool" where
  "same_tasks r r' \<longleftrightarrow>
     (\<forall>h. map_option (\<lambda>ah. (h_req ah, h_running ah)) (r_handles r' h) =
          map_option (\<lambda>ah. (h_req ah, h_running ah)) (r_handles r h))"

definition unborrowed :: "rust \<Rightarrow> rid \<Rightarrow> bool" where
  "unborrowed r n \<longleftrightarrow>
     (\<forall>h ah. r_handles r h = Some ah \<and> h_running ah \<longrightarrow> n \<notin> set (task_borrows (h_req ah)))"

lemma same_tasks_refl [simp]: "same_tasks r r"
  by (simp add: same_tasks_def)

lemma same_tasks_trans: "same_tasks r s \<Longrightarrow> same_tasks s t \<Longrightarrow> same_tasks r t"
  by (simp add: same_tasks_def)

lemma same_tasks_put_handle:
  "r_handles r h = Some ah \<Longrightarrow> h_req ah' = h_req ah \<Longrightarrow> h_running ah' = h_running ah \<Longrightarrow>
     same_tasks r (put_handle h ah' r)"
  by (simp add: same_tasks_def put_handle_def)

lemma same_tasks_unborrowed:
  assumes "same_tasks r r'" and "unborrowed r n"
  shows "unborrowed r' n"
  unfolding unborrowed_def
proof (intro allI impI, elim conjE)
  fix h ah
  assume ah: "r_handles r' h = Some ah" "h_running ah"
  have "map_option (\<lambda>ah. (h_req ah, h_running ah)) (r_handles r h) = Some (h_req ah, True)"
    using assms(1)[unfolded same_tasks_def, rule_format, of h] ah by simp
  then obtain z where "r_handles r h = Some z" "h_req z = h_req ah" "h_running z" by auto
  with assms(2) show "n \<notin> set (task_borrows (h_req ah))" unfolding unborrowed_def by metis
qed

lemma same_tasks_works_on:
  assumes "same_tasks r r'" and "works_on r h op"
  shows "works_on r' h op"
proof -
  obtain ah where ah: "r_handles r h = Some ah" "op_of (h_req ah) = op" using assms(2) by (auto simp: works_on_def)
  then have "map_option (\<lambda>ah. (h_req ah, h_running ah)) (r_handles r' h) = Some (h_req ah, h_running ah)"
    using assms(1) by (simp add: same_tasks_def)
  with ah(2) show ?thesis by (auto simp: works_on_def)
qed

lemma rstep_refl [simp]: "rstep r r"
  by (simp add: rstep_def)

lemma rstep_trans: "rstep r s \<Longrightarrow> rstep s t \<Longrightarrow> rstep r t"
  by (auto simp: rstep_def)

lemma rstep_res: "rstep r r' \<Longrightarrow> r_res r x = Some k \<Longrightarrow> r_res r' x = Some k"
  by (simp add: rstep_def)

lemma rstep_live: "rstep r r' \<Longrightarrow> handle_live r h \<Longrightarrow> handle_live r' h"
  by (simp add: rstep_def)

lemma rstep_works_on: "rstep r r' \<Longrightarrow> works_on r h op \<Longrightarrow> works_on r' h op"
  by (simp add: rstep_def)

lemma RInv_fresh:
  assumes "RInv r" and "r_next r \<le> n"
  shows "r_handles r n = None" and "r_res r n = None" and "r_tmp r n = None"
  using assms by (simp_all add: RInv_def rfresh_def)

lemma unborrowed_fresh: "RInv r \<Longrightarrow> r_next r \<le> n \<Longrightarrow> unborrowed r n"
  using RInv_fresh(2)[of r n] by (force simp: unborrowed_def RInv_def tasks_ok_def)

lemma live_less: "RInv r \<Longrightarrow> handle_live r h \<Longrightarrow> h < r_next r"
  using RInv_fresh(1)[of r h] by (auto simp: handle_live_def linorder_not_le[symmetric])

lemma res_less: "RInv r \<Longrightarrow> r_res r x = Some k \<Longrightarrow> x < r_next r"
  using RInv_fresh(2)[of r x] by (auto simp: linorder_not_le[symmetric])

lemma get_handle_live: "handle_live r h \<Longrightarrow> \<exists>ah. r_handles r h = Some ah \<and> h_cref ah \<and> get_handle r h = Inr ah"
  by (auto simp: handle_live_def get_handle_def)

text \<open>Changing a handle without giving it back or restarting its task.\<close>

lemma rstep_put_handle:
  assumes "r_handles r h = Some ah" and "h_cref ah' = h_cref ah" and "h_req ah' = h_req ah"
    and "h_running ah' \<Longrightarrow> h_running ah" and "h_state ah' = Pending \<Longrightarrow> h_state ah = Pending \<and> h_running ah' = h_running ah"
  shows "rstep r (put_handle h ah' r)"
proof -
  have "attended (r_handles r) \<longrightarrow> attended ((r_handles r)(h \<mapsto> ah'))"
    using assms attendedD[of "r_handles r" h ah] by (auto intro!: attended_upd(2))
  with assms(1-4) show ?thesis
    by (auto simp: rstep_def put_handle_def handle_live_def works_on_def RInv_def rfresh_def tasks_ok_def)
qed

lemma put_handle_simps [simp]:
  "r_tmp (put_handle h ah r) = r_tmp r" "r_res (put_handle h ah r) = r_res r"
  "r_next (put_handle h ah r) = r_next r"
  "r_handles (put_handle h ah r) = (r_handles r)(h \<mapsto> ah)"
  by (simp_all add: put_handle_def)

lemma works_on_put_handle:
  "r_handles r h = Some ah \<Longrightarrow> h_req ah' = h_req ah \<Longrightarrow> works_on (put_handle h ah' r) n op \<longleftrightarrow> works_on r n op"
  by (auto simp: works_on_def)

lemma set_last_error_simps [simp]:
  "r_tmp (set_last_error m r) = r_tmp r" "r_res (set_last_error m r) = r_res r"
  "r_next (set_last_error m r) = r_next r" "r_handles (set_last_error m r) = r_handles r"
  by (simp_all add: set_last_error_def)

lemma rstep_same:
  assumes "r_next r' = r_next r" "r_handles r' = r_handles r" "r_res r' = r_res r" "r_tmp r' = r_tmp r"
  shows "rstep r r'"
  using assms by (simp add: rstep_def handle_live_def works_on_def RInv_def rfresh_def tasks_ok_def)

section \<open>Starting an operation\<close>

text \<open>What every start function promises: no fault, and a handle that is new.\<close>

definition starts :: "iroh_op_type \<Rightarrow> rust \<Rightarrow> fault + hid option \<times> rust \<Rightarrow> bool" where
  "starts op r m \<longleftrightarrow>
     safe m (\<lambda>(h, r'). rstep r r' \<and> r_tmp r' = r_tmp r
       \<and> (\<forall>n. h = Some n \<longrightarrow> r_next r \<le> n \<and> handle_live r' n \<and> works_on r' n op))"

named_theorems ffi_starts \<open>the start functions of the Rust interface\<close>

lemma rstep_spawn:
  assumes "RInv r" and "\<forall>x \<in> set (task_borrows rq). \<exists>k \<in> borrowable. r_res r x = Some k"
    and "spawn env r rq = (h, r')"
  shows "rstep r r' \<and> r_tmp r' = r_tmp r \<and> r_res r' = r_res r
     \<and> (\<forall>n. h = Some n \<longrightarrow> n = r_next r \<and> handle_live r' n \<and> works_on r' n (op_of rq))"
proof -
  have "r_handles r (r_next r) = None" using RInv_fresh[OF assms(1)] by simp
  with assms(2,3) show ?thesis
    by (auto simp: spawn_def rstep_def handle_live_def works_on_def RInv_def rfresh_def tasks_ok_def handle_new_def attended_upd
        split: if_splits option.splits)
qed

lemma starts_null_arg [simp]: "starts op r (null_arg msg r)"
  by (simp add: starts_def null_arg_def rstep_same)

lemma starts_None [simp]: "starts op r (Inr (None, r))"
  by (simp add: starts_def)

lemma starts_ffi_start [ffi_starts]:
  assumes "RInv r" and "list_all (\<lambda>(x, k). r_res r x = Some k) xs"
    and "\<forall>x \<in> set (task_borrows rq). \<exists>k \<in> borrowable. r_res r x = Some k"
  shows "starts (op_of rq) r (ffi_start env r xs rq)"
proof (cases "spawn env r rq")
  case (Pair h r')
  note s = rstep_spawn[OF assms(1,3) Pair]
  show ?thesis using s assms(2) Pair by (cases h) (auto simp: starts_def ffi_start_def)
qed

lemma starts_tmp_val:
  assumes "r_tmp r x = Some (k, s)" and "starts op r (f s)"
  shows "starts op r (bnd (tmp_val k x r) f)"
  using assms by (simp add: tmp_val_def)

lemma starts_op: "RInv r \<Longrightarrow> list_all (\<lambda>(x, k). r_res r x = Some k) xs \<Longrightarrow>
    \<forall>x \<in> set (task_borrows rq). \<exists>k \<in> borrowable. r_res r x = Some k \<Longrightarrow> op_of rq = op \<Longrightarrow> starts op r (ffi_start env r xs rq)"
  using starts_ffi_start by blast

lemmas borrow_simps = borrowable_def starts_op

lemma starts_endpoint_create [ffi_starts]:
  "RInv r \<Longrightarrow> starts IROH_OP_ENDPOINT_CREATE r (iroh_endpoint_create env r cf)"
  by (simp add: iroh_endpoint_create_def borrow_simps)

lemma starts_endpoint_ops [ffi_starts]:
  assumes "RInv r" and "\<And>e. ep = Some e \<Longrightarrow> r_res r e = Some KEndpoint"
  shows "starts IROH_OP_ENDPOINT_ACCEPT r (iroh_endpoint_accept env r ep)"
    and "starts IROH_OP_ENDPOINT_WAIT_ONLINE r (iroh_endpoint_wait_online env r ep)"
    and "starts IROH_OP_GOSSIP_CREATE r (iroh_gossip_create_with_router env r ep)"
    and "starts IROH_OP_BLOBS_CREATE r (iroh_blobs_create_with_router env r ep)"
    and "starts IROH_OP_BLOBS_CREATE r (iroh_blobs_create_with_router_persistent env r ep path)"
    and "starts IROH_OP_DOCS_CREATE r (iroh_docs_create_with_router env r ep)"
    and "starts IROH_OP_DOCS_CREATE r (iroh_docs_create_with_router_persistent env r ep path)"
  using assms
  by (auto simp: iroh_endpoint_accept_def iroh_endpoint_wait_online_def
      iroh_gossip_create_with_router_def iroh_blobs_create_with_router_def
      iroh_blobs_create_with_router_persistent_def iroh_docs_create_with_router_def
      iroh_docs_create_with_router_persistent_def borrow_simps split: option.splits)

lemma starts_endpoint_connect [ffi_starts]:
  assumes "RInv r" and "\<And>e. ep = Some e \<Longrightarrow> r_res r e = Some KEndpoint"
    and "\<And>x. ad = Some x \<Longrightarrow> \<exists>s. r_tmp r x = Some (TEndpointAddr, s)"
  shows "starts IROH_OP_CONNECT r (iroh_endpoint_connect env r ep ad alpn)"
  using assms
  by (auto simp: iroh_endpoint_connect_def borrow_simps tmp_val_def split: option.splits prod.splits)

lemma starts_connection_ops [ffi_starts]:
  assumes "RInv r" and "\<And>e. cn = Some e \<Longrightarrow> r_res r e = Some KConnection"
  shows "starts IROH_OP_OPEN_BI r (iroh_connection_open_bi env r cn)"
    and "starts IROH_OP_ACCEPT_BI r (iroh_connection_accept_bi env r cn)"
    and "starts IROH_OP_RECV_DATAGRAM r (iroh_connection_recv_datagram env r cn)"
  using assms
  by (auto simp: iroh_connection_open_bi_def iroh_connection_accept_bi_def
      iroh_connection_recv_datagram_def borrow_simps split: option.splits)

lemma starts_stream_ops [ffi_starts]:
  assumes "RInv r"
  shows "(\<And>e. s = Some e \<Longrightarrow> r_res r e = Some KSendStream) \<Longrightarrow> starts IROH_OP_STREAM_WRITE r (iroh_send_stream_write env r s d)"
    and "(\<And>e. s = Some e \<Longrightarrow> r_res r e = Some KRecvStream) \<Longrightarrow> starts IROH_OP_STREAM_READ r (iroh_recv_stream_read env r s m)"
  using assms
  by (auto simp: iroh_send_stream_write_def iroh_recv_stream_read_def borrow_simps split: option.splits)

lemma starts_topic_ops [ffi_starts]:
  assumes "RInv r" and "\<And>e. t = Some e \<Longrightarrow> r_res r e = Some KGossipTopic"
  shows "starts IROH_OP_GOSSIP_BROADCAST r (iroh_gossip_broadcast env r t d)" and "starts IROH_OP_GOSSIP_RECV r (iroh_gossip_recv env r t)"
  using assms
  by (auto simp: iroh_gossip_broadcast_def iroh_gossip_recv_def borrow_simps split: option.splits)

lemma tmp_vals_Inr:
  "\<forall>x \<in> set xs. \<exists>s. r_tmp r x = Some (k, s) \<Longrightarrow> \<exists>ss. tmp_vals k xs r = Inr ss"
  by (induction xs) (auto simp: tmp_val_def)

lemma starts_gossip_subscribe [ffi_starts]:
  assumes "RInv r" and "r_res r g = Some KGossip" and "r_tmp r t = Some (TTopicId, s)"
    and "\<forall>x \<in> set peers. \<exists>s. r_tmp r x = Some (TPublicKey, s)"
  shows "starts IROH_OP_GOSSIP_SUBSCRIBE r (iroh_gossip_subscribe env r (Some g) (Some t) peers)"
  using tmp_vals_Inr[OF assms(4)] assms(1-3)
  by (auto simp: iroh_gossip_subscribe_def tmp_val_def borrow_simps)

lemma starts_blob_ops [ffi_starts]:
  assumes "RInv r" and "r_res r s = Some KBlobStore"
  shows "starts IROH_OP_BLOBS_ADD_BYTES r (iroh_blobs_add_bytes env r (Some s) d)"
    and "starts IROH_OP_BLOBS_ADD_FILE r (iroh_blobs_add_file env r (Some s) path)"
    and "r_tmp r x = Some (TBlobHash, hs) \<Longrightarrow> starts IROH_OP_BLOBS_READ r (iroh_blobs_read env r (Some s) (Some x))"
  using assms
  by (auto simp: iroh_blobs_add_bytes_def iroh_blobs_add_file_def iroh_blobs_read_def tmp_val_def
      borrow_simps)

lemma starts_blobs_download [ffi_starts]:
  assumes "RInv r" and "r_res r b = Some KBlobsProtocol"
    and "\<And>e. ep = Some e \<Longrightarrow> r_res r e = Some KEndpoint" and "r_tmp r t = Some (TBlobTicket, s)"
  shows "starts IROH_OP_BLOBS_DOWNLOAD r (iroh_blobs_download env r (Some b) ep (Some t))"
  using assms by (auto simp: iroh_blobs_download_def tmp_val_def borrow_simps split: option.splits)

lemma starts_docs_ops [ffi_starts]:
  assumes "RInv r" and "r_res r d = Some KDocs"
  shows "starts IROH_OP_DOCS_CREATE_AUTHOR r (iroh_docs_create_author env r (Some d))"
    and "starts IROH_OP_DOCS_CREATE_DOC r (iroh_docs_create_doc env r (Some d))"
    and "r_tmp r t = Some (TDocTicket, s) \<Longrightarrow> starts IROH_OP_DOCS_JOIN r (iroh_docs_join env r (Some d) (Some t))"
  using assms
  by (auto simp: iroh_docs_create_author_def iroh_docs_create_doc_def iroh_docs_join_def tmp_val_def
      borrow_simps)

lemma starts_docs_ns_ops [ffi_starts]:
  assumes "RInv r" and "r_res r d = Some KDocs" and "r_tmp r n = Some (TNamespaceId, s)"
  shows "starts IROH_OP_DOCS_GET_LATEST r (iroh_docs_get_latest env r (Some d) (Some n) key)"
    and "starts IROH_OP_DOCS_GET_ALL r (iroh_docs_get_all env r (Some d) (Some n))"
    and "(\<And>e. ep = Some e \<Longrightarrow> r_res r e = Some KEndpoint) \<Longrightarrow>
           starts IROH_OP_DOCS_CREATE_TICKET r (iroh_docs_create_ticket env r (Some d) (Some n) ep)"
  using assms
  by (auto simp: iroh_docs_get_latest_def iroh_docs_get_all_def iroh_docs_create_ticket_def tmp_val_def
      borrow_simps split: option.splits)

lemma starts_docs_author_ops [ffi_starts]:
  assumes "RInv r" and "r_res r d = Some KDocs" and "r_tmp r n = Some (TNamespaceId, s)"
    and "r_tmp r a = Some (TAuthorId, t)"
  shows "starts IROH_OP_DOCS_SET r (iroh_docs_set env r (Some d) (Some n) (Some a) key val)"
    and "starts IROH_OP_DOCS_SET r (iroh_docs_set_multi env r (Some d) (Some n) (Some a) es)"
    and "starts IROH_OP_DOCS_GET r (iroh_docs_get env r (Some d) (Some n) (Some a) key)"
    and "starts IROH_OP_DOCS_DELETE r (iroh_docs_delete env r (Some d) (Some n) (Some a) key)"
  using assms
  by (auto simp: iroh_docs_set_def iroh_docs_set_multi_def iroh_docs_get_def iroh_docs_delete_def
      tmp_val_def borrow_simps)

section \<open>Taking a result\<close>

text \<open>
  The promises of the getters, for a handle C still holds: a long-lived object comes out new and
  of the right kind, a short-lived one is recorded in \<open>r_tmp\<close>, a value leaves no trace.
\<close>

definition gets_box :: "rkind \<Rightarrow> rust \<Rightarrow> fault + rid option \<times> rust \<Rightarrow> bool" where
  "gets_box k r m \<longleftrightarrow>
     safe m (\<lambda>(x, r'). rstep r r' \<and> r_tmp r' = r_tmp r
       \<and> (\<forall>n. x = Some n \<longrightarrow> r_next r \<le> n \<and> r_res r' n = Some k))"

definition tmp_added :: "tkind \<Rightarrow> rid option \<Rightarrow> rust \<Rightarrow> rust \<Rightarrow> bool" where
  "tmp_added k x r r' \<longleftrightarrow>
     rstep r r' \<and>
     (case x of None \<Rightarrow> r_tmp r' = r_tmp r
      | Some n \<Rightarrow> r_next r \<le> n \<and> (\<exists>s. r_tmp r' = (r_tmp r)(n \<mapsto> (k, s))))"

definition gets :: "rust \<Rightarrow> fault + 'a \<times> rust \<Rightarrow> bool" where
  "gets r m \<longleftrightarrow> safe m (\<lambda>(x, r'). rstep r r' \<and> r_tmp r' = r_tmp r)"

named_theorems ffi_gets \<open>the result getters and synchronous calls of the Rust interface\<close>

lemma rstep_box_into_raw:
  assumes "RInv r" and "box_into_raw k r = (i, r')"
  shows "rstep r r' \<and> r_tmp r' = r_tmp r \<and> r_next r \<le> i \<and> r_res r' i = Some k"
proof -
  have "r_res r (r_next r) = None" using RInv_fresh[OF assms(1)] by simp
  with assms show ?thesis
    by (fastforce simp: box_into_raw_def rstep_def handle_live_def works_on_def RInv_def rfresh_def tasks_ok_def)
qed

lemma tmp_added_into_raw:
  assumes "RInv r" and "tmp_into_raw k s r = (i, r')"
  shows "tmp_added k (Some i) r r'"
proof -
  have "r_tmp r (r_next r) = None" using RInv_fresh[OF assms(1)] by simp
  with assms show ?thesis
    by (auto simp: tmp_added_def tmp_into_raw_def rstep_def handle_live_def works_on_def RInv_def rfresh_def
        tasks_ok_def)
qed

lemma rstep_RInv: "rstep r r' \<Longrightarrow> RInv r \<Longrightarrow> RInv r'"
  by (simp add: rstep_def)

lemma rstep_next: "rstep r r' \<Longrightarrow> r_next r \<le> r_next r'"
  by (simp add: rstep_def)

lemma gets_box_rstep:
  assumes "rstep r s" and "r_tmp s = r_tmp r" and "gets_box k s m"
  shows "gets_box k r m"
  using assms by (fastforce simp: gets_box_def dest: rstep_trans rstep_next elim!: safe_mono)

lemma tmp_added_rstep:
  assumes "rstep r s" and "r_tmp s = r_tmp r" and "tmp_added k x s r'"
  shows "tmp_added k x r r'"
  using assms rstep_next[of r s] by (auto simp: tmp_added_def dest: rstep_trans split: option.splits)

lemma gets_box_into_raw:
  "RInv r \<Longrightarrow> gets_box k r (case box_into_raw k r of (i, r') \<Rightarrow> Inr (Some i, r'))"
  using rstep_box_into_raw[of r k] by (auto simp: gets_box_def split: prod.splits)

lemma gets_box_None: "rstep r r' \<Longrightarrow> r_tmp r' = r_tmp r \<Longrightarrow> gets_box k r (Inr (None, r'))"
  by (simp add: gets_box_def)

lemma take_result_live:
  assumes "handle_live r h"
  obtains x r' where "take_result f r h = Inr (x, r')" and "rstep r r'" and "r_tmp r' = r_tmp r"
proof -
  obtain ah where "r_handles r h = Some ah" "h_cref ah" "get_handle r h = Inr ah"
    using get_handle_live[OF assms] by auto
  moreover have "rstep r (put_handle h (ah\<lparr>h_result := None\<rparr>) r)"
    by (rule rstep_put_handle[OF calculation(1)]) simp_all
  ultimately show ?thesis
    by (intro that[of _ "put_handle h (ah\<lparr>h_result := None\<rparr>) r"]) (simp_all add: take_result_def)
qed

lemma gets_take_boxed:
  assumes "RInv r" and "handle_live r h"
  shows "gets_box k r (take_boxed v k r (Some h))"
proof -
  obtain x r' where r': "take_result (\<lambda>x. if x = v then Some () else None) r h = Inr (x, r')"
    "rstep r r'" "r_tmp r' = r_tmp r"
    using take_result_live[OF assms(2)] .
  have "gets_box k r' (case x of None \<Rightarrow> Inr (None, r')
      | Some _ \<Rightarrow> (case box_into_raw k r' of (i, r'') \<Rightarrow> Inr (Some i, r'')))"
    using gets_box_into_raw[OF rstep_RInv[OF r'(2) assms(1)], of k]
    by (cases x) (simp_all add: gets_box_None)
  from gets_box_rstep[OF r'(2,3) this] r'(1) show ?thesis by (simp add: take_boxed_def)
qed

lemma gets_split_boxed:
  assumes "RInv r" and "handle_live r h"
  shows "gets_box k r (split_boxed chk v rest k r (Some h))"
proof -
  obtain ah where ah: "r_handles r h = Some ah" "h_cref ah" "get_handle r h = Inr ah"
    using get_handle_live[OF assms(2)] by auto
  let ?s = "\<lambda>v. put_handle h (ah\<lparr>h_result := v\<rparr>) r"
  have s: "rstep r (?s v)" for v by (rule rstep_put_handle[OF ah(1)]) simp_all
  have "gets_box k r (case box_into_raw k (?s (Some rest)) of (i, r') \<Rightarrow> Inr (Some i, r'))"
    by (rule gets_box_rstep[OF s _ gets_box_into_raw[OF rstep_RInv[OF s assms(1)]]]) simp
  moreover have "gets_box k r (Inr (None, ?s None))" by (rule gets_box_None[OF s]) simp
  moreover have "gets_box k r (Inr (None, r))" by (simp add: gets_box_None)
  ultimately show ?thesis using ah(3) by (simp add: split_boxed_def)
qed

lemma gets_boxed [ffi_gets]:
  assumes "RInv r" and "handle_live r h"
  shows "gets_box KEndpoint r (iroh_endpoint_create_result r (Some h))"
    and "gets_box KConnection r (iroh_connection_connect_result r (Some h))"
    and "gets_box KConnection r (iroh_connection_accept_result r (Some h))"
    and "gets_box KSendStream r (iroh_stream_open_bi_send_result r (Some h))"
    and "gets_box KRecvStream r (iroh_stream_open_bi_recv_result r (Some h))"
    and "gets_box KGossip r (iroh_gossip_from_router_result r (Some h))"
    and "gets_box KRouter r (iroh_router_from_gossip_result r (Some h))"
    and "gets_box KGossipTopic r (iroh_gossip_subscribe_result r (Some h))"
    and "gets_box KBlobStore r (iroh_blobs_store_from_router_result r (Some h))"
    and "gets_box KBlobsProtocol r (iroh_blobs_protocol_from_router_result r (Some h))"
    and "gets_box KRouter r (iroh_router_from_blobs_result r (Some h))"
    and "gets_box KDocs r (iroh_docs_from_router_result r (Some h))"
    and "gets_box KBlobStore r (iroh_blobs_store_from_docs_result r (Some h))"
    and "gets_box KRouter r (iroh_router_from_docs_result r (Some h))"
  using gets_take_boxed[OF assms] gets_split_boxed[OF assms]
  by (simp_all add: iroh_endpoint_create_result_def iroh_connection_connect_result_def
      iroh_connection_accept_result_def iroh_stream_open_bi_send_result_def
      iroh_stream_open_bi_recv_result_def iroh_gossip_from_router_result_def
      iroh_router_from_gossip_result_def iroh_gossip_subscribe_result_def
      iroh_blobs_store_from_router_result_def iroh_blobs_protocol_from_router_result_def
      iroh_router_from_blobs_result_def iroh_docs_from_router_result_def
      iroh_blobs_store_from_docs_result_def iroh_router_from_docs_result_def)

lemma tmp_added_None [simp]: "tmp_added k None r r' \<longleftrightarrow> rstep r r' \<and> r_tmp r' = r_tmp r"
  by (simp add: tmp_added_def)

lemma gets_take_tmp:
  assumes "RInv r" and "handle_live r h"
  shows "safe (take_tmp f k r (Some h)) (\<lambda>(x, r'). tmp_added k x r r')"
proof -
  obtain x r' where r': "take_result f r h = Inr (x, r')" "rstep r r'" "r_tmp r' = r_tmp r"
    using take_result_live[OF assms(2)] .
  show ?thesis
    using r' tmp_added_rstep[OF r'(2,3) tmp_added_into_raw[OF rstep_RInv[OF r'(2) assms(1)]]]
    by (cases x) (auto simp: take_tmp_def split: prod.splits)
qed

lemma gets_tmps [ffi_gets]:
  assumes "RInv r" and "handle_live r h"
  shows "safe (iroh_blobs_add_result r (Some h)) (\<lambda>(x, r'). tmp_added TBlobHash x r r')"
    and "safe (iroh_blobs_download_result r (Some h)) (\<lambda>(x, r'). tmp_added TBlobHash x r r')"
    and "safe (iroh_docs_create_author_result r (Some h)) (\<lambda>(x, r'). tmp_added TAuthorId x r r')"
    and "safe (iroh_docs_create_doc_result r (Some h)) (\<lambda>(x, r'). tmp_added TNamespaceId x r r')"
    and "safe (iroh_docs_join_result r (Some h)) (\<lambda>(x, r'). tmp_added TNamespaceId x r r')"
    and "safe (iroh_docs_create_ticket_result r (Some h)) (\<lambda>(x, r'). tmp_added TDocTicket x r r')"
  using gets_take_tmp[OF assms]
  by (simp_all add: iroh_blobs_add_result_def iroh_blobs_download_result_def
      iroh_docs_create_author_result_def iroh_docs_create_doc_result_def iroh_docs_join_result_def
      iroh_docs_create_ticket_result_def)

lemma gets_values [ffi_gets]:
  assumes "handle_live r h"
  shows "gets r (iroh_docs_get_result r (Some h))"
    and "gets r (iroh_docs_get_latest_result r (Some h))"
    and "gets r (iroh_blobs_read_result r (Some h))"
    and "gets r (iroh_connection_recv_datagram_result r (Some h))"
    and "gets r (iroh_recv_stream_read_result r (Some h))"
    and "gets r (iroh_docs_get_all_result r (Some h))"
proof -
  note live = take_result_live[OF assms]
  show 1: "gets r (iroh_docs_get_result r (Some h))"
    by (rule live[of as_bytes]) (auto simp: gets_def iroh_docs_get_result_def split: option.splits)
  then show "gets r (iroh_docs_get_latest_result r (Some h))"
    by (simp add: iroh_docs_get_latest_result_def)
  show "gets r (iroh_blobs_read_result r (Some h))"
    by (rule live[of as_bytes]) (auto simp: gets_def iroh_blobs_read_result_def split: option.splits)
  show "gets r (iroh_connection_recv_datagram_result r (Some h))"
    by (rule live[of as_bytes])
      (auto simp: gets_def iroh_connection_recv_datagram_result_def split: option.splits)
  show "gets r (iroh_recv_stream_read_result r (Some h))"
    by (rule live[of as_read])
      (auto simp: gets_def iroh_recv_stream_read_result_def split: option.splits)
  show "gets r (iroh_docs_get_all_result r (Some h))"
    by (rule live[of as_pairs]) (auto simp: gets_def iroh_docs_get_all_result_def split: option.splits)
qed

lemma gets_gossip_recv [ffi_gets]:
  assumes "RInv r" and "handle_live r h"
  shows "safe (iroh_gossip_recv_result r (Some h)) (\<lambda>(ev, r'). tmp_added TPublicKey (ge_peer ev) r r')"
proof -
  obtain x r' where r': "take_result as_event r h = Inr (x, r')" "rstep r r'" "r_tmp r' = r_tmp r"
    using take_result_live[OF assms(2)] .
  show ?thesis
    using r' tmp_added_rstep[OF r'(2,3) tmp_added_into_raw[OF rstep_RInv[OF r'(2) assms(1)]]]
    by (auto simp: iroh_gossip_recv_result_def split: prod.splits option.splits)
qed

section \<open>Synchronous calls\<close>

lemma tmp_added_from_string:
  "RInv r \<Longrightarrow> tmp_from_string env k s r = (x, r') \<Longrightarrow> tmp_added k x r r'"
  by (auto simp: tmp_from_string_def rstep_same tmp_added_into_raw split: sum.splits prod.splits)

lemma tmp_added_addr_from_string:
  "RInv r \<Longrightarrow> iroh_endpoint_addr_from_string env s r = (x, r') \<Longrightarrow> tmp_added TEndpointAddr x r r'"
  by (auto simp: iroh_endpoint_addr_from_string_def rstep_same tmp_added_into_raw
      split: sum.splits prod.splits)

lemma tmp_added_topic_id:
  "RInv r \<Longrightarrow> iroh_topic_id_from_name env s r = (x, r') \<Longrightarrow> tmp_added TTopicId x r r'"
  by (auto simp: iroh_topic_id_from_name_def tmp_added_into_raw split: prod.splits)

lemma gets_endpoint_info [ffi_gets]:
  assumes "RInv r" and "\<And>e. ep = Some e \<Longrightarrow> r_res r e = Some KEndpoint"
  shows "safe (iroh_endpoint_id env r ep) (\<lambda>(x, r'). tmp_added TPublicKey x r r')"
    and "safe (iroh_endpoint_addr env r ep) (\<lambda>(x, r'). tmp_added TEndpointAddr x r r')"
    and "safe (iroh_endpoint_secret_key env r ep) (\<lambda>_. True)"
    and "r_tmp r y = Some (TBlobHash, hs) \<Longrightarrow>
      safe (iroh_blobs_create_ticket env r ep (Some y)) (\<lambda>(x, r'). tmp_added TBlobTicket x r r')"
  using assms
  by (auto simp: iroh_endpoint_id_def iroh_endpoint_addr_def iroh_endpoint_secret_key_def
      iroh_blobs_create_ticket_def deref_res_def tmp_val_def tmp_added_into_raw rstep_same
      split: option.splits prod.splits)

lemma gets_connection_info [ffi_gets]:
  assumes "RInv r" and "r_res r cn = Some KConnection"
  shows "safe (iroh_connection_remote_id env r (Some cn)) (\<lambda>(x, r'). tmp_added TPublicKey x r r')"
    and "safe (iroh_connection_alpn env r (Some cn)) (\<lambda>_. True)"
    and "gets r (iroh_connection_send_datagram env r (Some cn) d)"
  using assms
  by (auto simp: iroh_connection_remote_id_def iroh_connection_alpn_def gets_def
      iroh_connection_send_datagram_def deref_res_def tmp_added_into_raw rstep_same
      split: option.splits prod.splits)

lemma tmp_free_added:
  assumes "RInv r" and "tmp_added k x r s" and "r_tmp t = r_tmp s"
  obtains t' where "tmp_free k x t = Inr t'" and "r_tmp t' = r_tmp r"
    and "x = None \<Longrightarrow> t' = t" and "t' = t\<lparr>r_tmp := r_tmp r\<rparr>"
proof (cases x)
  case None
  with assms show ?thesis by (intro that) (auto simp: tmp_free_def)
next
  case (Some n)
  with assms(2) obtain v where n: "r_next r \<le> n" "r_tmp s = (r_tmp r)(n \<mapsto> (k, v))"
    by (auto simp: tmp_added_def)
  moreover have "(r_tmp r)(n := None) = r_tmp r"
    using RInv_fresh(3)[OF assms(1) n(1)] by auto
  ultimately show ?thesis
    using Some assms(3) by (intro that) (auto simp: tmp_free_def)
qed

end
