(* ===== verification/Invariant.thy ===== *)
theory Invariant
  imports Ownership
begin

text \<open>
  The invariant of the whole module, on a view of the state that keeps what memory safety depends
  on: per context its object, type, parent, closed bit, pending list and the Rust objects it
  owns; the operations and events in flight; which objects have an \<open>_events\<close> table and which
  context they point to; the Rust side. The state changes of the module act on this view as
  plain updates.
\<close>

section \<open>The view\<close>

fun res_of :: "RPIROH \<Rightarrow> rkind \<Rightarrow> rid option" where
  "res_of c KEndpoint = endpoint c"
| "res_of c KConnection = conn_p c"
| "res_of c KSendStream = send_p c"
| "res_of c KRecvStream = recv_p c"
| "res_of c KGossip = gossip_p c"
| "res_of c KGossipTopic = topic_handle c"
| "res_of c KBlobStore = blob_store c"
| "res_of c KBlobsProtocol = blobs_proto c"
| "res_of c KDocs = docs_p c"
| "res_of c KRouter = router c"

record cv =
  v_this :: objid
  v_ty :: iroh_obj_type
  v_par :: "addr option"
  v_closed :: bool
  v_pend :: "opaddr list"
  v_pok :: bool
  v_res :: "rkind \<Rightarrow> rid option"

definition core :: "RPIROH \<Rightarrow> cv" where
  "core c = \<lparr>v_this = thisptr c, v_ty = obj_type c, v_par = parent c,
     v_closed = has_flag (flags c) RPIROH_FLAG_CLOSED, v_pend = pending c, v_pok = pending_ok c,
     v_res = res_of c\<rparr>"

record vw =
  vc :: "addr \<Rightarrow> cv option"
  vo :: "opaddr \<Rightarrow> RPIROH_ASYNC option"
  ve :: "evid \<Rightarrow> bool"
  vn :: nat
  vobj :: "objid \<Rightarrow> (bool \<times> addr option) option"
  vno :: objid
  vr :: rust

definition oview :: "jsobj \<Rightarrow> bool \<times> addr option" where
  "oview ob = (o_events ob \<noteq> None, o_ictx ob)"

definition view :: "world \<Rightarrow> vw" where
  "view w = \<lparr>vc = (\<lambda>a. map_option core (w_ctxs w a)), vo = w_ops w, ve = w_evs w, vn = w_next w,
     vobj = (\<lambda>i. map_option oview (w_objs w i)), vno = w_nextobj w, vr = w_rust w\<rparr>"

lemma view_sel [simp]:
  "vc (view w) a = map_option core (w_ctxs w a)" "vo (view w) = w_ops w" "ve (view w) = w_evs w"
  "vn (view w) = w_next w" "vobj (view w) i = map_option oview (w_objs w i)"
  "vno (view w) = w_nextobj w" "vr (view w) = w_rust w"
  by (simp_all add: view_def)

lemma core_sel [simp]:
  "v_this (core c) = thisptr c" "v_ty (core c) = obj_type c" "v_par (core c) = parent c"
  "v_closed (core c) = has_flag (flags c) RPIROH_FLAG_CLOSED" "v_pend (core c) = pending c"
  "v_pok (core c) = pending_ok c" "v_res (core c) = res_of c"
  by (simp_all add: core_def)

lemma view_upd_obj:
  assumes "\<And>ob. oview (f ob) = oview ob"
  shows "view (upd_obj i f w) = view w"
  using assms by (auto simp: view_def upd_obj_def option.map_comp comp_def fun_eq_iff
      intro!: option.map_cong)

lemma view_inert [simp]:
  "view (log x w) = view w" "view (upd_fn g h w) = view w"
  "view (w\<lparr>w_evcb_id := n\<rparr>) = view w" "view (w\<lparr>w_this_id := n\<rparr>) = view w"
  "view (w\<lparr>w_stash := st\<rparr>) = view w" "view (w\<lparr>w_is_init := b\<rparr>) = view w"
  by (simp_all add: view_def log_def upd_fn_def)

lemma view_rust [simp]: "view (w\<lparr>w_rust := r\<rparr>) = (view w)\<lparr>vr := r\<rparr>"
  by (simp add: view_def)

lemma view_put_prop [simp]: "view (put_prop i k v w) = view w"
  unfolding put_prop_def by (rule view_upd_obj) (simp add: oview_def)

lemma view_put_listeners [simp]: "view (put_listeners i ev t w) = view w"
  unfolding put_listeners_def by (rule view_upd_obj) (simp add: oview_def)

lemma view_put_ctx [simp]:
  "view (put_ctx a c w) = (view w)\<lparr>vc := (vc (view w))(a \<mapsto> core c)\<rparr>"
  by (auto simp: view_def put_ctx_def)

lemma view_gs [simp]:
  "view (snd (iroh_put_gs_object s k v w)) = view w" "view (snd (iroh_del_gs_object s k w)) = view w"
  by (auto simp: iroh_put_gs_object_def iroh_del_gs_object_def view_upd_obj oview_def
      split: option.splits jsval.splits gsval.splits)

lemma view_gc_protect [simp]: "view (gc_protect i k w) = view w"
  by (simp add: gc_protect_def)

section \<open>The invariant\<close>

text \<open>
  The types of context that \<open>close()\<close> may be called on while anything is in flight. Contexts of
  the other types are stable: they live as long as the program.
\<close>

definition stable :: "iroh_obj_type \<Rightarrow> bool" where
  "stable ty \<longleftrightarrow> ty \<noteq> IROH_OBJ_BLOBS \<and> ty \<noteq> IROH_OBJ_DOCS"

fun kinds :: "iroh_obj_type \<Rightarrow> rkind set" where
  "kinds IROH_OBJ_ENDPOINT = {KEndpoint}"
| "kinds IROH_OBJ_CONNECTION = {KConnection}"
| "kinds IROH_OBJ_STREAM = {KSendStream, KRecvStream}"
| "kinds IROH_OBJ_GOSSIP = {KRouter, KGossip}"
| "kinds IROH_OBJ_GOSSIP_TOPIC = {KGossipTopic}"
| "kinds IROH_OBJ_BLOBS = {KRouter, KBlobsProtocol, KBlobStore}"
| "kinds IROH_OBJ_DOCS = {KRouter, KDocs, KBlobStore}"

text \<open>The types of context each operation may be pending on.\<close>

fun op_tys :: "iroh_op_type \<Rightarrow> iroh_obj_type set" where
  "op_tys IROH_OP_ENDPOINT_CREATE = {IROH_OBJ_ENDPOINT}"
| "op_tys IROH_OP_ENDPOINT_WAIT_ONLINE = {IROH_OBJ_ENDPOINT}"
| "op_tys IROH_OP_ENDPOINT_CLOSE = {}"
| "op_tys IROH_OP_ENDPOINT_ACCEPT = {IROH_OBJ_ENDPOINT}"
| "op_tys IROH_OP_CONNECT = {IROH_OBJ_ENDPOINT}"
| "op_tys IROH_OP_OPEN_BI = {IROH_OBJ_CONNECTION}"
| "op_tys IROH_OP_ACCEPT_BI = {IROH_OBJ_CONNECTION}"
| "op_tys IROH_OP_STREAM_READ = {IROH_OBJ_STREAM}"
| "op_tys IROH_OP_STREAM_WRITE = {IROH_OBJ_STREAM}"
| "op_tys IROH_OP_RECV_DATAGRAM = {IROH_OBJ_CONNECTION}"
| "op_tys IROH_OP_GOSSIP_CREATE = {IROH_OBJ_GOSSIP}"
| "op_tys IROH_OP_GOSSIP_SUBSCRIBE = {IROH_OBJ_GOSSIP_TOPIC}"
| "op_tys IROH_OP_GOSSIP_BROADCAST = {IROH_OBJ_GOSSIP_TOPIC}"
| "op_tys IROH_OP_GOSSIP_RECV = {IROH_OBJ_GOSSIP_TOPIC}"
| "op_tys IROH_OP_BLOBS_CREATE = {IROH_OBJ_BLOBS}"
| "op_tys IROH_OP_BLOBS_ADD_BYTES = {IROH_OBJ_BLOBS, IROH_OBJ_DOCS}"
| "op_tys IROH_OP_BLOBS_ADD_FILE = {IROH_OBJ_BLOBS, IROH_OBJ_DOCS}"
| "op_tys IROH_OP_BLOBS_READ = {IROH_OBJ_BLOBS, IROH_OBJ_DOCS}"
| "op_tys IROH_OP_BLOBS_DOWNLOAD = {IROH_OBJ_BLOBS}"
| "op_tys IROH_OP_DOCS_CREATE = {IROH_OBJ_DOCS}"
| "op_tys IROH_OP_DOCS_CREATE_AUTHOR = {IROH_OBJ_DOCS}"
| "op_tys IROH_OP_DOCS_CREATE_DOC = {IROH_OBJ_DOCS}"
| "op_tys IROH_OP_DOCS_SET = {IROH_OBJ_DOCS}"
| "op_tys IROH_OP_DOCS_GET = {IROH_OBJ_DOCS}"
| "op_tys IROH_OP_DOCS_GET_LATEST = {IROH_OBJ_DOCS}"
| "op_tys IROH_OP_DOCS_GET_ALL = {IROH_OBJ_DOCS}"
| "op_tys IROH_OP_DOCS_DELETE = {IROH_OBJ_DOCS}"
| "op_tys IROH_OP_DOCS_CREATE_TICKET = {IROH_OBJ_DOCS}"
| "op_tys IROH_OP_DOCS_JOIN = {IROH_OBJ_DOCS}"

definition fresh_ok :: "vw \<Rightarrow> bool" where
  "fresh_ok v \<longleftrightarrow>
     (\<forall>a \<ge> vn v. vc v a = None \<and> vo v a = None \<and> \<not> ve v a) \<and> (\<forall>i \<ge> vno v. vobj v i = None)"

definition ctx_ok :: "vw \<Rightarrow> addr \<Rightarrow> cv \<Rightarrow> bool" where
  "ctx_ok v a k \<longleftrightarrow>
     v_pok k \<and> distinct (v_pend k)
     \<and> (\<forall>p \<in> set (v_pend k). \<exists>x. vo v p = Some x \<and> aop_ictx x = a)
     \<and> (\<exists>ic. vobj v (v_this k) = Some (True, ic))
     \<and> (stable (v_ty k) \<longrightarrow> \<not> v_closed k)
     \<and> (v_closed k \<longrightarrow> v_pend k = [] \<and> v_res k = (\<lambda>_. None))
     \<and> (\<forall>q. v_par k = Some q \<longrightarrow> (\<exists>kq. vc v q = Some kq \<and> stable (v_ty kq)))
     \<and> (\<forall>i x. v_res k i = Some x \<longrightarrow> r_res (vr v) x = Some i \<and> i \<in> kinds (v_ty k))"

definition op_ok :: "vw \<Rightarrow> opaddr \<Rightarrow> RPIROH_ASYNC \<Rightarrow> bool" where
  "op_ok v p x \<longleftrightarrow>
     (\<exists>k. vc v (aop_ictx x) = Some k \<and> p \<in> set (v_pend k) \<and> v_ty k \<in> op_tys (aop_op x))
     \<and> aop_ev x = Some p \<and> ve v p
     \<and> (\<exists>h. aop_handle x = Some h \<and> handle_live (vr v) h \<and> works_on (vr v) h (aop_op x))"

definition owners_ok :: "vw \<Rightarrow> bool" where
  "owners_ok v \<longleftrightarrow>
     (\<forall>a b k k' i j x. vc v a = Some k \<and> vc v b = Some k' \<and> v_res k i = Some x \<and> v_res k' j = Some x
        \<longrightarrow> a = b)"

definition handles_ok :: "vw \<Rightarrow> bool" where
  "handles_ok v \<longleftrightarrow>
     (\<forall>p q x y. vo v p = Some x \<and> vo v q = Some y \<and> aop_handle x = aop_handle y \<longrightarrow> p = q)"

definition objs_ok :: "vw \<Rightarrow> bool" where
  "objs_ok v \<longleftrightarrow>
     (\<forall>i b a. vobj v i = Some (b, Some a) \<longrightarrow>
        (\<exists>k. vc v a = Some k \<and> v_this k = i \<and> \<not> v_closed k))"

definition VInv :: "vw \<Rightarrow> bool" where
  "VInv v \<longleftrightarrow>
     fresh_ok v \<and> RInv (vr v)
     \<and> (\<forall>a k. vc v a = Some k \<longrightarrow> ctx_ok v a k) \<and> (\<forall>p x. vo v p = Some x \<longrightarrow> op_ok v p x)
     \<and> owners_ok v \<and> handles_ok v \<and> (\<forall>e. ve v e \<longrightarrow> vo v e \<noteq> None) \<and> objs_ok v"

definition Inv :: "world \<Rightarrow> bool" where
  "Inv w \<longleftrightarrow> VInv (view w)"

text \<open>
  What a callback may rely on and must leave: stable contexts stay, contexts being closed stay
  closed until their \<open>iroh_cleanup\<close> is done, objects stay, no short-lived Rust object is leaked
  or released, and an operation that has been released stays so.
\<close>

definition ctx_ext :: "vw \<Rightarrow> vw \<Rightarrow> bool" where
  "ctx_ext v v' \<longleftrightarrow>
     (\<forall>a k. vc v a = Some k \<and> (stable (v_ty k) \<or> v_closed k) \<longrightarrow>
        (\<exists>k'. vc v' a = Some k' \<and> v_this k' = v_this k \<and> v_ty k' = v_ty k \<and>
           (v_closed k \<longrightarrow> v_closed k')))
     \<and> (\<forall>i. vobj v i \<noteq> None \<longrightarrow> vobj v' i \<noteq> None)
     \<and> vn v \<le> vn v' \<and> (\<forall>p < vn v. vo v p = None \<longrightarrow> vo v' p = None)"

definition ext :: "world \<Rightarrow> world \<Rightarrow> bool" where
  "ext w w' \<longleftrightarrow> ctx_ext (view w) (view w') \<and> r_tmp (w_rust w') = r_tmp (w_rust w)"

lemma ctx_ext_refl [simp]: "ctx_ext v v"
  by (auto simp: ctx_ext_def)

lemma ctx_extD:
  assumes "ctx_ext v v'" and "vc v a = Some k" and "stable (v_ty k) \<or> v_closed k"
  obtains k' where "vc v' a = Some k'" and "v_this k' = v_this k" and "v_ty k' = v_ty k"
    and "v_closed k \<longrightarrow> v_closed k'"
  using assms unfolding ctx_ext_def by blast

lemma ctx_ext_trans:
  assumes "ctx_ext u v" and "ctx_ext v t"
  shows "ctx_ext u t"
  unfolding ctx_ext_def
proof (intro conjI allI impI, elim conjE)
  fix a k
  assume k: "vc u a = Some k" "stable (v_ty k) \<or> v_closed k"
  obtain l where l: "vc v a = Some l" "v_this l = v_this k" "v_ty l = v_ty k"
    "v_closed k \<longrightarrow> v_closed l"
    using ctx_extD[OF assms(1) k] .
  with k(2) have "stable (v_ty l) \<or> v_closed l" by auto
  from ctx_extD[OF assms(2) l(1) this] l k(2)
  show "\<exists>k'. vc t a = Some k' \<and> v_this k' = v_this k \<and> v_ty k' = v_ty k \<and> (v_closed k \<longrightarrow> v_closed k')"
    by metis
qed (use assms in \<open>auto simp: ctx_ext_def\<close>)

lemma ext_refl [simp]: "ext w w"
  by (simp add: ext_def)

lemma ext_trans: "ext u v \<Longrightarrow> ext v t \<Longrightarrow> ext u t"
  by (auto simp: ext_def intro: ctx_ext_trans)

lemma view_Inv: "view w' = view w \<Longrightarrow> Inv w' = Inv w"
  by (simp add: Inv_def)

lemma view_ext: "view w' = view w \<Longrightarrow> ext w w'"
  by (metis ctx_ext_refl ext_def view_sel(7))

section \<open>State changes on the view\<close>

lemmas VInv_parts = VInv_def fresh_ok_def owners_ok_def handles_ok_def objs_ok_def

lemma VInv_ctx: "VInv v \<Longrightarrow> vc v a = Some k \<Longrightarrow> ctx_ok v a k"
  by (simp add: VInv_def)

lemma VInv_op: "VInv v \<Longrightarrow> vo v p = Some x \<Longrightarrow> op_ok v p x"
  by (simp add: VInv_def)

lemma VInv_RInv: "VInv v \<Longrightarrow> RInv (vr v)"
  by (simp add: VInv_def)

definition unowned :: "vw \<Rightarrow> rid \<Rightarrow> bool" where
  "unowned v x \<longleftrightarrow> (\<forall>a k i. vc v a = Some k \<longrightarrow> v_res k i \<noteq> Some x)"

definition unused :: "vw \<Rightarrow> hid \<Rightarrow> bool" where
  "unused v h \<longleftrightarrow> (\<forall>q y. vo v q = Some y \<longrightarrow> aop_handle y \<noteq> Some h)"

lemma VInv_rust:
  assumes "VInv v" and "rstep (vr v) r"
  shows "VInv (v\<lparr>vr := r\<rparr>)"
proof -
  have "ctx_ok (v\<lparr>vr := r\<rparr>) a k" if "ctx_ok v a k" for a k
    using that rstep_res[OF assms(2)] by (simp add: ctx_ok_def)
  moreover have "op_ok (v\<lparr>vr := r\<rparr>) p x" if "op_ok v p x" for p x
    using that rstep_live[OF assms(2)] rstep_works_on[OF assms(2)] by (auto simp: op_ok_def)
  ultimately show ?thesis
    using assms rstep_RInv[OF assms(2)] by (simp add: VInv_parts)
qed

lemma unowned_fresh: "VInv v \<Longrightarrow> r_next (vr v) \<le> x \<Longrightarrow> unowned v x"
  using RInv_fresh(2)[OF VInv_RInv, of v x] by (force simp: unowned_def ctx_ok_def dest: VInv_ctx)

lemma unused_fresh: "VInv v \<Longrightarrow> r_next (vr v) \<le> h \<Longrightarrow> unused v h"
  using RInv_fresh(1)[OF VInv_RInv, of v h]
  by (force simp: unused_def op_ok_def handle_live_def dest: VInv_op)

lemma ctx_ext_vr [simp]: "ctx_ext v (u\<lparr>vr := r\<rparr>) \<longleftrightarrow> ctx_ext v u" "ctx_ext (v\<lparr>vr := r\<rparr>) u \<longleftrightarrow> ctx_ext v u"
  by (simp_all add: ctx_ext_def)

lemma VInv_objs: "VInv v \<Longrightarrow> vobj v i = Some (b, Some a) \<Longrightarrow> \<exists>k. vc v a = Some k \<and> v_this k = i \<and> \<not> v_closed k"
  unfolding VInv_def objs_ok_def by blast

lemma objs_ok_upd:
  assumes "VInv v" and "vc v a = Some k" and "v_this k' = v_this k" and "v_closed k' = v_closed k"
    and "vobj v' = vobj v" and "vc v' = (vc v)(a \<mapsto> k')"
  shows "objs_ok v'"
  unfolding objs_ok_def
proof (intro allI impI)
  fix i b c
  assume "vobj v' i = Some (b, Some c)"
  then obtain l where "vc v c = Some l" "v_this l = i" "\<not> v_closed l"
    using VInv_objs[OF assms(1)] assms(5) by metis
  with assms show "\<exists>k. vc v' c = Some k \<and> v_this k = i \<and> \<not> v_closed k"
    by (cases "c = a") auto
qed

lemma fresh_ok_upd:
  assumes "VInv v" and "vc v a = Some k" and "vc v' = (vc v)(a \<mapsto> k')" and "vn v' = vn v"
    and "\<And>p. vo v p = None \<Longrightarrow> vo v' p = None" "\<And>p. ve v' p \<Longrightarrow> ve v p"
    and "vobj v' = vobj v" and "vno v' = vno v"
  shows "fresh_ok v'"
  using assms unfolding VInv_def fresh_ok_def by (metis fun_upd_apply option.discI)

text \<open>A context gets a Rust object, or loses its pointer to one.\<close>

lemma VInv_set_res:
  assumes inv: "VInv v" and a: "vc v a = Some k" "\<not> v_closed k"
    and y: "\<And>x. y = Some x \<Longrightarrow> r_res (vr v) x = Some i \<and> unowned v x" and i: "i \<in> kinds (v_ty k)"
  shows "VInv (v\<lparr>vc := (vc v)(a \<mapsto> k\<lparr>v_res := (v_res k)(i := y)\<rparr>)\<rparr>)"
    (is "VInv ?v")
proof -
  have k: "ctx_ok v a k" by (rule VInv_ctx[OF inv a(1)])
  have "ctx_ok ?v b l" if "vc ?v b = Some l" for b l
  proof (cases "b = a")
    case True
    with that a have l: "l = k\<lparr>v_res := (v_res k)(i := y)\<rparr>" by simp
    show ?thesis using k a y i unfolding l True by (auto simp: ctx_ok_def)
  next
    case False
    with that have "ctx_ok v b l" by (auto intro: VInv_ctx[OF inv])
    then show ?thesis using a by (auto simp: ctx_ok_def)
  qed
  moreover have "op_ok ?v p x" if "vo v p = Some x" for p x
    using VInv_op[OF inv that] a by (auto simp: op_ok_def)
  moreover have "owners_ok ?v"
    using inv a y unfolding VInv_def owners_ok_def unowned_def
    by (auto split: if_splits) metis+
  moreover have "objs_ok ?v" by (rule objs_ok_upd[OF inv a(1)]) simp_all
  moreover have "fresh_ok ?v" by (rule fresh_ok_upd[OF inv a(1)]) simp_all
  moreover have "handles_ok ?v" using inv by (simp add: VInv_def handles_ok_def)
  ultimately show ?thesis using inv by (simp add: VInv_def)
qed

text \<open>An operation is added to the table of a context.\<close>

lemma VInv_add_op:
  assumes inv: "VInv v" and a: "vc v a = Some k" "\<not> v_closed k" and p: "p = vn v"
    and h: "handle_live (vr v) h" "unused v h" "works_on (vr v) h op" and ty: "v_ty k \<in> op_tys op"
    and x: "x = \<lparr>aop_ictx = a, aop_handle = Some h, aop_op = op, aop_ev = Some p, aop_aux = aux\<rparr>"
  shows "VInv (v\<lparr>vc := (vc v)(a \<mapsto> k\<lparr>v_pend := v_pend k @ [p], v_pok := True\<rparr>),
     vo := (vo v)(p \<mapsto> x), ve := (ve v)(p := True), vn := Suc p\<rparr>)" (is "VInv ?v")
proof -
  have new: "vo v p = None" "\<not> ve v p" "vc v p = None"
    using inv p by (auto simp: VInv_def fresh_ok_def)
  have "p \<notin> set (v_pend l)" if "vc v b = Some l" for b l
    using VInv_ctx[OF inv that] new by (auto simp: ctx_ok_def)
  note new = new this
  have "ctx_ok ?v b l" if "vc ?v b = Some l" for b l
  proof (cases "b = a")
    case True
    with that a have l: "l = k\<lparr>v_pend := v_pend k @ [p], v_pok := True\<rparr>" by simp
    show ?thesis using VInv_ctx[OF inv a(1)] a new unfolding l True by (auto simp: ctx_ok_def x)
  next
    case False
    with that have b: "vc v b = Some l" by auto
    show ?thesis using VInv_ctx[OF inv b] a new(4)[OF b] by (auto simp: ctx_ok_def)
  qed
  moreover have "op_ok ?v q y" if "vo ?v q = Some y" for q y
  proof (cases "q = p")
    case True
    with that h ty show ?thesis by (auto simp: op_ok_def x)
  next
    case False
    with that have "vo v q = Some y" by simp
    from VInv_op[OF inv this] a False show ?thesis by (auto simp: op_ok_def)
  qed
  moreover have "owners_ok ?v"
    using inv a unfolding VInv_def owners_ok_def by (auto split: if_splits) metis+
  moreover have "handles_ok ?v"
    using inv h(2) unfolding VInv_def handles_ok_def unused_def by (auto simp: x) metis+
  moreover have "objs_ok ?v" by (rule objs_ok_upd[OF inv a(1)]) simp_all
  moreover have "fresh_ok ?v" using inv a p by (auto simp: VInv_def fresh_ok_def)
  ultimately show ?thesis using inv by (auto simp: VInv_def)
qed

lemma VInv_del_op:
  assumes inv: "VInv v" and p: "vo v p = Some x" and a: "vc v (aop_ictx x) = Some k"
    and r: "RInv r" "r_res r = r_res (vr v)"
      "\<And>h'. handle_live (vr v) h' \<Longrightarrow> Some h' \<noteq> aop_handle x \<Longrightarrow> handle_live r h'"
      "\<And>h' op. works_on (vr v) h' op \<Longrightarrow> works_on r h' op"
  shows "VInv (v\<lparr>vc := (vc v)(aop_ictx x \<mapsto> k\<lparr>v_pend := remove1 p (v_pend k)\<rparr>),
     vo := (vo v)(p := None), ve := (ve v)(p := False), vr := r\<rparr>)" (is "VInv ?v")
proof -
  let ?a = "aop_ictx x"
  have k: "ctx_ok v ?a k" by (rule VInv_ctx[OF inv a])
  have "ctx_ok ?v b l" if "vc ?v b = Some l" for b l
  proof (cases "b = ?a")
    case True
    with that have l: "l = k\<lparr>v_pend := remove1 p (v_pend k)\<rparr>" by simp
    show ?thesis using k a r(2) unfolding l True by (auto simp: ctx_ok_def)
  next
    case False
    with that have "ctx_ok v b l" by (auto intro: VInv_ctx[OF inv])
    with False p a r(2) show ?thesis by (fastforce simp: ctx_ok_def)
  qed
  moreover have "op_ok ?v q y" if "vo ?v q = Some y" for q y
  proof -
    from that have q: "q \<noteq> p" "vo v q = Some y" by (auto split: if_splits)
    with inv p have "aop_handle y \<noteq> aop_handle x" by (auto simp: VInv_def handles_ok_def)
    with VInv_op[OF inv q(2)] a q r(3,4) show ?thesis by (auto simp: op_ok_def)
  qed
  moreover have "owners_ok ?v"
    using inv a unfolding VInv_def owners_ok_def by (auto split: if_splits) metis+
  moreover have "objs_ok ?v" by (rule objs_ok_upd[OF inv a]) simp_all
  moreover have "fresh_ok ?v" by (rule fresh_ok_upd[OF inv a]) (auto split: if_splits)
  moreover have "handles_ok ?v" using inv unfolding VInv_def handles_ok_def by (auto split: if_splits)
  ultimately show ?thesis using inv r(1) by (auto simp: VInv_def)
qed

text \<open>New objects and contexts.\<close>

lemma VInv_new_obj:
  assumes "VInv v"
  shows "VInv (v\<lparr>vobj := (vobj v)(vno v \<mapsto> (b, None)), vno := Suc (vno v)\<rparr>)"
proof -
  have "vobj v (vno v) = None" using assms by (simp add: VInv_def fresh_ok_def)
  then have "ctx_ok (v\<lparr>vobj := (vobj v)(vno v \<mapsto> (b, None)), vno := Suc (vno v)\<rparr>) a k"
    if "ctx_ok v a k" for a k using that by (auto simp: ctx_ok_def)
  with assms show ?thesis by (auto simp: VInv_parts op_ok_def)
qed

lemma VInv_obj_events:
  assumes "VInv v" and "vobj v i = Some (b, ic)"
  shows "VInv (v\<lparr>vobj := (vobj v)(i \<mapsto> (True, ic))\<rparr>)"
proof -
  have "ctx_ok (v\<lparr>vobj := (vobj v)(i \<mapsto> (True, ic))\<rparr>) a k" if "ctx_ok v a k" for a k
    using that by (auto simp: ctx_ok_def)
  with assms show ?thesis by (auto simp: VInv_parts op_ok_def)
qed

lemma VInv_new_ctx:
  assumes inv: "VInv v" and i: "vobj v i = Some (True, ic)" and a: "a = vn v"
    and par: "\<And>q. par = Some q \<Longrightarrow> \<exists>kq. vc v q = Some kq \<and> stable (v_ty kq)"
    and k: "k = \<lparr>v_this = i, v_ty = ty, v_par = par, v_closed = False, v_pend = [], v_pok = True,
      v_res = (\<lambda>_. None)\<rparr>"
  shows "VInv (v\<lparr>vc := (vc v)(a \<mapsto> k), vobj := (vobj v)(i \<mapsto> (True, Some a)), vn := Suc a\<rparr>)"
    (is "VInv ?v")
proof -
  have new: "vc v a = None" using inv a by (auto simp: VInv_def fresh_ok_def)
  have "ctx_ok ?v b l" if "vc ?v b = Some l" for b l
  proof (cases "b = a")
    case True
    with that have "l = k" by simp
    with par new show ?thesis by (fastforce simp: ctx_ok_def k)
  next
    case False
    with that have "ctx_ok v b l" by (auto intro: VInv_ctx[OF inv])
    with new show ?thesis by (fastforce simp: ctx_ok_def)
  qed
  moreover have "op_ok ?v p x" if "vo v p = Some x" for p x
    using VInv_op[OF inv that] new by (auto simp: op_ok_def)
  moreover have "owners_ok ?v"
    using inv unfolding VInv_def owners_ok_def by (auto simp: k split: if_splits) 
  moreover have "objs_ok ?v"
    using inv new unfolding VInv_def objs_ok_def by (auto simp: k split: if_splits) (metis option.discI)
  moreover have "fresh_ok ?v" using inv a i by (auto simp: VInv_def fresh_ok_def)
  ultimately show ?thesis using inv by (simp add: VInv_def handles_ok_def)
qed

text \<open>Closing a context that may be closed: before and after its \<open>close\<close> listeners run.\<close>

lemma VInv_closing:
  assumes inv: "VInv v" and a: "vc v a = Some k" "\<not> stable (v_ty k)"
    and r: "RInv r"
      "\<And>x i. r_res (vr v) x = Some i \<Longrightarrow> v_res k i \<noteq> Some x \<Longrightarrow> r_res r x = Some i"
      "\<And>h. handle_live (vr v) h \<Longrightarrow>
         (\<forall>p x. p \<in> set (v_pend k) \<and> vo v p = Some x \<longrightarrow> aop_handle x \<noteq> Some h) \<Longrightarrow> handle_live r h"
      "\<And>h op. works_on (vr v) h op \<Longrightarrow> works_on r h op"
  shows "VInv (v\<lparr>vc := (vc v)(a \<mapsto> k\<lparr>v_closed := True, v_pend := [], v_pok := True, v_res := (\<lambda>_. None)\<rparr>),
     vo := (\<lambda>p. if p \<in> set (v_pend k) then None else vo v p),
     ve := (\<lambda>p. p \<notin> set (v_pend k) \<and> ve v p),
     vobj := (vobj v)(v_this k := map_option (\<lambda>(b, _). (b, None)) (vobj v (v_this k))), vr := r\<rparr>)"
    (is "VInv ?v")
proof -
  have k: "ctx_ok v a k" by (rule VInv_ctx[OF inv a(1)])
  have dis: "p \<notin> set (v_pend l)" if "vc v b = Some l" "b \<noteq> a" "p \<in> set (v_pend k)" for b l p
    using k VInv_ctx[OF inv that(1)] that(2,3) by (fastforce simp: ctx_ok_def)
  have "ctx_ok ?v b l" if "vc ?v b = Some l" for b l
  proof (cases "b = a")
    case True
    with that have "l = k\<lparr>v_closed := True, v_pend := [], v_pok := True, v_res := (\<lambda>_. None)\<rparr>" by simp
    with k a True show ?thesis by (auto simp: ctx_ok_def)
  next
    case False
    with that have b: "vc v b = Some l" by auto
    have "v_res k i \<noteq> Some x" if "v_res l j = Some x" for i j x
      using inv a(1) b False that unfolding VInv_def owners_ok_def by metis
    then show ?thesis
      using VInv_ctx[OF inv b] dis[OF b False] a r(2) by (fastforce simp: ctx_ok_def)
  qed
  moreover have "op_ok ?v q y" if "vo ?v q = Some y" for q y
  proof -
    from that have q: "q \<notin> set (v_pend k)" "vo v q = Some y" by (auto split: if_splits)
    obtain h where h: "aop_handle y = Some h" "handle_live (vr v) h"
      using VInv_op[OF inv q(2)] by (auto simp: op_ok_def)
    have "aop_handle x \<noteq> Some h" if "p \<in> set (v_pend k)" "vo v p = Some x" for p x
      using inv that q h unfolding VInv_def handles_ok_def by metis
    with r(3) h have "handle_live r h" by blast
    with VInv_op[OF inv q(2)] q a h r(4) show ?thesis by (auto simp: op_ok_def)
  qed
  moreover have "owners_ok ?v"
    using inv a unfolding VInv_def owners_ok_def by (auto split: if_splits)
  moreover have "objs_ok ?v"
    using inv a unfolding VInv_def objs_ok_def by (auto split: if_splits) (metis option.inject)+
  moreover have "handles_ok ?v" using inv by (auto simp: VInv_def handles_ok_def split: if_splits)
  moreover have "fresh_ok ?v" using inv a k by (auto simp: VInv_def fresh_ok_def ctx_ok_def)
  ultimately show ?thesis using inv r(1) by (auto simp: VInv_def)
qed

lemma VInv_free_ctx:
  assumes inv: "VInv v" and a: "vc v a = Some k" "v_closed k"
  shows "VInv (v\<lparr>vc := (vc v)(a := None)\<rparr>)" (is "VInv ?v")
proof -
  have k: "v_pend k = []" "\<not> stable (v_ty k)" using VInv_ctx[OF inv a(1)] a(2) by (auto simp: ctx_ok_def)
  have "ctx_ok ?v b l" if "vc v b = Some l" for b l
    using VInv_ctx[OF inv that] a k by (fastforce simp: ctx_ok_def)
  moreover have "op_ok ?v p x" if "vo v p = Some x" for p x
    using VInv_op[OF inv that] a k by (auto simp: op_ok_def)
  moreover have "owners_ok ?v"
    using inv unfolding VInv_def owners_ok_def by auto
  moreover have "objs_ok ?v"
    using inv a unfolding VInv_def objs_ok_def by (auto split: if_splits) (metis option.inject)+
  ultimately show ?thesis using inv by (auto simp: VInv_def fresh_ok_def handles_ok_def)
qed

end
