(* ===== verification/Steps.thy ===== *)
theory Steps
  imports Invariant
begin

text \<open>
  The state primitives and the async bridge under the invariant: what each of them needs and
  keeps. \<open>good\<close> and \<open>goodp\<close> say of a step that it commits no memory error, keeps the invariant
  and leaves what a caller further up the stack relies on.
\<close>

section \<open>Steps that keep the invariant\<close>

abbreviation good :: "world \<Rightarrow> fault + world \<Rightarrow> bool" where
  "good w m \<equiv> safe m (\<lambda>w'. Inv w' \<and> ext w w')"

abbreviation goodp :: "world \<Rightarrow> fault + 'a \<times> world \<Rightarrow> bool" where
  "goodp w m \<equiv> safe m (\<lambda>x. Inv (snd x) \<and> ext w (snd x))"

text \<open>Such a step that also releases the operation \<open>p\<close>.\<close>

abbreviation frees :: "opaddr \<Rightarrow> world \<Rightarrow> fault + world \<Rightarrow> bool" where
  "frees p w m \<equiv> safe m (\<lambda>w'. Inv w' \<and> ext w w' \<and> w_ops w' p = None \<and> p < w_next w')"

named_theorems good_intros \<open>steps that keep the invariant\<close>

lemma good_ext:
  assumes "ext w w'" and "good w' m"
  shows "good w m"
  by (rule safe_mono[OF assms(2)]) (use ext_trans[OF assms(1)] in auto)

lemma goodp_ext:
  assumes "ext w w'" and "goodp w' m"
  shows "goodp w m"
  by (rule safe_mono[OF assms(2)]) (use ext_trans[OF assms(1)] in auto)

lemma good_bnd [good_intros]:
  assumes "good w m" and "\<And>w'. Inv w' \<Longrightarrow> ext w w' \<Longrightarrow> good w' (f w')"
  shows "good w (bnd m f)"
  using assms by (cases m) (auto intro: good_ext)

lemma goodp_bnd [good_intros]:
  assumes "goodp w m" and "\<And>x w'. Inv w' \<Longrightarrow> ext w w' \<Longrightarrow> good w' (f (x, w'))"
  shows "good w (bnd m f)"
  using assms by (cases m) (auto intro: good_ext)

lemma good_bndp [good_intros]:
  assumes "good w m" and "\<And>w'. Inv w' \<Longrightarrow> ext w w' \<Longrightarrow> goodp w' (f w')"
  shows "goodp w (bnd m f)"
  using assms by (cases m) (auto intro: goodp_ext)

lemma goodp_bndp [good_intros]:
  assumes "goodp w m" and "\<And>x w'. Inv w' \<Longrightarrow> ext w w' \<Longrightarrow> goodp w' (f (x, w'))"
  shows "goodp w (bnd m f)"
  using assms by (cases m) (auto intro: goodp_ext)

lemma good_view: "view w' = view w \<Longrightarrow> good w' m \<Longrightarrow> good w m"
  by (rule good_ext[OF view_ext])

lemma goodp_view: "view w' = view w \<Longrightarrow> goodp w' m \<Longrightarrow> goodp w m"
  by (rule goodp_ext[OF view_ext])

text \<open>A released operation stays released.\<close>

lemma ext_freed:
  assumes "ext w w'" and "w_ops w p = None" and "p < w_next w"
  shows "w_ops w' p = None" and "p < w_next w'"
  using assms by (auto simp: ext_def ctx_ext_def)

lemma frees_good: "frees p w m \<Longrightarrow> good w m"
  by (rule safe_mono) blast+

lemma frees_ext:
  assumes "ext w w'" and "frees p w' m"
  shows "frees p w m"
  by (rule safe_mono[OF assms(2)]) (use ext_trans[OF assms(1)] in auto)

lemma frees_bnd:
  assumes "frees p w m" and "\<And>w'. Inv w' \<Longrightarrow> ext w w' \<Longrightarrow> good w' (f w')"
  shows "frees p w (bnd m f)"
proof (cases m)
  case (Inr w')
  with assms have w': "Inv w'" "ext w w'" "w_ops w' p = None" "p < w_next w'" "good w' (f w')" by auto
  from safe_mono[OF w'(5), of "\<lambda>u. Inv u \<and> ext w u \<and> w_ops u p = None \<and> p < w_next u"] Inr show ?thesis
    using ext_trans[OF w'(2)] ext_freed[OF _ w'(3,4)] by auto
qed (use assms in simp)

lemma op_old: "Inv w \<Longrightarrow> w_ops w p = Some x \<Longrightarrow> p < w_next w"
  unfolding Inv_def VInv_def fresh_ok_def by (metis view_sel(2,4) option.distinct(1) linorder_not_le)

lemma frees_after:
  assumes "Inv w" and "w_ops w p = Some x" and "ext w w'" and "w_ops w' p = None" and "good w' m"
  shows "frees p w m"
proof -
  have "p < w_next w'" using op_old[OF assms(1,2)] assms(3) by (auto simp: ext_def ctx_ext_def)
  then show ?thesis
    by (intro safe_mono[OF assms(5)]) (use ext_trans[OF assms(3)] ext_freed[OF _ assms(4)] in auto)
qed

section \<open>Contexts\<close>

lemma upd_obj_simps [simp]:
  "w_ctxs (upd_obj i f w) = w_ctxs w" "w_ops (upd_obj i f w) = w_ops w"
  "w_evs (upd_obj i f w) = w_evs w" "w_rust (upd_obj i f w) = w_rust w"
  "w_ctxs (put_prop i k v w) = w_ctxs w" "w_ops (put_prop i k v w) = w_ops w"
  "w_evs (put_prop i k v w) = w_evs w" "w_rust (put_prop i k v w) = w_rust w"
  by (simp_all add: upd_obj_def put_prop_def)

lemma put_ctx_simps [simp]:
  "w_ctxs (put_ctx a c w) = (w_ctxs w)(a \<mapsto> c)" "w_ops (put_ctx a c w) = w_ops w"
  "w_evs (put_ctx a c w) = w_evs w" "w_rust (put_ctx a c w) = w_rust w"
  "w_objs (put_ctx a c w) = w_objs w"
  by (simp_all add: put_ctx_def)

definition open_at :: "world \<Rightarrow> addr \<Rightarrow> iroh_obj_type \<Rightarrow> bool" where
  "open_at w a ty \<longleftrightarrow>
     (\<exists>c. w_ctxs w a = Some c \<and> obj_type c = ty \<and> \<not> has_flag (flags c) RPIROH_FLAG_CLOSED)"

lemma stable_simps [simp]:
  "stable IROH_OBJ_ENDPOINT" "stable IROH_OBJ_CONNECTION" "stable IROH_OBJ_STREAM"
  "stable IROH_OBJ_GOSSIP" "stable IROH_OBJ_GOSSIP_TOPIC" "\<not> stable IROH_OBJ_BLOBS"
  "\<not> stable IROH_OBJ_DOCS"
  by (simp_all add: stable_def)

lemma Inv_RInv: "Inv w \<Longrightarrow> RInv (w_rust w)"
  using VInv_RInv[of "view w"] by (simp add: Inv_def)

lemma Inv_ctx: "Inv w \<Longrightarrow> w_ctxs w a = Some c \<Longrightarrow> ctx_ok (view w) a (core c)"
  using VInv_ctx[of "view w" a "core c"] by (simp add: Inv_def)

lemma Inv_op: "Inv w \<Longrightarrow> w_ops w p = Some x \<Longrightarrow> op_ok (view w) p x"
  using VInv_op[of "view w" p x] by (simp add: Inv_def)

lemma Inv_res_kind:
  assumes "Inv w" and "w_ctxs w a = Some c" and "res_of c i = Some y"
  shows "r_res (w_rust w) y = Some i \<and> i \<in> kinds (obj_type c)"
  using Inv_ctx[OF assms(1,2)] assms(3) by (simp add: ctx_ok_def)

lemma Inv_res:
  assumes "Inv w" and "w_ctxs w a = Some c"
  shows "endpoint c = Some x \<Longrightarrow> r_res (w_rust w) x = Some KEndpoint \<and> obj_type c = IROH_OBJ_ENDPOINT"
    and "conn_p c = Some x \<Longrightarrow> r_res (w_rust w) x = Some KConnection \<and> obj_type c = IROH_OBJ_CONNECTION"
    and "send_p c = Some x \<Longrightarrow> r_res (w_rust w) x = Some KSendStream \<and> obj_type c = IROH_OBJ_STREAM"
    and "recv_p c = Some x \<Longrightarrow> r_res (w_rust w) x = Some KRecvStream \<and> obj_type c = IROH_OBJ_STREAM"
    and "gossip_p c = Some x \<Longrightarrow> r_res (w_rust w) x = Some KGossip \<and> obj_type c = IROH_OBJ_GOSSIP"
    and "topic_handle c = Some x \<Longrightarrow>
      r_res (w_rust w) x = Some KGossipTopic \<and> obj_type c = IROH_OBJ_GOSSIP_TOPIC"
    and "blob_store c = Some x \<Longrightarrow>
      r_res (w_rust w) x = Some KBlobStore \<and> obj_type c \<in> {IROH_OBJ_BLOBS, IROH_OBJ_DOCS}"
    and "blobs_proto c = Some x \<Longrightarrow> r_res (w_rust w) x = Some KBlobsProtocol \<and> obj_type c = IROH_OBJ_BLOBS"
    and "docs_p c = Some x \<Longrightarrow> r_res (w_rust w) x = Some KDocs \<and> obj_type c = IROH_OBJ_DOCS"
  using Inv_res_kind[OF assms, of KEndpoint x] Inv_res_kind[OF assms, of KConnection x]
    Inv_res_kind[OF assms, of KSendStream x] Inv_res_kind[OF assms, of KRecvStream x]
    Inv_res_kind[OF assms, of KGossip x] Inv_res_kind[OF assms, of KGossipTopic x]
    Inv_res_kind[OF assms, of KBlobStore x] Inv_res_kind[OF assms, of KBlobsProtocol x]
    Inv_res_kind[OF assms, of KDocs x]
  by (cases "obj_type c"; simp)+

lemma open_at_ext:
  assumes "open_at w a ty" and "stable ty" and "ext w w'" and "Inv w'"
  shows "open_at w' a ty"
proof -
  obtain c where c: "w_ctxs w a = Some c" "obj_type c = ty" using assms(1) by (auto simp: open_at_def)
  have "ctx_ext (view w) (view w')" using assms(3) by (simp add: ext_def)
  then obtain k where "vc (view w') a = Some k" "v_ty k = ty"
    by (rule ctx_extD[of _ _ a "core c"]) (use c assms(2) in auto)
  then obtain c' where c': "w_ctxs w' a = Some c'" "obj_type c' = ty" by auto
  with Inv_ctx[OF assms(4) c'(1)] assms(2) show ?thesis by (auto simp: open_at_def ctx_ok_def)
qed

lemma open_at_view: "view w' = view w \<Longrightarrow> open_at w' a ty \<longleftrightarrow> open_at w a ty"
proof -
  have *: "open_at u a ty \<longleftrightarrow> (\<exists>k. vc (view u) a = Some k \<and> v_ty k = ty \<and> \<not> v_closed k)" for u
    by (auto simp: open_at_def)
  show "view w' = view w \<Longrightarrow> open_at w' a ty \<longleftrightarrow> open_at w a ty" by (simp add: *)
qed

lemma open_at_rust [simp]: "open_at (w\<lparr>w_rust := r\<rparr>) a ty \<longleftrightarrow> open_at w a ty"
  by (simp add: open_at_def)

lemma get_ctx_Some [simp]: "w_ctxs w a = Some c \<Longrightarrow> get_ctx w a = Inr c"
  by (simp add: get_ctx_def)

lemma get_op_Some [simp]: "w_ops w p = Some x \<Longrightarrow> get_op w p = Inr x"
  by (simp add: get_op_def)

text \<open>Updates of fields the view does not show.\<close>

lemma good_upd_ctx_inert:
  assumes "Inv w" and "w_ctxs w a \<noteq> None" and "\<And>c. core (f c) = core c"
  shows "good w (upd_ctx a f w)"
proof -
  obtain c where c: "w_ctxs w a = Some c" using assms(2) by auto
  have "view (put_ctx a (f c) w) = view w" using c assms(3) by (auto simp: view_def put_ctx_def)
  from view_Inv[OF this] view_ext[OF this] assms(1) c show ?thesis by (simp add: upd_ctx_def)
qed

lemma core_flags: "is_flag m \<Longrightarrow> m \<noteq> 1 \<Longrightarrow> core (c\<lparr>flags := set_flag (flags c) m\<rparr>) = core c"
  and core_flags': "is_flag m \<Longrightarrow> m \<noteq> 1 \<Longrightarrow> core (c\<lparr>flags := clr_flag (flags c) m\<rparr>) = core c"
proof -
  have "res_of (c\<lparr>flags := f\<rparr>) = res_of c" for f
  proof
    fix k show "res_of (c\<lparr>flags := f\<rparr>) k = res_of c k" by (cases k) simp_all
  qed
  then show "is_flag m \<Longrightarrow> m \<noteq> 1 \<Longrightarrow> core (c\<lparr>flags := set_flag (flags c) m\<rparr>) = core c"
    "is_flag m \<Longrightarrow> m \<noteq> 1 \<Longrightarrow> core (c\<lparr>flags := clr_flag (flags c) m\<rparr>) = core c"
    by (simp_all add: core_def pending_def pending_ok_def)
qed

lemma good_flags [good_intros]:
  assumes "Inv w" and "w_ctxs w a \<noteq> None" and "is_flag m" and "m \<noteq> 1"
  shows "good w (set_flags a m w)" and "good w (clr_flags a m w)"
  unfolding set_flags_def clr_flags_def
  by (rule good_upd_ctx_inert[OF assms(1,2)], rule core_flags[OF assms(3,4)])
    (rule good_upd_ctx_inert[OF assms(1,2)], rule core_flags'[OF assms(3,4)])

lemma res_of_inert [simp]:
  "res_of (c\<lparr>next_cb_id := n\<rparr>) k = res_of c k" "res_of (c\<lparr>pending_ops := ps\<rparr>) k = res_of c k"
  "res_of (c\<lparr>npending := np\<rparr>) k = res_of c k" "res_of (c\<lparr>pending_alloc := al\<rparr>) k = res_of c k"
  "res_of (c\<lparr>flags := f\<rparr>) k = res_of c k"
  by (cases k; simp)+

text \<open>The one-shot callback table.\<close>

lemma store_cb_view:
  assumes "w_ctxs w a = Some c"
  obtains i w' where "iroh_store_cb a f w = Inr (i, w')" and "view w' = view w"
proof -
  have "core (c\<lparr>next_cb_id := n\<rparr>) = core c" for n
    by (simp add: core_def pending_def pending_ok_def fun_eq_iff)
  then have "view (put_ctx a (c\<lparr>next_cb_id := n\<rparr>) w) = view w" for n
    using assms by (auto simp: view_def put_ctx_def)
  then have v: "view (upd_obj (thisptr c) (\<lambda>ob. ob\<lparr>o_cbs := g ob\<rparr>)
      (put_ctx a (c\<lparr>next_cb_id := n\<rparr>) w)) = view w" for n g
    by (subst view_upd_obj) (simp_all add: oview_def)
  with assms show ?thesis
    by (intro that[OF _ v]) (simp add: iroh_store_cb_def Let_def)
qed

lemma opt_cb_view:
  assumes "w_ctxs w a = Some c"
  obtains i w' where "opt_cb a v w = Inr (i, w')" and "view w' = view w"
proof (cases "\<exists>f. v = JFun f")
  case True
  then obtain f where "v = JFun f" by auto
  with store_cb_view[OF assms, of f] that show ?thesis by (auto simp: opt_cb_def)
next
  case False
  then have "opt_cb a v w = Inr (0, w)" by (cases v) (auto simp: opt_cb_def)
  then show ?thesis by (rule that) simp
qed

lemma prep_cb_view:
  assumes "w_ctxs w a = Some c"
  obtains cb w' where "iroh_prep_cb a i w = Inr (cb, w')" and "view w' = view w"
    and "\<forall>f. cb = Some f \<longrightarrow> w_objs w (thisptr c) \<noteq> None \<and> snd f = thisptr c"
proof (cases "Option.bind (w_objs w (thisptr c)) (\<lambda>ob. o_cbs ob i)")
  case None
  with assms show ?thesis by (intro that) (auto simp: iroh_prep_cb_def)
next
  case (Some f)
  with assms show ?thesis
    by (intro that[OF _ view_upd_obj[of "\<lambda>ob. ob\<lparr>o_cbs := (o_cbs ob)(i := None)\<rparr>"]])
      (auto simp: iroh_prep_cb_def oview_def split: bind_splits)
qed

section \<open>The async bridge\<close>

lemma async_free_live:
  assumes "r_handles r h = Some ah" and "h_cref ah"
  shows "iroh_async_free r (Some h) = Inr (put_handle h (ah\<lparr>h_cref := False\<rparr>) r)"
  using assms by (simp add: iroh_async_free_def)

lemma RInv_drop_handle:
  assumes "RInv r" and "r_handles r h = Some ah"
  shows "RInv (put_handle h (ah\<lparr>h_cref := False\<rparr>) r)"
  using assms by (auto simp: RInv_def rfresh_def tasks_ok_def attended_upd(3))

lemma VInv_drop_handle:
  assumes inv: "VInv v" and h: "r_handles (vr v) h = Some ah" "unused v h"
  shows "VInv (v\<lparr>vr := put_handle h (ah\<lparr>h_cref := False\<rparr>) (vr v)\<rparr>)" (is "VInv (v\<lparr>vr := ?r\<rparr>)")
proof -
  have "ctx_ok (v\<lparr>vr := ?r\<rparr>) a k" if "ctx_ok v a k" for a k
    using that by (simp add: ctx_ok_def)
  moreover have "op_ok (v\<lparr>vr := ?r\<rparr>) p x" if q: "vo v p = Some x" for p x
  proof -
    obtain n where "aop_handle x = Some n" "handle_live (vr v) n" "n \<noteq> h"
      using VInv_op[OF inv q] h(2) q by (fastforce simp: op_ok_def unused_def)
    then have "aop_handle x = Some n" "handle_live ?r n" by (simp_all add: handle_live_def)
    with VInv_op[OF inv q] works_on_put_handle[OF h(1)] show ?thesis by (auto simp: op_ok_def)
  qed
  ultimately show ?thesis
    using inv RInv_drop_handle[OF VInv_RInv[OF inv] h(1)] by (simp add: VInv_parts)
qed

lemma VInv_next: "VInv v \<Longrightarrow> vn v \<le> n \<Longrightarrow> VInv (v\<lparr>vn := n\<rparr>)"
  by (simp add: VInv_parts ctx_ok_def op_ok_def)

lemma view_next [simp]: "view (w\<lparr>w_next := n\<rparr>) = (view w)\<lparr>vn := n\<rparr>"
  by (simp add: view_def)

lemma ctx_ext_vn [simp]: "vn v \<le> n \<Longrightarrow> ctx_ext v (v\<lparr>vn := n\<rparr>)"
  by (auto simp: ctx_ext_def)

lemma core_pending:
  "core (c\<lparr>pending_ops := xs, npending := n, pending_alloc := al\<rparr>) =
     (core c)\<lparr>v_pend := pending (c\<lparr>pending_ops := xs, npending := n, pending_alloc := al\<rparr>),
       v_pok := pending_ok (c\<lparr>pending_ops := xs, npending := n, pending_alloc := al\<rparr>)\<rparr>"
  by (simp add: core_def fun_eq_iff)

lemma goodp_start_async:
  assumes inv: "Inv w" and a: "open_at w a ty" and ty: "ty \<in> op_tys op"
    and h: "\<And>n. h = Some n \<Longrightarrow> handle_live (w_rust w) n \<and> unused (view w) n \<and> works_on (w_rust w) n op"
  shows "goodp w (iroh_start_async env a h op aux w)"
proof (cases h)
  case None
  with inv show ?thesis by (simp add: iroh_start_async_def)
next
  case (Some n)
  note v = inv[unfolded Inv_def]
  obtain ah where ah: "r_handles (w_rust w) n = Some ah" "h_cref ah" and un: "unused (view w) n" "works_on (w_rust w) n op"
    using h[OF Some] by (auto simp: handle_live_def)
  obtain c where c: "w_ctxs w a = Some c" "obj_type c = ty" "\<not> has_flag (flags c) 1"
    using a by (auto simp: open_at_def)
  let ?r = "put_handle n (ah\<lparr>h_cref := False\<rparr>) (w_rust w)"
  have drop: "VInv ((view w)\<lparr>vr := ?r\<rparr>)"
    using VInv_drop_handle[OF v _ un(1)] ah by simp
  have drop': "VInv ((view w)\<lparr>vn := Suc (w_next w), vr := ?r\<rparr>)"
    using VInv_drop_handle[OF VInv_next[OF v, of "Suc (w_next w)"], of n ah] ah un
    by (simp add: unused_def)
  have fd: "iroh_async_get_fd (w_rust w) h = Inr (h_read_fd ah)"
    using ah Some by (simp add: iroh_async_get_fd_def get_handle_def)
  have ok: "pending_ok c" using Inv_ctx[OF inv c(1)] by (simp add: ctx_ok_def)
  show ?thesis
  proof (cases rule: push_pending_cases[OF ok, of "w_next w"])
    case 1
    then show ?thesis
      using fd ah c drop drop' Some
      by (simp add: iroh_start_async_def in_rust'_def async_free_live Let_def Inv_def ext_def)
  next
    case (2 xs m al)
    let ?c = "c\<lparr>pending_ops := xs, npending := m, pending_alloc := al\<rparr>"
    let ?x = "\<lparr>aop_ictx = a, aop_handle = h, aop_op = op, aop_ev = Some (w_next w), aop_aux = aux\<rparr>"
    let ?w = "put_ctx a ?c (w\<lparr>w_next := Suc (w_next w), w_ops := (w_ops w)(w_next w \<mapsto> ?x),
        w_evs := (w_evs w)(w_next w := True)\<rparr>)"
    let ?v = "(view w)\<lparr>vc := (vc (view w))(a \<mapsto> (core c)\<lparr>v_pend := v_pend (core c) @ [w_next w], v_pok := True\<rparr>),
        vo := (vo (view w))(w_next w \<mapsto> ?x), ve := (ve (view w))(w_next w := True),
        vn := Suc (w_next w)\<rparr>"
    have "core ?c = (core c)\<lparr>v_pend := v_pend (core c) @ [w_next w], v_pok := True\<rparr>"
      using 2 unfolding core_pending by simp
    then have view: "view ?w = ?v" by (auto simp: view_def put_ctx_def)
    have "VInv ?v"
      by (rule VInv_add_op[OF v, where op = op]) (use c ty un ah Some in \<open>auto simp: handle_live_def\<close>)
    moreover have "ctx_ext (view w) ?v" using c by (auto simp: ctx_ext_def)
    ultimately have "Inv ?w \<and> ext w ?w"
      unfolding Inv_def ext_def view by (simp add: put_ctx_def)
    then show ?thesis
      using fd ah c drop drop' Some 2(1)
      by (simp add: iroh_start_async_def in_rust'_def async_free_live Let_def Inv_def ext_def)
  qed
qed

lemma core_del_pending:
  assumes "pending_ok c"
  shows "core (del_pending p c) = (core c)\<lparr>v_pend := remove1 p (pending c)\<rparr>"
proof -
  note d = del_pending_refines[OF assms, of p]
  obtain xs n where e: "del_pending p c = c\<lparr>pending_ops := xs, npending := n\<rparr>"
    by (cases "scan_index p (pending c) 0") (auto simp: del_pending_def Let_def intro: that[of "npending c" "pending_ops c"])
  show ?thesis using d assms unfolding e by (simp add: core_def fun_eq_iff)
qed

text \<open>
  Releasing an operation succeeds, takes exactly that operation out, and leaves the contexts and
  the Rust objects alone.
\<close>

lemma free_async_op_view:
  assumes inv: "Inv w" and x: "w_ops w p = Some x"
  obtains w' c h ah where "iroh_free_async_op p w = Inr w'" and "w_ctxs w (aop_ictx x) = Some c"
    and "aop_handle x = Some h" and "r_handles (w_rust w) h = Some ah"
    and "view w' = (view w)\<lparr>vc := (vc (view w))(aop_ictx x \<mapsto> (core c)\<lparr>v_pend := remove1 p (pending c)\<rparr>),
      vo := (w_ops w)(p := None), ve := (w_evs w)(p := False),
      vr := put_handle h (ah\<lparr>h_cref := False\<rparr>) (w_rust w)\<rparr>"
    and "w_objs w' = w_objs w" and "w_rust w' = put_handle h (ah\<lparr>h_cref := False\<rparr>) (w_rust w)"
proof -
  have op: "op_ok (view w) p x" by (rule Inv_op[OF assms])
  then obtain c h where c: "w_ctxs w (aop_ictx x) = Some c" "p \<in> set (pending c)" "aop_ev x = Some p"
    "w_evs w p" and h: "aop_handle x = Some h" "handle_live (w_rust w) h"
    by (auto simp: op_ok_def)
  obtain ah where ah: "r_handles (w_rust w) h = Some ah" "h_cref ah"
    using h(2) by (auto simp: handle_live_def)
  have ok: "pending_ok c" using Inv_ctx[OF inv c(1)] by (simp add: ctx_ok_def)
  have ne: "pending_ops c \<noteq> []" using c(2) by (auto simp: pending_def)
  let ?r = "put_handle h (ah\<lparr>h_cref := False\<rparr>) (w_rust w)"
  let ?w = "(put_ctx (aop_ictx x) (del_pending p c) w)\<lparr>w_evs := (w_evs w)(p := False), w_rust := ?r,
      w_ops := (w_ops w)(p := None)\<rparr>"
  show ?thesis
  proof (rule that[OF _ c(1) h(1) ah(1)])
    show "iroh_free_async_op p w = Inr ?w"
      using x c ne h ah
      by (simp add: iroh_free_async_op_def iroh_remove_pending_def event_free_def in_rust'_def
          async_free_live free_op_def put_ctx_def)
    show "view ?w = (view w)\<lparr>vc := (vc (view w))(aop_ictx x \<mapsto> (core c)\<lparr>v_pend := remove1 p (pending c)\<rparr>),
      vo := (w_ops w)(p := None), ve := (w_evs w)(p := False), vr := ?r\<rparr>"
      using core_del_pending[OF ok, of p] by (auto simp: view_def put_ctx_def)
  qed (simp_all add: put_ctx_def)
qed

lemma free_async_op_good:
  assumes inv: "Inv w" and x: "w_ops w p = Some x"
  obtains w' where "iroh_free_async_op p w = Inr w'" and "Inv w'" and "ext w w'"
    and "\<forall>a ty. open_at w a ty \<longrightarrow> open_at w' a ty" and "\<forall>y. unowned (view w) y \<longrightarrow> unowned (view w') y"
    and "r_res (w_rust w') = r_res (w_rust w)" and "r_tmp (w_rust w') = r_tmp (w_rust w)"
    and "w_objs w' = w_objs w" and "w_ops w' = (w_ops w)(p := None)"
    and "same_tasks (w_rust w) (w_rust w')"
proof -
  obtain w' c h ah where w': "iroh_free_async_op p w = Inr w'" "w_ctxs w (aop_ictx x) = Some c"
    and h: "aop_handle x = Some h" "r_handles (w_rust w) h = Some ah"
    and view: "view w' = (view w)\<lparr>vc := (vc (view w))(aop_ictx x \<mapsto> (core c)\<lparr>v_pend := remove1 p (pending c)\<rparr>),
      vo := (w_ops w)(p := None), ve := (w_evs w)(p := False),
      vr := put_handle h (ah\<lparr>h_cref := False\<rparr>) (w_rust w)\<rparr>" (is "_ = ?v")
    and objs: "w_objs w' = w_objs w" and rust: "w_rust w' = put_handle h (ah\<lparr>h_cref := False\<rparr>) (w_rust w)"
    using free_async_op_view[OF assms] .
  note v = inv[unfolded Inv_def]
  have "VInv ((view w)\<lparr>vc := (vc (view w))(aop_ictx x \<mapsto> (core c)\<lparr>v_pend := remove1 p (v_pend (core c))\<rparr>),
      vo := (vo (view w))(p := None), ve := (ve (view w))(p := False), vr := w_rust w'\<rparr>)"
    by (rule VInv_del_op[OF v]) (use x w'(2) h rust RInv_drop_handle[OF Inv_RInv[OF inv] h(2)] works_on_put_handle[OF h(2)] in
        \<open>auto simp: handle_live_def\<close>)
  then have inv': "Inv w'" by (simp add: Inv_def view rust)
  have "ctx_ext (view w) ?v" using w'(2) by (auto simp: ctx_ext_def)
  then have e: "ext w w'" by (simp add: ext_def view rust)
  have vc: "vc (view w') a = (if a = aop_ictx x then Some ((core c)\<lparr>v_pend := remove1 p (pending c)\<rparr>)
      else vc (view w) a)" for a
    by (simp add: view)
  have ctx: "\<exists>c'. w_ctxs w' b = Some c' \<and> obj_type c' = obj_type d
      \<and> has_flag (flags c') 1 = has_flag (flags d) 1" if d: "w_ctxs w b = Some d" for b d
  proof -
    obtain k where "vc (view w') b = Some k" "v_ty k = obj_type d" "v_closed k = has_flag (flags d) 1"
      using d w'(2) vc[of b] by (cases "b = aop_ictx x") (auto simp del: view_sel simp: view_sel(1)[of w])
    then show ?thesis by auto
  qed
  have un: "unowned (view w') y" if "unowned (view w) y" for y
    unfolding unowned_def
  proof (intro allI impI)
    fix b k i
    assume b: "vc (view w') b = Some k"
    have "\<exists>l. vc (view w) b = Some l \<and> v_res k = v_res l"
    proof (cases "b = aop_ictx x")
      case True
      then show ?thesis using b vc[of b] w'(2) by auto
    next
      case False
      then have "vc (view w) b = Some k" using b vc[of b] by metis
      then show ?thesis by blast
    qed
    with that show "v_res k i \<noteq> Some y" unfolding unowned_def by metis
  qed
  have op: "\<forall>a ty. open_at w a ty \<longrightarrow> open_at w' a ty"
    unfolding open_at_def using ctx by metis
  have "vo (view w') = (w_ops w)(p := None)" unfolding view by simp
  then show ?thesis
    by (intro that[OF w'(1) inv' e op _ _ _ objs])
      (use un rust h(2) in \<open>auto intro!: same_tasks_put_handle\<close>)
qed

section \<open>Calls into Rust\<close>

lemma Inv_rust: "Inv w \<Longrightarrow> rstep (w_rust w) r \<Longrightarrow> Inv (w\<lparr>w_rust := r\<rparr>)"
  by (simp add: Inv_def VInv_rust)

lemma ext_rust: "r_tmp r = r_tmp (w_rust w) \<Longrightarrow> ext w (w\<lparr>w_rust := r\<rparr>)"
  by (simp add: ext_def)

lemma view_rustD: "view w' = view w \<Longrightarrow> w_rust w' = w_rust w"
  by (metis view_sel(7))

lemma goodp_gets:
  assumes "Inv w" and "gets (w_rust w) (f (w_rust w))"
  shows "goodp w (in_rust w f)"
  using assms by (auto simp: gets_def in_rust_def safe_bnd Inv_rust ext_rust elim!: safe_mono)

text \<open>The result of a start function can be given to \<open>iroh_start_async\<close>.\<close>

definition startable :: "world \<Rightarrow> iroh_op_type \<Rightarrow> hid option \<Rightarrow> bool" where
  "startable w op h \<longleftrightarrow> (\<forall>n. h = Some n \<longrightarrow> handle_live (w_rust w) n \<and> unused (view w) n \<and> works_on (w_rust w) n op)"

lemma in_rust_starts:
  assumes "Inv w" and "starts op (w_rust w) (f (w_rust w))"
  obtains (overflow) "in_rust w f = Inl PendingOverflow"
    | (ran) h r where "in_rust w f = Inr (h, w\<lparr>w_rust := r\<rparr>)" and "rstep (w_rust w) r"
      and "r_tmp r = r_tmp (w_rust w)" and "startable (w\<lparr>w_rust := r\<rparr>) op h"
proof (cases "f (w_rust w)")
  case (Inl e)
  with assms(2) show ?thesis by (intro overflow) (simp add: starts_def in_rust_def)
next
  case (Inr x)
  obtain h r where x: "x = (h, r)" by force
  with Inr assms(2) have r: "rstep (w_rust w) r" "r_tmp r = r_tmp (w_rust w)"
    "\<forall>n. h = Some n \<longrightarrow> r_next (w_rust w) \<le> n \<and> handle_live r n \<and> works_on r n op"
    by (simp_all add: starts_def)
  have "unused (view w) n" if "r_next (w_rust w) \<le> n" for n
    using unused_fresh[of "view w" n] assms(1) that by (simp add: Inv_def)
  with r(3) have "startable (w\<lparr>w_rust := r\<rparr>) op h" by (simp add: startable_def unused_def)
  with Inr x r show ?thesis by (intro ran[of h r]) (simp_all add: in_rust_def)
qed

lemma goodp_start:
  assumes "Inv w" and "open_at w a ty" and "ty \<in> op_tys op" and "startable w op h"
  shows "goodp w (iroh_start_async env a h op aux w)"
    and "goodp w (start_or_throw env this a op aux msg (h, w))"
proof -
  show 1: "goodp w (iroh_start_async env a h op aux w)" for aux
    using assms by (intro goodp_start_async) (auto simp: startable_def)
  show "goodp w (start_or_throw env this a op aux msg (h, w))"
  proof (cases h)
    case None
    with assms(1) show ?thesis by (simp add: start_or_throw_def)
  next
    case (Some n)
    have "goodp w (bnd (iroh_start_async env a h op aux w) (\<lambda>(_, w). Inr (Ret (JObj this), w)))"
      by (rule goodp_bndp[OF 1]) simp
    with Some show ?thesis by (simp add: start_or_throw_def)
  qed
qed

lemma goodp_call:
  assumes "Inv w" and "open_at w a ty" and "ty \<in> op_tys op" and "starts op (w_rust w) (f (w_rust w))"
  shows "goodp w (bnd (in_rust w f) (start_or_throw env this a op aux msg))"
    and "goodp w (bnd (in_rust w f) (\<lambda>(h, w). iroh_start_async env a h op aux w))"
proof -
  have *: "goodp w (bnd (in_rust w f) k)"
    if k: "\<And>h w'. Inv w' \<Longrightarrow> open_at w' a ty \<Longrightarrow> startable w' op h \<Longrightarrow> goodp w' (k (h, w'))"
    for k :: "hid option \<times> world \<Rightarrow> fault + 'b \<times> world"
  proof (rule in_rust_starts[where f = f, OF assms(1,4)])
    fix h r
    assume r: "in_rust w f = Inr (h, w\<lparr>w_rust := r\<rparr>)" "rstep (w_rust w) r"
      "r_tmp r = r_tmp (w_rust w)" "startable (w\<lparr>w_rust := r\<rparr>) op h"
    have "goodp (w\<lparr>w_rust := r\<rparr>) (k (h, w\<lparr>w_rust := r\<rparr>))"
      using assms r by (intro k Inv_rust) simp_all
    from goodp_ext[OF ext_rust[OF r(3)] this] r(1) show ?thesis by simp
  qed simp
  show "goodp w (bnd (in_rust w f) (start_or_throw env this a op aux msg))"
    by (rule *) (rule goodp_start(2)[OF _ _ assms(3)])
  show "goodp w (bnd (in_rust w f) (\<lambda>(h, w). iroh_start_async env a h op aux w))"
    by (rule *) (simp add: goodp_start(1)[OF _ _ assms(3)])
qed

text \<open>
  A call with short-lived arguments: they were made on the way to \<open>r\<close>, the callback is stored,
  the operation starts, \<open>fr\<close> releases them.
\<close>

definition releases :: "rust \<Rightarrow> rust \<Rightarrow> (world \<Rightarrow> fault + world) \<Rightarrow> bool" where
  "releases r0 r fr \<longleftrightarrow>
     (\<forall>w. r_tmp (w_rust w) = r_tmp r \<longrightarrow> fr w = Inr (w\<lparr>w_rust := (w_rust w)\<lparr>r_tmp := r_tmp r0\<rparr>\<rparr>))"

lemma rstep_tmp:
  assumes "rstep r0 r" and "RInv r0"
  shows "rstep r (r\<lparr>r_tmp := r_tmp r0\<rparr>)"
  using assms RInv_fresh(3)[OF assms(2)]
  by (auto simp: rstep_def handle_live_def works_on_def RInv_def rfresh_def tasks_ok_def)

lemma scoped_call:
  assumes inv: "Inv w" and a: "open_at w a ty" "ty \<in> op_tys op" and r: "rstep (w_rust w) r"
    and st: "starts op r (start r)" and fr: "releases (w_rust w) r fr"
  shows "goodp w (bnd (opt_cb a cb (w\<lparr>w_rust := r\<rparr>)) (\<lambda>(aux, w). bnd (in_rust w start) (\<lambda>(h, w).
     bnd (fr w) (\<lambda>w. start_or_throw env this a op aux msg (h, w)))))"
proof -
  have inv1: "Inv (w\<lparr>w_rust := r\<rparr>)" by (rule Inv_rust[OF inv r])
  obtain c where "w_ctxs (w\<lparr>w_rust := r\<rparr>) a = Some c" using a(1) by (auto simp: open_at_def)
  then obtain aux w2 where w2: "opt_cb a cb (w\<lparr>w_rust := r\<rparr>) = Inr (aux, w2)"
    "view w2 = view (w\<lparr>w_rust := r\<rparr>)" by (rule opt_cb_view)
  then have inv2: "Inv w2" and r2: "w_rust w2 = r" and a2: "open_at w2 a ty"
    using view_Inv[OF w2(2)] inv1 open_at_view[OF w2(2)] a(1) view_rustD[OF w2(2)] by simp_all
  have "starts op (w_rust w2) (start (w_rust w2))" using st by (simp add: r2)
  with inv2 show ?thesis
  proof (cases rule: in_rust_starts)
    case overflow
    with w2 show ?thesis by simp
  next
    case (ran h r3)
    let ?r = "r3\<lparr>r_tmp := r_tmp (w_rust w)\<rparr>"
    have r3: "rstep (w_rust w) r3" using r ran(2) by (simp add: r2 rstep_trans)
    have inv3: "Inv (w2\<lparr>w_rust := ?r\<rparr>)"
      using Inv_rust[OF inv2, of ?r] rstep_trans[OF ran(2) rstep_tmp[OF r3 Inv_RInv[OF inv]]] .
    have "fr (w2\<lparr>w_rust := r3\<rparr>) = Inr (w2\<lparr>w_rust := ?r\<rparr>)"
      using fr ran(3) by (simp add: releases_def r2)
    moreover have "startable (w2\<lparr>w_rust := ?r\<rparr>) op h"
      using ran(4) by (simp add: startable_def handle_live_def works_on_def unused_def)
    moreover have "ext w (w2\<lparr>w_rust := ?r\<rparr>)" using w2(2) by (simp add: ext_def)
    ultimately show ?thesis
      using w2(1) ran(1) inv3 a2 a(2) by (auto intro!: goodp_ext[OF _ goodp_start(2)])
  qed
qed

lemma scoped_throw:
  assumes inv: "Inv w" and r: "rstep (w_rust w) r" and fr: "releases (w_rust w) r fr"
  shows "goodp w (bnd (fr (w\<lparr>w_rust := r\<rparr>)) (\<lambda>w. Inr (res, w)))"
proof -
  have "fr (w\<lparr>w_rust := r\<rparr>) = Inr (w\<lparr>w_rust := r\<lparr>r_tmp := r_tmp (w_rust w)\<rparr>\<rparr>)"
    using fr by (simp add: releases_def)
  with Inv_rust[OF inv rstep_trans[OF r rstep_tmp[OF r Inv_RInv[OF inv]]]] show ?thesis
    by (simp add: ext_def)
qed

lemma releases_tmp_free:
  assumes "RInv r0" and "tmp_added k x r0 r"
  shows "releases r0 r (\<lambda>w. in_rust' w (tmp_free k x))"
  unfolding releases_def
proof (intro allI impI)
  fix w :: world
  assume "r_tmp (w_rust w) = r_tmp r"
  with assms obtain t where "tmp_free k x (w_rust w) = Inr t" "t = (w_rust w)\<lparr>r_tmp := r_tmp r0\<rparr>"
    by (rule tmp_free_added)
  then show "in_rust' w (tmp_free k x) = Inr (w\<lparr>w_rust := (w_rust w)\<lparr>r_tmp := r_tmp r0\<rparr>\<rparr>)"
    by (simp add: in_rust'_def)
qed

lemma tmp_added_rstepD: "tmp_added k x r r' \<Longrightarrow> rstep r r'"
  by (simp add: tmp_added_def)

lemma tmp_added_SomeD: "tmp_added k (Some n) r r' \<Longrightarrow> \<exists>s. r_tmp r' n = Some (k, s)"
  by (auto simp: tmp_added_def)

text \<open>A result with a short-lived object that is released after the callbacks.\<close>

lemma scoped_end:
  assumes inv: "Inv w" and x: "tmp_added k x (w_rust w) r" and m: "frees p (w\<lparr>w_rust := r\<rparr>) m"
  shows "frees p w (bnd m (\<lambda>w'. in_rust' w' (tmp_free k x)))"
proof (cases m)
  case (Inl e)
  with m show ?thesis by simp
next
  case (Inr w')
  with m have w': "Inv w'" "ext (w\<lparr>w_rust := r\<rparr>) w'" "w_ops w' p = None" "p < w_next w'" by auto
  then have t: "r_tmp (w_rust w') = r_tmp r" and c: "ctx_ext (view w) (view w')" by (auto simp: ext_def)
  have fresh: "\<forall>n \<ge> r_next r. r_tmp (w_rust w) n = None"
    using RInv_fresh(3)[OF Inv_RInv[OF inv]] rstep_next[OF tmp_added_rstepD[OF x]] by auto
  have "Inv (w'\<lparr>w_rust := (w_rust w')\<lparr>r_tmp := r_tmp (w_rust w)\<rparr>\<rparr>)"
  proof (rule Inv_rust[OF w'(1)])
    have "r_tmp (w_rust w) n = None" if "r_next (w_rust w') \<le> n" for n
    proof (rule ccontr)
      assume *: "r_tmp (w_rust w) n \<noteq> None"
      then have "n < r_next (w_rust w)"
        using RInv_fresh(3)[OF Inv_RInv[OF inv], of n] by (auto simp: linorder_not_le[symmetric])
      with x * have "r_tmp r n \<noteq> None" by (auto simp: tmp_added_def split: option.splits)
      with t that RInv_fresh(3)[OF Inv_RInv[OF w'(1)], of n] show False by simp
    qed
    then show "rstep (w_rust w') ((w_rust w')\<lparr>r_tmp := r_tmp (w_rust w)\<rparr>)"
      by (auto simp: rstep_def handle_live_def works_on_def RInv_def rfresh_def tasks_ok_def)
  qed
  moreover have "in_rust' w' (tmp_free k x) = Inr (w'\<lparr>w_rust := (w_rust w')\<lparr>r_tmp := r_tmp (w_rust w)\<rparr>\<rparr>)"
    using releases_tmp_free[OF Inv_RInv[OF inv] x] t by (simp add: releases_def)
  ultimately show ?thesis using Inr c w'(3,4) by (simp add: ext_def)
qed

lemma good_call:
  assumes "Inv w" and "open_at w a ty" and "ty \<in> op_tys op" and "starts op (w_rust w) (f (w_rust w))"
  shows "good w (bnd (in_rust w f) (\<lambda>(h, w). bnd (iroh_start_async env a h op aux w) (\<lambda>(_, w). Inr w)))"
proof -
  have "good w (bnd (bnd (in_rust w f) (\<lambda>(h, w). iroh_start_async env a h op aux w)) (\<lambda>(_, w). Inr w))"
    by (rule goodp_bnd[OF goodp_call(2)[where f = f, OF assms]]) simp
  then show ?thesis by (simp add: bnd_assoc case_prod_unfold)
qed

lemma scoped_start:
  assumes inv: "Inv w" and a: "open_at w a ty" "ty \<in> op_tys op" and r: "rstep (w_rust w) r"
    and st: "starts op r (start r)" and fr: "releases (w_rust w) r fr"
  shows "good w (bnd (in_rust (w\<lparr>w_rust := r\<rparr>) start) (\<lambda>(h, w). bnd (fr w) (\<lambda>w.
     bnd (iroh_start_async env a h op aux w) (\<lambda>(_, w). Inr w))))"
proof -
  have st': "starts op (w_rust (w\<lparr>w_rust := r\<rparr>)) (start (w_rust (w\<lparr>w_rust := r\<rparr>)))" using st by simp
  show ?thesis
  proof (rule in_rust_starts[where f = start, OF Inv_rust[OF inv r] st'])
    fix h r3
    assume r3: "in_rust (w\<lparr>w_rust := r\<rparr>) start = Inr (h, w\<lparr>w_rust := r\<rparr>\<lparr>w_rust := r3\<rparr>)"
      "rstep (w_rust (w\<lparr>w_rust := r\<rparr>)) r3" "r_tmp r3 = r_tmp (w_rust (w\<lparr>w_rust := r\<rparr>))"
      "startable (w\<lparr>w_rust := r\<rparr>\<lparr>w_rust := r3\<rparr>) op h"
    let ?r = "r3\<lparr>r_tmp := r_tmp (w_rust w)\<rparr>"
    have s3: "rstep (w_rust w) r3" using rstep_trans[OF r] r3(2) by simp
    have "Inv (w\<lparr>w_rust := ?r\<rparr>)"
      using Inv_rust[OF inv rstep_trans[OF s3 rstep_tmp[OF s3 Inv_RInv[OF inv]]]] .
    moreover have "startable (w\<lparr>w_rust := ?r\<rparr>) op h"
      using r3(4) by (simp add: startable_def handle_live_def works_on_def unused_def)
    moreover have "fr (w\<lparr>w_rust := r3\<rparr>) = Inr (w\<lparr>w_rust := ?r\<rparr>)"
      using fr r3(3) by (simp add: releases_def)
    moreover have "ext w (w\<lparr>w_rust := ?r\<rparr>)" by (simp add: ext_def)
    ultimately show ?thesis
      using r3(1) a by (auto intro!: good_ext[of w "w\<lparr>w_rust := ?r\<rparr>"] goodp_bnd[OF goodp_start(1)])
  qed simp
qed

section \<open>Steps without callbacks\<close>

text \<open>What such a step leaves of the contexts, objects and Rust objects of its caller.\<close>

definition keeps :: "world \<Rightarrow> world \<Rightarrow> bool" where
  "keeps w w' \<longleftrightarrow>
     (\<forall>a ty. open_at w a ty \<longrightarrow> open_at w' a ty) \<and> (\<forall>y. unowned (view w) y \<longrightarrow> r_res (w_rust w) y \<noteq> None \<longrightarrow> unowned (view w') y)
     \<and> (\<forall>i. w_objs w i \<noteq> None \<longrightarrow> w_objs w' i \<noteq> None)
     \<and> (\<forall>x k. r_res (w_rust w) x = Some k \<longrightarrow> r_res (w_rust w') x = Some k)"

lemma keeps_trans: "keeps u v \<Longrightarrow> keeps v t \<Longrightarrow> keeps u t"
  unfolding keeps_def by (metis option.exhaust)

lemma keeps_refl [simp]: "keeps w w"
  by (simp add: keeps_def)

lemma keeps_open: "keeps w w' \<Longrightarrow> open_at w a ty \<Longrightarrow> open_at w' a ty"
  by (simp add: keeps_def)

lemma keeps_res:
  "keeps w w' \<Longrightarrow> r_res (w_rust w) x = Some k \<Longrightarrow> unowned (view w) x \<Longrightarrow>
     r_res (w_rust w') x = Some k \<and> unowned (view w') x"
  by (simp add: keeps_def)

lemma keeps_rust: "rstep (w_rust w) r \<Longrightarrow> keeps w (w\<lparr>w_rust := r\<rparr>)"
  by (auto simp: keeps_def unowned_def rstep_def)

lemma keeps_view:
  assumes "view w' = view w" shows "keeps w w'"
proof -
  have "map_option oview (w_objs w' i) = map_option oview (w_objs w i)" for i
    using arg_cong[OF assms, of "\<lambda>v. vobj v i"] by simp
  then have "w_objs w' i = None \<longleftrightarrow> w_objs w i = None" for i by (metis option.map_disc_iff)
  with assms open_at_view[OF assms] view_rustD[OF assms] show ?thesis by (simp add: keeps_def)
qed

lemma keeps_free_async_op:
  assumes "Inv w" and "w_ops w p = Some x"
  obtains w' where "iroh_free_async_op p w = Inr w'" and "Inv w'" and "ext w w'" and "keeps w w'"
    and "r_tmp (w_rust w') = r_tmp (w_rust w)" and "w_ops w' = (w_ops w)(p := None)"
  by (rule free_async_op_good[OF assms]) (rule that; auto simp: keeps_def)

text \<open>Printing a short-lived id.\<close>

lemma tmp_step:
  assumes "Inv w" and "safe (f (w_rust w)) (\<lambda>(x, r). tmp_added k x (w_rust w) r)"
    and "\<And>x r. tmp_added k x (w_rust w) r \<Longrightarrow> safe (kk (x, w\<lparr>w_rust := r\<rparr>)) Q"
  shows "safe (bnd (in_rust w f) kk) Q"
  using assms by (cases "f (w_rust w)") (auto simp: in_rust_def)

lemma tmp_to_string_added:
  assumes "tmp_added k (Some n) r0 r" obtains s where "tmp_to_string k n r = Inr s"
  using tmp_added_SomeD[OF assms] that by (auto simp: tmp_to_string_def tmp_val_def)

lemma show_prop_step:
  assumes inv: "Inv w" and f: "safe (f (w_rust w)) (\<lambda>(x, r). tmp_added k x (w_rust w) r)"
    and kk: "\<And>w'. Inv w' \<Longrightarrow> ext w w' \<Longrightarrow> keeps w w' \<Longrightarrow> safe (kk w') Q"
  shows "safe (bnd (in_rust w f) (\<lambda>(i, w). bnd (show_prop this prop k i w) kk)) Q"
proof (rule tmp_step[where f = f, OF inv f])
  fix x r
  assume x: "tmp_added k x (w_rust w) r"
  show "safe (case (x, w\<lparr>w_rust := r\<rparr>) of (i, w) \<Rightarrow> bnd (show_prop this prop k i w) kk) Q"
  proof (cases x)
    case None
    with x kk[of "w\<lparr>w_rust := r\<rparr>"] inv show ?thesis
      by (simp add: show_prop_def Inv_rust ext_rust keeps_rust)
  next
    case (Some n)
    obtain s where s: "tmp_to_string k n r = Inr s" using x Some by (auto intro: tmp_to_string_added)
    let ?w = "case s of None \<Rightarrow> w\<lparr>w_rust := r\<rparr> | Some s \<Rightarrow> put_prop this prop (JStr s) (w\<lparr>w_rust := r\<rparr>)"
    have v: "view ?w = view (w\<lparr>w_rust := r\<rparr>)" by (auto split: option.splits)
    have r: "rstep (w_rust w) (r\<lparr>r_tmp := r_tmp (w_rust w)\<rparr>)"
      using rstep_trans[OF tmp_added_rstepD[OF x] rstep_tmp[OF tmp_added_rstepD[OF x] Inv_RInv[OF inv]]] .
    let ?w' = "?w\<lparr>w_rust := r\<lparr>r_tmp := r_tmp (w_rust w)\<rparr>\<rparr>"
    have v': "view ?w' = view (w\<lparr>w_rust := r\<lparr>r_tmp := r_tmp (w_rust w)\<rparr>\<rparr>)" using v by simp
    have "show_prop this prop k x (w\<lparr>w_rust := r\<rparr>) = Inr ?w'"
      using releases_tmp_free[OF Inv_RInv[OF inv] x] view_rustD[OF v] s Some
      by (simp add: show_prop_def releases_def)
    moreover have "Inv ?w'" using Inv_rust[OF inv r] view_Inv[OF v'] by simp
    moreover have "ext w ?w'" using v' by (simp add: ext_def)
    moreover have "keeps w ?w'" using keeps_trans[OF keeps_rust[OF r] keeps_view[OF v']] .
    ultimately show ?thesis using kk by simp
  qed
qed

lemma goodp_show_id:
  assumes inv: "Inv w" and x: "tmp_added k x (w_rust w) r"
  shows "goodp w (show_id k x (w\<lparr>w_rust := r\<rparr>))"
proof (cases x)
  case None
  with x inv show ?thesis by (simp add: show_id_def Inv_rust ext_rust)
next
  case (Some n)
  obtain s where s: "tmp_to_string k n r = Inr s" using x Some by (auto intro: tmp_to_string_added)
  have "goodp w (bnd (in_rust' (w\<lparr>w_rust := r\<rparr>) (tmp_free k x)) (\<lambda>w. Inr (Ret (JStr (or_default s [])), w)))"
    by (rule scoped_throw[OF inv tmp_added_rstepD[OF x] releases_tmp_free[OF Inv_RInv[OF inv] x]])
  with s Some show ?thesis by (simp add: show_id_def)
qed

section \<open>Contexts get their Rust objects\<close>

lemma core_res_upd [simp]:
  "core (c\<lparr>endpoint := y\<rparr>) = (core c)\<lparr>v_res := (res_of c)(KEndpoint := y)\<rparr>"
  "core (c\<lparr>conn_p := y\<rparr>) = (core c)\<lparr>v_res := (res_of c)(KConnection := y)\<rparr>"
  "core (c\<lparr>send_p := y\<rparr>) = (core c)\<lparr>v_res := (res_of c)(KSendStream := y)\<rparr>"
  "core (c\<lparr>recv_p := y\<rparr>) = (core c)\<lparr>v_res := (res_of c)(KRecvStream := y)\<rparr>"
  "core (c\<lparr>gossip_p := y\<rparr>) = (core c)\<lparr>v_res := (res_of c)(KGossip := y)\<rparr>"
  "core (c\<lparr>topic_handle := y\<rparr>) = (core c)\<lparr>v_res := (res_of c)(KGossipTopic := y)\<rparr>"
  "core (c\<lparr>blob_store := y\<rparr>) = (core c)\<lparr>v_res := (res_of c)(KBlobStore := y)\<rparr>"
  "core (c\<lparr>blobs_proto := y\<rparr>) = (core c)\<lparr>v_res := (res_of c)(KBlobsProtocol := y)\<rparr>"
  "core (c\<lparr>docs_p := y\<rparr>) = (core c)\<lparr>v_res := (res_of c)(KDocs := y)\<rparr>"
  "core (c\<lparr>router := y\<rparr>) = (core c)\<lparr>v_res := (res_of c)(KRouter := y)\<rparr>"
  by (simp add: core_def pending_def pending_ok_def, rule ext, rename_tac k, case_tac k; simp)+

lemma set_res_step:
  assumes inv: "Inv w" and a: "open_at w a ty" and i: "i \<in> kinds ty"
    and f: "\<And>c. core (f c) = (core c)\<lparr>v_res := (res_of c)(i := y)\<rparr>"
    and y: "\<And>x. y = Some x \<Longrightarrow> r_res (w_rust w) x = Some i \<and> unowned (view w) x"
  obtains w' where "upd_ctx a f w = Inr w'" and "Inv w'" and "ext w w'"
    and "\<forall>a ty. open_at w a ty \<longrightarrow> open_at w' a ty" and "w_ops w' = w_ops w"
    and "w_rust w' = w_rust w" and "w_objs w' = w_objs w"
    and "\<forall>z. unowned (view w) z \<longrightarrow> y \<noteq> Some z \<longrightarrow> unowned (view w') z"
proof -
  obtain c where c: "w_ctxs w a = Some c" "obj_type c = ty" "\<not> has_flag (flags c) 1"
    using a by (auto simp: open_at_def)
  let ?w = "put_ctx a (f c) w"
  have view: "view ?w = (view w)\<lparr>vc := (vc (view w))(a \<mapsto> (core c)\<lparr>v_res := (v_res (core c))(i := y)\<rparr>)\<rparr>"
    by (simp add: f)
  have "VInv (view ?w)"
    unfolding view by (rule VInv_set_res) (use inv c i y in \<open>auto simp: Inv_def\<close>)
  moreover have "ctx_ext (view w) (view ?w)" unfolding view using c by (auto simp: ctx_ext_def)
  moreover have op: "\<forall>b t. open_at w b t \<longrightarrow> open_at ?w b t"
  proof (intro allI impI)
    fix b t
    assume "open_at w b t"
    moreover have "obj_type (f c) = obj_type c" "has_flag (flags (f c)) 1 = has_flag (flags c) 1"
      using arg_cong[OF f[of c], of v_ty] arg_cong[OF f[of c], of v_closed] by simp_all
    ultimately show "open_at ?w b t" using c by (auto simp: open_at_def put_ctx_def)
  qed
  moreover have "\<forall>z. unowned (view w) z \<longrightarrow> y \<noteq> Some z \<longrightarrow> unowned (view ?w) z"
    unfolding view unowned_def using c by (auto split: if_splits) (metis core_sel(7))
  ultimately show ?thesis
    using c by (intro that[of ?w]) (simp_all add: upd_ctx_def Inv_def ext_def)
qed

text \<open>A getter puts a part of a result into the context of its operation.\<close>

lemma take_into:
  assumes inv: "Inv w" and a: "open_at w a ty" and i: "i \<in> kinds ty"
    and f: "\<And>y c. core (f y c) = (core c)\<lparr>v_res := (res_of c)(i := y)\<rparr>"
    and get: "gets_box i (w_rust w) (get (w_rust w))"
    and k: "\<And>y w'. Inv w' \<Longrightarrow> ext w w' \<Longrightarrow> open_at w' a ty \<Longrightarrow> w_ops w' = w_ops w \<Longrightarrow> frees p w' (k y w')"
  shows "frees p w (bnd (in_rust w get) (\<lambda>(y, w). bnd (upd_ctx a (f y) w) (k y)))"
proof (cases "get (w_rust w)")
  case (Inl e)
  with get show ?thesis by (simp add: gets_box_def in_rust_def)
next
  case (Inr x)
  obtain y r where x: "x = (y, r)" by force
  with Inr get have r: "rstep (w_rust w) r" "r_tmp r = r_tmp (w_rust w)"
    "\<And>n. y = Some n \<Longrightarrow> r_next (w_rust w) \<le> n \<and> r_res r n = Some i" by (auto simp: gets_box_def)
  let ?w = "w\<lparr>w_rust := r\<rparr>"
  have un: "unowned (view w) n" if "y = Some n" for n
    using unowned_fresh[of "view w" n] inv r(3)[OF that] by (simp add: Inv_def)
  have "r_res (w_rust ?w) n = Some i \<and> unowned (view ?w) n" if "y = Some n" for n
    using un[OF that] r(3)[OF that] by (simp add: unowned_def)
  with Inv_rust[OF inv r(1)] a i f obtain w' where w': "upd_ctx a (f y) ?w = Inr w'" "Inv w'" "ext ?w w'"
    "\<forall>a ty. open_at ?w a ty \<longrightarrow> open_at w' a ty" "w_ops w' = w_ops ?w"
    by (auto intro: set_res_step[of ?w a ty i "f y" y])
  from ext_trans[OF ext_rust[OF r(2)] w'(3)] have e: "ext w w'" .
  have "frees p w' (k y w')" using w' a e by (intro k) auto
  from frees_ext[OF e this] w'(1) Inr x show ?thesis by (simp add: in_rust_def)
qed

section \<open>New contexts\<close>

lemma view_new_obj:
  "new_obj ob w = (i, w') \<Longrightarrow>
     i = w_nextobj w \<and> w_objs w' i = Some ob \<and>
     view w' = (view w)\<lparr>vobj := (vobj (view w))(w_nextobj w \<mapsto> oview ob), vno := Suc (w_nextobj w)\<rparr>"
  by (auto simp: new_obj_def view_def)

lemma new_obj_step:
  assumes inv: "Inv w" and ob: "o_ictx ob = None" and n: "new_obj ob w = (i, w')"
  shows "Inv w' \<and> ext w w' \<and> keeps w w' \<and> w_objs w' i = Some ob \<and> w_rust w' = w_rust w"
proof -
  note v = view_new_obj[OF n]
  have "Inv w'"
    using VInv_new_obj[of "view w" "o_events ob \<noteq> None"] inv v ob by (simp add: Inv_def oview_def)
  moreover have "ctx_ext (view w) (view w')" using v by (auto simp: ctx_ext_def)
  moreover have "w_rust w' = w_rust w" "w_ctxs w' = w_ctxs w"
    "w_objs w' = (w_objs w)(i \<mapsto> ob)" using n by (auto simp: new_obj_def)
  ultimately show ?thesis by (auto simp: ext_def keeps_def open_at_def unowned_def)
qed

lemma init_emitter_step:
  assumes inv: "Inv w" and i: "w_objs w i \<noteq> None"
  shows "Inv (init_emitter i w) \<and> ext w (init_emitter i w) \<and> keeps w (init_emitter i w)
     \<and> (\<exists>ob. w_objs (init_emitter i w) i = Some ob \<and> o_events ob \<noteq> None)
     \<and> w_rust (init_emitter i w) = w_rust w"
proof -
  obtain ob where ob: "w_objs w i = Some ob" using i by auto
  let ?w = "init_emitter i w"
  have view: "view ?w = (view w)\<lparr>vobj := (vobj (view w))(i \<mapsto> (True, o_ictx ob))\<rparr>"
    using ob by (auto simp: view_def init_emitter_def upd_obj_def oview_def)
  have "VInv (view ?w)"
    unfolding view by (rule VInv_obj_events) (use inv ob in \<open>auto simp: Inv_def oview_def\<close>)
  moreover have "ctx_ext (view w) (view ?w)" unfolding view by (auto simp: ctx_ext_def)
  ultimately show ?thesis
    using ob by (auto simp: Inv_def ext_def keeps_def open_at_def unowned_def init_emitter_def upd_obj_def)
qed

lemma core_zero_ctx:
  "core (zero_ctx i ty par key) = \<lparr>v_this = i, v_ty = ty, v_par = par, v_closed = False, v_pend = [],
     v_pok = True, v_res = (\<lambda>_. None)\<rparr>"
proof -
  have "res_of (zero_ctx i ty par key) k = None" for k by (cases k) (simp_all add: zero_ctx_def)
  then show ?thesis by (auto simp: core_def zero_ctx_def pending_def pending_ok_def)
qed

lemma new_ctx_step:
  assumes inv: "Inv w" and i: "w_objs w i = Some ob" "o_events ob \<noteq> None"
    and par: "\<And>q. par = Some q \<Longrightarrow> \<exists>tq. open_at w q tq \<and> stable tq"
    and n: "new_ctx i ty par w = (a, w')"
  shows "Inv w' \<and> ext w w' \<and> keeps w w' \<and> open_at w' a ty \<and> w_objs w' i \<noteq> None \<and> w_rust w' = w_rust w"
proof -
  have a: "a = w_next w" and new: "w_ctxs w (w_next w) = None"
    using n inv by (auto simp: new_ctx_def Inv_def VInv_def fresh_ok_def)
  let ?k = "core (zero_ctx i ty par (w_this_id w))"
  have view: "view w' = (view w)\<lparr>vc := (vc (view w))(a \<mapsto> ?k), vobj := (vobj (view w))(i \<mapsto> (True, Some a)),
      vn := Suc a\<rparr>"
    using n i by (auto simp: new_ctx_def view_def upd_obj_def put_ctx_def oview_def)
  have "\<exists>kq. vc (view w) q = Some kq \<and> stable (v_ty kq)" if "par = Some q" for q
    using par[OF that] by (auto simp: open_at_def)
  then have "VInv (view w')"
    unfolding view using inv i a
    by (intro VInv_new_ctx[where ic = "o_ictx ob" and ty = ty and par = par])
      (auto simp: Inv_def core_zero_ctx oview_def)
  moreover have "ctx_ext (view w) (view w')"
    unfolding view using new a by (auto simp: ctx_ext_def)
  moreover have "unowned (view w') y" if "unowned (view w) y" for y
    using that unfolding view unowned_def by (auto simp: core_zero_ctx)
  ultimately show ?thesis
    using n new a
    by (auto simp: Inv_def ext_def keeps_def open_at_def new_ctx_def upd_obj_def put_ctx_def zero_ctx_def i)
qed

lemma inert_step:
  assumes "view w' = view w" and "Inv w"
  shows "Inv w' \<and> ext w w' \<and> keeps w w' \<and> w_rust w' = w_rust w"
  using assms(2) view_Inv[OF assms(1)] view_ext[OF assms(1)] keeps_view[OF assms(1)]
    view_rustD[OF assms(1)] by simp

text \<open>A fresh object with an open context of type \<open>ty\<close>; \<open>g\<close> sets visible properties only.\<close>

lemma fresh_context:
  assumes inv: "Inv w" and par: "\<And>q. par = Some q \<Longrightarrow> \<exists>tq. open_at w q tq \<and> stable tq"
    and n: "new_obj empty_obj w = (this, w1)" and g: "\<And>u. view (g u) = view u"
    and m: "new_ctx this ty par (g (init_emitter this w1)) = (a, w2)"
  shows "Inv w2 \<and> ext w w2 \<and> keeps w w2 \<and> open_at w2 a ty \<and> w_objs w2 this \<noteq> None \<and> w_rust w2 = w_rust w"
proof -
  note s1 = new_obj_step[OF inv _ n, unfolded empty_obj_def, simplified]
  then have o1: "w_objs w1 this \<noteq> None" by simp
  note s2 = init_emitter_step[OF conjunct1[OF s1] o1]
  note s3 = inert_step[OF g[of "init_emitter this w1"] conjunct1[OF s2]]
  have "\<exists>ob. w_objs (g (init_emitter this w1)) this = Some ob \<and> o_events ob \<noteq> None"
    using s2 arg_cong[OF g[of "init_emitter this w1"], of "\<lambda>v. vobj v this"] by (auto simp: oview_def)
  then obtain ob where ob: "w_objs (g (init_emitter this w1)) this = Some ob" "o_events ob \<noteq> None" by auto
  have k: "keeps w (g (init_emitter this w1))" and e: "ext w (g (init_emitter this w1))"
    using s1 s2 s3 by (auto intro: keeps_trans ext_trans)
  have "\<exists>tq. open_at (g (init_emitter this w1)) q tq \<and> stable tq" if "par = Some q" for q
    using par[OF that] keeps_open[OF k] by blast
  from new_ctx_step[OF conjunct1[OF s3] ob this m] k e s1 s2 s3 show ?thesis
    by (auto intro: keeps_trans ext_trans)
qed

lemma push_new_connection_good:
  assumes inv: "Inv w" and par: "open_at w par tp" "stable tp"
    and conn: "r_res (w_rust w) conn = Some KConnection" "unowned (view w) conn"
  shows "goodp w (push_new_connection env par conn w)"
proof -
  obtain this w1 where n: "new_obj empty_obj w = (this, w1)" by force
  obtain a w2 where m: "new_ctx this IROH_OBJ_CONNECTION (Some par) (init_emitter this w1) = (a, w2)" by force
  have s2: "Inv w2" "ext w w2" "keeps w w2" "open_at w2 a IROH_OBJ_CONNECTION"
    using fresh_context[OF inv _ n, of "Some par" "\<lambda>w. w"] m par by auto
  note c2 = keeps_res[OF s2(3) conn]
  obtain w3 where w3: "upd_ctx a (\<lambda>c. c\<lparr>conn_p := Some conn\<rparr>) w2 = Inr w3" "Inv w3" "ext w2 w3"
    "w_rust w3 = w_rust w2"
    by (rule set_res_step[OF s2(1,4), where i = KConnection and y = "Some conn"
          and f = "\<lambda>c. c\<lparr>conn_p := Some conn\<rparr>"]) (use c2 in auto)
  have r3: "r_res (w_rust w3) conn = Some KConnection" using c2 w3(4) by simp
  let ?rest = "\<lambda>w. bnd (iroh_connection_alpn env (w_rust w) (Some conn)) (\<lambda>alpn.
      let w = (case alpn of None \<Rightarrow> w | Some s \<Rightarrow> put_prop this ''alpn'' (JStr s) w);
          w = put_prop this ''closed'' (JBool False) w in
      Inr (this, gc_protect this (w_this_id w1) w))"
  have key: "w_this_id (init_emitter this w1) = w_this_id w1" by (simp add: init_emitter_def upd_obj_def)
  have "goodp w3 (bnd (in_rust w3 (\<lambda>r. iroh_connection_remote_id env r (Some conn))) (\<lambda>(i, w).
      bnd (show_prop this ''remoteId'' TPublicKey i w) ?rest))"
  proof (rule show_prop_step[OF w3(2)])
    show "safe (iroh_connection_remote_id env (w_rust w3) (Some conn)) (\<lambda>(x, r). tmp_added TPublicKey x (w_rust w3) r)"
      by (rule gets_connection_info(1)[OF Inv_RInv[OF w3(2)] r3])
    fix w4
    assume w4: "Inv w4" "ext w3 w4" "keeps w3 w4"
    have "safe (iroh_connection_alpn env (w_rust w4) (Some conn)) (\<lambda>_. True)"
      using w4(3) r3 by (intro gets_connection_info(2)[OF Inv_RInv[OF w4(1)]]) (simp add: keeps_def)
    then show "goodp w3 (?rest w4)"
    proof (rule safe_bndI)
      fix alpn
      let ?w = "gc_protect this (w_this_id w1) (put_prop this ''closed'' (JBool False)
        (case alpn of None \<Rightarrow> w4 | Some s \<Rightarrow> put_prop this ''alpn'' (JStr s) w4))"
      have "view ?w = view w4" by (auto split: option.splits)
      from inert_step[OF this w4(1)] ext_trans[OF w4(2)]
      show "goodp w3 (let w = (case alpn of None \<Rightarrow> w4 | Some s \<Rightarrow> put_prop this ''alpn'' (JStr s) w4);
          w = put_prop this ''closed'' (JBool False) w in
        Inr (this, gc_protect this (w_this_id w1) w))"
        by (auto simp: Let_def)
    qed
  qed
  from goodp_ext[OF ext_trans[OF s2(2) w3(3)] this] show ?thesis
    by (simp add: push_new_connection_def n m w3(1) Let_def key)
qed

lemma push_new_stream_good:
  assumes inv: "Inv w" and par: "open_at w par tp" "stable tp"
    and sp: "r_res (w_rust w) sp = Some KSendStream" "unowned (view w) sp"
    and rp: "r_res (w_rust w) rp = Some KRecvStream" "unowned (view w) rp"
  shows "goodp w (push_new_stream par sp rp w)"
proof -
  obtain this w1 where n: "new_obj empty_obj w = (this, w1)" by force
  obtain a w2 where m: "new_ctx this IROH_OBJ_STREAM (Some par) (init_emitter this w1) = (a, w2)" by force
  have s2: "Inv w2" "ext w w2" "keeps w w2" "open_at w2 a IROH_OBJ_STREAM"
    using fresh_context[OF inv _ n, of "Some par" "\<lambda>w. w"] m par by auto
  note c2 = keeps_res[OF s2(3) sp] keeps_res[OF s2(3) rp]
  obtain w3 where w3: "upd_ctx a (\<lambda>c. c\<lparr>send_p := Some sp\<rparr>) w2 = Inr w3" "Inv w3" "ext w2 w3"
    "w_rust w3 = w_rust w2" "open_at w3 a IROH_OBJ_STREAM" "unowned (view w3) rp"
    by (rule set_res_step[OF s2(1,4), where i = KSendStream and y = "Some sp"
          and f = "\<lambda>c. c\<lparr>send_p := Some sp\<rparr>"]) (use c2 s2(4) in auto)
  obtain w4 where w4: "upd_ctx a (\<lambda>c. c\<lparr>recv_p := Some rp\<rparr>) w3 = Inr w4" "Inv w4" "ext w3 w4"
    by (rule set_res_step[OF w3(2,5), where i = KRecvStream and y = "Some rp"
          and f = "\<lambda>c. c\<lparr>recv_p := Some rp\<rparr>"]) (use c2 w3 in auto)
  have "upd_ctx a (\<lambda>c. c\<lparr>send_p := Some sp, recv_p := Some rp\<rparr>) w2 = Inr w4"
    using w3(1) w4(1) by (auto simp: upd_ctx_def get_ctx_def put_ctx_def bnd_eq_Inr split: option.splits)
  moreover have "Inv (gc_protect this k (put_prop this s v (put_prop this s' v' w4)))
      \<and> ext w (gc_protect this k (put_prop this s v (put_prop this s' v' w4)))" for k s v s' v'
    using inert_step[OF _ w4(2), of "gc_protect this k (put_prop this s v (put_prop this s' v' w4))"]
      s2(2) w3(3) w4(3) by (auto intro: ext_trans)
  ultimately show ?thesis by (simp add: push_new_stream_def n m Let_def)
qed

end
