(* ===== verification/Teardown.thy ===== *)
theory Teardown
  imports Steps
begin

text \<open>
  \<open>iroh_cleanup\<close> under the invariant: releasing the operations of a context, freeing the Rust
  objects it owns, detaching its JavaScript object; then the \<open>close\<close> event; then the context.
\<close>

section \<open>Releasing everything a context holds\<close>

text \<open>The operations \<open>ps\<close> can be released: each is live, has its event and a handle of its own.\<close>

definition cancellable :: "opaddr list \<Rightarrow> world \<Rightarrow> bool" where
  "cancellable ps w \<longleftrightarrow>
     distinct ps
     \<and> (\<forall>p \<in> set ps. \<exists>x h. w_ops w p = Some x \<and> aop_ev x = Some p \<and> w_evs w p
          \<and> aop_handle x = Some h \<and> handle_live (w_rust w) h)
     \<and> (\<forall>p \<in> set ps. \<forall>q \<in> set ps. \<forall>x y. w_ops w p = Some x \<and> w_ops w q = Some y
          \<and> aop_handle x = aop_handle y \<longrightarrow> p = q)"

text \<open>What is left after the operations \<open>ps\<close> of \<open>w\<close> are released.\<close>

definition cancelled :: "opaddr list \<Rightarrow> world \<Rightarrow> rust \<Rightarrow> bool" where
  "cancelled ps w r \<longleftrightarrow>
     r_res r = r_res (w_rust w) \<and> r_tmp r = r_tmp (w_rust w) \<and> r_next r = r_next (w_rust w)
     \<and> (RInv (w_rust w) \<longrightarrow> RInv r) \<and> same_tasks (w_rust w) r
     \<and> (\<forall>h. handle_live (w_rust w) h \<longrightarrow>
          (\<forall>p x. p \<in> set ps \<and> w_ops w p = Some x \<longrightarrow> aop_handle x \<noteq> Some h) \<longrightarrow> handle_live r h)"

lemma cancel_op_rust:
  assumes "r_handles r h = Some ah" and "h_cref ah"
  obtains r' where "iroh_async_cancel r (Some h) = Inr r'"
    and "iroh_async_free r' (Some h) = Inr (put_handle h (ah\<lparr>h_state := Cancelled, h_cref := False\<rparr>) r)"
  using assms
  by (intro that[of "put_handle h (ah\<lparr>h_state := Cancelled\<rparr>) r"])
    (simp_all add: iroh_async_cancel_def iroh_async_free_def get_handle_def put_handle_def)

lemma cancel_ops_ok:
  assumes "cancellable ps w"
  shows "\<exists>r. cancel_ops ps w = Inr (w\<lparr>w_evs := (\<lambda>p. p \<notin> set ps \<and> w_evs w p), w_rust := r,
     w_ops := (\<lambda>p. if p \<in> set ps then None else w_ops w p)\<rparr>) \<and> cancelled ps w r"
  using assms
proof (induction ps arbitrary: w)
  case Nil
  show ?case by (rule exI[of _ "w_rust w"]) (simp add: cancelled_def)
next
  case (Cons p ps)
  obtain x h where x: "w_ops w p = Some x" "aop_ev x = Some p" "w_evs w p" "aop_handle x = Some h"
    "handle_live (w_rust w) h"
    using Cons.prems unfolding cancellable_def by (meson list.set_intros(1))
  then obtain ah where ah: "r_handles (w_rust w) h = Some ah" "h_cref ah" by (auto simp: handle_live_def)
  let ?r = "put_handle h (ah\<lparr>h_state := Cancelled, h_cref := False\<rparr>) (w_rust w)"
  let ?w = "w\<lparr>w_evs := (w_evs w)(p := False), w_rust := ?r, w_ops := (w_ops w)(p := None)\<rparr>"
  obtain r1 where r1: "iroh_async_cancel (w_rust w) (Some h) = Inr r1" "iroh_async_free r1 (Some h) = Inr ?r"
    using cancel_op_rust[OF ah] .
  have step: "cancel_ops (p # ps) w = cancel_ops ps ?w"
    using x r1 by (simp add: event_free_def in_rust'_def free_op_def)
  have other: "w_ops w q = Some y \<Longrightarrow> aop_handle y \<noteq> Some h" if "q \<in> set ps" for q y
    using Cons.prems that x unfolding cancellable_def by (metis distinct.simps(2) list.set_intros)
  have "cancellable ps ?w"
    unfolding cancellable_def
  proof (intro conjI ballI)
    fix q assume q: "q \<in> set ps"
    then obtain y g where y: "w_ops w q = Some y" "aop_ev y = Some q" "w_evs w q" "aop_handle y = Some g"
      "handle_live (w_rust w) g"
      using Cons.prems unfolding cancellable_def by (meson list.set_intros(2))
    with other[OF q y(1)] have "g \<noteq> h" by auto
    with y(5) have g: "handle_live ?r g" by (simp add: handle_live_def)
    have qp: "q \<noteq> p" using Cons.prems q by (auto simp: cancellable_def)
    show "\<exists>y g. w_ops ?w q = Some y \<and> aop_ev y = Some q \<and> w_evs ?w q \<and> aop_handle y = Some g
        \<and> handle_live (w_rust ?w) g"
      using y(1-4) g qp by simp
  next
    fix q s assume "q \<in> set ps" "s \<in> set ps"
    with Cons.prems show "\<forall>x y. w_ops ?w q = Some x \<and> w_ops ?w s = Some y \<and> aop_handle x = aop_handle y \<longrightarrow> q = s"
      by (simp add: cancellable_def)
  qed (use Cons.prems in \<open>simp add: cancellable_def\<close>)
  from Cons.IH[OF this] obtain r where r: "cancel_ops ps ?w = Inr (?w\<lparr>w_evs := (\<lambda>p. p \<notin> set ps \<and> w_evs ?w p),
     w_rust := r, w_ops := (\<lambda>p. if p \<in> set ps then None else w_ops ?w p)\<rparr>)" "cancelled ps ?w r" by blast
  have "RInv (w_rust w) \<Longrightarrow> RInv ?r" using ah by (auto simp: RInv_def rfresh_def tasks_ok_def attended_upd(2))
  with r(2) have inv: "RInv (w_rust w) \<longrightarrow> RInv r" by (simp add: cancelled_def)
  have live: "handle_live r g" if g: "handle_live (w_rust w) g"
    "\<forall>q y. q \<in> set (p # ps) \<and> w_ops w q = Some y \<longrightarrow> aop_handle y \<noteq> Some g" for g
  proof -
    have "g \<noteq> h" using g(2) x by auto
    with g(1) have "handle_live ?r g" by (simp add: handle_live_def)
    moreover have "\<forall>q y. q \<in> set ps \<and> w_ops ?w q = Some y \<longrightarrow> aop_handle y \<noteq> Some g"
      using g(2) by (auto split: if_splits)
    ultimately show ?thesis using r(2) unfolding cancelled_def by simp
  qed
  have "same_tasks (w_rust w) ?r" by (rule same_tasks_put_handle[OF ah(1)]) simp_all
  with r(2) have "same_tasks (w_rust w) r" by (auto simp: cancelled_def elim: same_tasks_trans)
  with r(2) inv live have "cancelled (p # ps) w r" unfolding cancelled_def by simp
  with r(1) step show ?case
    by (intro exI[of _ r]) (auto simp: fun_eq_iff)
qed

lemma free_all_ok:
  assumes "distinct (map fst xs)" and "\<forall>(k, y) \<in> set xs. \<forall>x. y = Some x \<longrightarrow> r_res r x = Some k"
  shows "free_all xs r = Inr (r\<lparr>r_res := (\<lambda>x. if Some x \<in> snd ` set xs then None else r_res r x)\<rparr>)"
  using assms
proof (induction xs arbitrary: r)
  case Nil
  show ?case by simp
next
  case (Cons ky xs)
  obtain k y where ky: "ky = (k, y)" by force
  show ?case
  proof (cases y)
    case None
    with Cons.IH[of r] Cons.prems ky show ?thesis by (simp add: iroh_free_def)
  next
    case (Some x)
    with Cons.prems ky have x: "r_res r x = Some k" by simp
    let ?r = "r\<lparr>r_res := (r_res r)(x := None)\<rparr>"
    have "z \<noteq> x \<and> r_res r z = Some l" if "(l, Some z) \<in> set xs" for l z
    proof -
      from that Cons.prems(2) have "r_res r z = Some l" by auto
      moreover from that Cons.prems(1) ky have "l \<noteq> k" by force
      ultimately show ?thesis using x by auto
    qed
    then have "free_all xs ?r = Inr (?r\<lparr>r_res := (\<lambda>x. if Some x \<in> snd ` set xs then None else r_res ?r x)\<rparr>)"
      using Cons.prems(1) by (intro Cons.IH) auto
    with x Some ky show ?thesis by (auto simp: iroh_free_def box_from_raw_def fun_eq_iff)
  qed
qed

lemma distinct_owned: "distinct (map fst (owned c))"
  by (cases "obj_type c") (simp_all add: owned_def)

lemma owned_iff: "(k, y) \<in> set (owned c) \<longleftrightarrow> k \<in> kinds (obj_type c) \<and> y = res_of c k"
  by (cases "obj_type c") (auto simp: owned_def)

text \<open>A context as it is when its \<open>close\<close> listeners run.\<close>

definition closed_ctx :: "RPIROH \<Rightarrow> RPIROH" where
  "closed_ctx c = clear_owned (c\<lparr>flags := set_flag (flags c) RPIROH_FLAG_CLOSED, pending_ops := [],
     npending := 0, pending_alloc := 0\<rparr>)"

lemma core_closed_ctx:
  assumes "\<forall>i x. res_of c i = Some x \<longrightarrow> i \<in> kinds (obj_type c)"
  shows "core (closed_ctx c) =
     (core c)\<lparr>v_closed := True, v_pend := [], v_pok := True, v_res := (\<lambda>_. None)\<rparr>"
proof -
  have "res_of c i = None" if "i \<notin> kinds (obj_type c)" for i using assms that by (cases "res_of c i") auto
  note none = this[of KEndpoint] this[of KConnection] this[of KSendStream] this[of KRecvStream]
    this[of KGossip] this[of KGossipTopic] this[of KBlobStore] this[of KBlobsProtocol] this[of KDocs]
    this[of KRouter]
  have "res_of (closed_ctx c) i = None" for i
    using none by (cases "obj_type c"; cases i) (simp_all add: closed_ctx_def clear_owned_def)
  then have "res_of (closed_ctx c) = (\<lambda>_. None)" by auto
  then show ?thesis
    by (cases "obj_type c")
      (auto simp: core_def closed_ctx_def clear_owned_def pending_def pending_ok_def)
qed

lemma cancellable_pending:
  assumes inv: "Inv w" and c: "w_ctxs w a = Some c"
  shows "cancellable (pending c) w"
proof -
  have k: "ctx_ok (view w) a (core c)" by (rule Inv_ctx[OF assms])
  have "\<exists>x h. w_ops w p = Some x \<and> aop_ev x = Some p \<and> w_evs w p \<and> aop_handle x = Some h
      \<and> handle_live (w_rust w) h" if p: "p \<in> set (pending c)" for p
  proof -
    obtain x where x: "w_ops w p = Some x" using k p by (auto simp: ctx_ok_def)
    from Inv_op[OF inv x] x show ?thesis by (auto simp: op_ok_def)
  qed
  with k inv show ?thesis
    by (auto simp: cancellable_def ctx_ok_def Inv_def VInv_def handles_ok_def)
qed

text \<open>
  \<open>iroh_cleanup\<close> up to the \<open>close\<close> event: every operation of the context is released, its Rust
  objects are freed, its object is detached, and the invariant holds again.
\<close>

definition cleaned :: "addr \<Rightarrow> RPIROH \<Rightarrow> rust \<Rightarrow> world \<Rightarrow> world" where
  "cleaned a c r w =
     snd (iroh_del_gs_object ''iroh_connkeymap'' (Some (keystr (thiskey c)))
       (put_ctx a (closed_ctx c)
         ((upd_obj (thisptr c) (\<lambda>ob. ob\<lparr>o_ictx := None\<rparr>)
            (put_prop (thisptr c) ''closed'' (JBool True) w))
          \<lparr>w_evs := (\<lambda>p. p \<notin> set (pending c) \<and> w_evs w p),
           w_ops := (\<lambda>p. if p \<in> set (pending c) then None else w_ops w p), w_rust := r\<rparr>)))"

text \<open>The rest of \<open>iroh_cleanup\<close>: the \<open>close\<close> event, then the context itself.\<close>

definition cleanup_end ::
  "'e env_scheme \<Rightarrow> jscode \<Rightarrow> addr \<Rightarrow> objid \<Rightarrow> bool \<Rightarrow> world \<Rightarrow> fault + jsres \<times> world" where
  "cleanup_end env js a this docb w =
     bnd (if docb then iroh_do_callback env js this ''close'' None w else Inr (Ret JUndefined, w))
       (\<lambda>(res, w). case res of Throw m \<Rightarrow> Inr (Throw m, w)
          | Ret _ \<Rightarrow> bnd (free_ctx a w) (\<lambda>w. Inr (Ret JUndefined, w)))"

lemma cleanup_eq:
  assumes c: "w_ctxs w a = Some c" "\<not> has_flag (flags c) RPIROH_FLAG_CLOSED"
    and can: "cancellable (pending c) w"
    and res: "\<And>i x. res_of c i = Some x \<Longrightarrow> i \<in> kinds (obj_type c) \<Longrightarrow> r_res (w_rust w) x = Some i"
  obtains r where "cancelled (pending c) w r"
    and "\<And>(env :: 'e env_scheme) js docb. iroh_cleanup env js (Some a) docb w =
      cleanup_end env js a (thisptr c) docb
        (cleaned a c (r\<lparr>r_res := (\<lambda>x. if Some x \<in> snd ` set (owned c) then None else r_res r x)\<rparr>) w)"
proof -
  let ?c1 = "c\<lparr>flags := set_flag (flags c) 1\<rparr>"
  let ?w0 = "upd_obj (thisptr c) (\<lambda>ob. ob\<lparr>o_ictx := None\<rparr>)
     (put_prop (thisptr c) ''closed'' (JBool True) (put_ctx a ?c1 w))"
  have "cancellable (pending c) ?w0" using can by (simp add: cancellable_def)
  from cancel_ops_ok[OF this] obtain r where
    r: "cancel_ops (pending c) ?w0 = Inr (?w0\<lparr>w_evs := (\<lambda>p. p \<notin> set (pending c) \<and> w_evs w p),
       w_rust := r, w_ops := (\<lambda>p. if p \<in> set (pending c) then None else w_ops w p)\<rparr>)" "cancelled (pending c) ?w0 r"
    by (auto cong: if_cong)
  let ?r = "r\<lparr>r_res := (\<lambda>x. if Some x \<in> snd ` set (owned c) then None else r_res r x)\<rparr>"
  have can': "cancelled (pending c) w r" using r(2) by (simp add: cancelled_def)
  have fr: "free_all (owned c) r = Inr ?r"
    using res can' by (intro free_all_ok[OF distinct_owned]) (auto simp: owned_iff cancelled_def)
  let ?w1 = "?w0\<lparr>w_evs := (\<lambda>p. p \<notin> set (pending c) \<and> w_evs w p), w_rust := r,
       w_ops := (\<lambda>p. if p \<in> set (pending c) then None else w_ops w p)\<rparr>"
  have u1: "upd_ctx a (\<lambda>c. c\<lparr>pending_ops := [], npending := 0, pending_alloc := 0\<rparr>) ?w1
      = Inr (put_ctx a (c\<lparr>flags := set_flag (flags c) 1, pending_ops := [], npending := 0, pending_alloc := 0\<rparr>) ?w1)"
    by (simp add: upd_ctx_def)
  have "iroh_cleanup env js (Some a) docb w = cleanup_end env js a (thisptr c) docb (cleaned a c ?r w)"
    for env :: "'e env_scheme" and js docb
    using c fr r(1) u1
    by (simp add: iroh_cleanup_def cleanup_end_def set_flags_def upd_ctx_def Let_def in_rust'_def
        get_ctx_def cleaned_def closed_ctx_def put_ctx_def upd_obj_def put_prop_def)
  with can' show ?thesis by (rule that)
qed

lemma view_cleaned:
  assumes c: "w_ctxs w a = Some c" and res: "\<forall>i x. res_of c i = Some x \<longrightarrow> i \<in> kinds (obj_type c)"
  shows "view (cleaned a c r w) = (view w)
     \<lparr>vc := (vc (view w))(a \<mapsto> (core c)\<lparr>v_closed := True, v_pend := [], v_pok := True, v_res := (\<lambda>_. None)\<rparr>),
      vo := (\<lambda>p. if p \<in> set (v_pend (core c)) then None else vo (view w) p),
      ve := (\<lambda>p. p \<notin> set (v_pend (core c)) \<and> ve (view w) p),
      vobj := (vobj (view w))(v_this (core c) := map_option (\<lambda>(b, _). (b, None)) (vobj (view w) (v_this (core c)))),
      vr := r\<rparr>"
proof -
  have "view (cleaned a c r w) = view (put_ctx a (closed_ctx c)
         ((upd_obj (thisptr c) (\<lambda>ob. ob\<lparr>o_ictx := None\<rparr>)
            (put_prop (thisptr c) ''closed'' (JBool True) w))
          \<lparr>w_evs := (\<lambda>p. p \<notin> set (pending c) \<and> w_evs w p),
           w_ops := (\<lambda>p. if p \<in> set (pending c) then None else w_ops w p), w_rust := r\<rparr>))"
    by (simp only: cleaned_def view_gs)
  also have "\<dots> = (view w)
     \<lparr>vc := (vc (view w))(a \<mapsto> core (closed_ctx c)),
      vo := (\<lambda>p. if p \<in> set (v_pend (core c)) then None else vo (view w) p),
      ve := (\<lambda>p. p \<notin> set (v_pend (core c)) \<and> ve (view w) p),
      vobj := (vobj (view w))(v_this (core c) := map_option (\<lambda>(b, _). (b, None)) (vobj (view w) (v_this (core c)))),
      vr := r\<rparr>"
    by (rule vw.equality)
      (simp_all add: view_def put_ctx_def fun_eq_iff upd_obj_def put_prop_def option.map_comp comp_def oview_def)
  finally show ?thesis by (simp only: core_closed_ctx[OF res])
qed

lemma cleanup_pre:
  assumes inv: "Inv w" and c: "w_ctxs w a = Some c" "\<not> has_flag (flags c) RPIROH_FLAG_CLOSED"
    and ty: "\<not> stable (obj_type c)"
  obtains w1 c1 where "Inv w1" and "ext w w1" and "w_ctxs w1 a = Some c1"
    and "has_flag (flags c1) RPIROH_FLAG_CLOSED" and "thisptr c1 = thisptr c"
    and "\<And>(env :: 'e env_scheme) js docb. iroh_cleanup env js (Some a) docb w =
      cleanup_end env js a (thisptr c) docb w1"
proof -
  have res: "r_res (w_rust w) x = Some i" "i \<in> kinds (obj_type c)" if "res_of c i = Some x" for i x
    using Inv_ctx[OF inv c(1)] that by (simp_all add: ctx_ok_def)
  then have kinds: "\<forall>i x. res_of c i = Some x \<longrightarrow> i \<in> kinds (obj_type c)" by blast
  obtain r where r: "cancelled (pending c) w r"
    and eq: "\<And>(env :: 'e env_scheme) js docb. iroh_cleanup env js (Some a) docb w =
      cleanup_end env js a (thisptr c) docb
        (cleaned a c (r\<lparr>r_res := (\<lambda>x. if Some x \<in> snd ` set (owned c) then None else r_res r x)\<rparr>) w)"
    by (rule cleanup_eq[OF c cancellable_pending[OF inv c(1)]]) (use res in auto)
  let ?r = "r\<lparr>r_res := (\<lambda>x. if Some x \<in> snd ` set (owned c) then None else r_res r x)\<rparr>"
  let ?w1 = "cleaned a c ?r w"
  have snd: "Some x \<in> snd ` set (owned c) \<longleftrightarrow> (\<exists>i. res_of c i = Some x)" for x
  proof
    assume "Some x \<in> snd ` set (owned c)"
    then obtain i where "(i, Some x) \<in> set (owned c)" by force
    then show "\<exists>i. res_of c i = Some x" by (auto simp: owned_iff)
  next
    assume "\<exists>i. res_of c i = Some x"
    then obtain i where "res_of c i = Some x" by auto
    with res(2) have "(i, Some x) \<in> set (owned c)" by (simp add: owned_iff)
    then show "Some x \<in> snd ` set (owned c)" by force
  qed
  have "RInv ?r"
  proof -
    have "RInv r" using r Inv_RInv[OF inv] by (simp add: cancelled_def)
    moreover have "i \<notin> borrowable" if "i \<in> kinds (obj_type c)" for i
      using ty that by (cases "obj_type c") (auto simp: borrowable_def)
    moreover have "r_res r = r_res (w_rust w)" using r by (simp add: cancelled_def)
    ultimately show ?thesis
      using res unfolding RInv_def rfresh_def tasks_ok_def snd by simp (metis option.inject)
  qed
  moreover have "r_res ?r x = Some i" if "r_res (w_rust w) x = Some i" "res_of c i \<noteq> Some x" for x i
    using r that res(1) by (auto simp: cancelled_def snd)
  moreover have "handle_live ?r h" if "handle_live (w_rust w) h"
    "\<forall>p x. p \<in> set (pending c) \<and> w_ops w p = Some x \<longrightarrow> aop_handle x \<noteq> Some h" for h
    using r that by (simp add: cancelled_def handle_live_def)
  moreover have "works_on ?r h op" if "works_on (w_rust w) h op" for h op
    using same_tasks_works_on[OF _ that, of r] r by (simp add: cancelled_def works_on_def)
  ultimately have "VInv (view ?w1)"
    unfolding view_cleaned[OF c(1) kinds]
    by (intro VInv_closing) (use inv c ty in \<open>simp_all add: Inv_def\<close>)
  then have inv1: "Inv ?w1" by (simp add: Inv_def)
  have "ctx_ext (view w) (view ?w1)"
    unfolding view_cleaned[OF c(1) kinds] using c ty by (auto simp: ctx_ext_def)
  moreover have "w_rust ?w1 = ?r"
    using arg_cong[OF view_cleaned[OF c(1) kinds, of ?r], of vr] by simp
  moreover have "r_tmp r = r_tmp (w_rust w)" using r by (simp add: cancelled_def)
  ultimately have ext1: "ext w ?w1" by (simp add: ext_def)
  have "vc (view ?w1) a = Some ((core c)\<lparr>v_closed := True, v_pend := [], v_pok := True, v_res := (\<lambda>_. None)\<rparr>)"
    unfolding view_cleaned[OF c(1) kinds] by simp
  then obtain c1 where c1: "w_ctxs ?w1 a = Some c1"
    "core c1 = (core c)\<lparr>v_closed := True, v_pend := [], v_pok := True, v_res := (\<lambda>_. None)\<rparr>" by auto
  from arg_cong[OF c1(2), of v_closed] arg_cong[OF c1(2), of v_this]
  have "has_flag (flags c1) 1" "thisptr c1 = thisptr c" by simp_all
  with inv1 ext1 c1(1) eq show ?thesis by (intro that[of ?w1 c1]) (simp_all add: Let_def)
qed

lemma free_ctx_good:
  assumes inv: "Inv w" and c: "w_ctxs w a = Some c" "has_flag (flags c) RPIROH_FLAG_CLOSED"
  obtains w' where "free_ctx a w = Inr w'" and "Inv w'"
    and "w' = w\<lparr>w_ctxs := (w_ctxs w)(a := None)\<rparr>"
proof -
  let ?w = "w\<lparr>w_ctxs := (w_ctxs w)(a := None)\<rparr>"
  have "view ?w = (view w)\<lparr>vc := (vc (view w))(a := None)\<rparr>" by (auto simp: view_def)
  with VInv_free_ctx[of "view w" a "core c"] inv c have "Inv ?w" by (simp add: Inv_def)
  with c show ?thesis by (intro that[of ?w]) (simp_all add: free_ctx_def)
qed

end
