(* ===== verification/Callbacks.thy ===== *)
theory Callbacks
  imports Teardown
begin

text \<open>
  The interface between the module and the JavaScript program: a callback keeps the invariant
  and what the code above it on the stack relies on (\<open>js_program\<close>). Everything the module does
  around callbacks is proved once for such programs: firing events, one-shot callbacks, the
  failure branch of the handlers, the teardown of a service.
\<close>

section \<open>Finding what an operation needs\<close>

lemma Inv_inert [simp]: "Inv (log x w) = Inv w" "Inv (put_prop i k v w) = Inv w"
  by (simp_all add: Inv_def)

lemma ext_inert [simp]: "ext w (log x w)" "ext w (put_prop i k v w)"
  by (simp_all add: view_ext)

lemma Inv_obj:
  assumes "Inv w" and "w_ctxs w a = Some c"
  shows "w_objs w (thisptr c) \<noteq> None" and "events_of w (thisptr c) \<noteq> None"
  using Inv_ctx[OF assms] by (auto simp: ctx_ok_def oview_def events_of_def)

lemma ext_obj: "ext w w' \<Longrightarrow> w_objs w i \<noteq> None \<Longrightarrow> w_objs w' i \<noteq> None"
  by (auto simp: ext_def ctx_ext_def)

lemma op_facts:
  assumes "Inv w" and "w_ops w p = Some x"
  obtains ty h where "open_at w (aop_ictx x) ty" and "ty \<in> op_tys (aop_op x)"
    and "aop_handle x = Some h" and "handle_live (w_rust w) h"
proof -
  obtain c h where c: "w_ctxs w (aop_ictx x) = Some c" "p \<in> set (pending c)"
    "obj_type c \<in> op_tys (aop_op x)" "aop_handle x = Some h" "handle_live (w_rust w) h"
    using Inv_op[OF assms] by (auto simp: op_ok_def)
  moreover have "\<not> has_flag (flags c) 1"
    using Inv_ctx[OF assms(1) c(1)] c(2) by (auto simp: ctx_ok_def)
  ultimately show ?thesis by (intro that) (auto simp: open_at_def)
qed

lemma this_ictx_open:
  assumes "Inv w" and "this_ictx w this = Some a"
  obtains c where "w_ctxs w a = Some c" and "thisptr c = this" and "open_at w a (obj_type c)"
proof -
  obtain ob where "w_objs w this = Some ob" "o_ictx ob = Some a"
    using assms(2) by (auto simp: this_ictx_def split: option.splits)
  then have "vobj (view w) this = Some (o_events ob \<noteq> None, Some a)" by (simp add: oview_def)
  from VInv_objs[OF assms(1)[unfolded Inv_def] this] that show ?thesis by (auto simp: open_at_def)
qed

lemma open_at_ctx: "open_at w a ty \<Longrightarrow> w_ctxs w a \<noteq> None"
  by (auto simp: open_at_def)

text \<open>A result is taken and the operation released.\<close>

lemma take_free_box:
  assumes inv: "Inv w" and p: "w_ops w p = Some x" and get: "gets_box i (w_rust w) (get (w_rust w))"
    and k: "\<And>y w'. Inv w' \<Longrightarrow> ext w w' \<Longrightarrow> \<forall>a ty. open_at w a ty \<longrightarrow> open_at w' a ty \<Longrightarrow>
      \<forall>n. y = Some n \<longrightarrow> r_res (w_rust w') n = Some i \<and> unowned (view w') n \<Longrightarrow> good w' (k y w')"
  shows "frees p w (bnd (in_rust w get) (\<lambda>(y, w). bnd (iroh_free_async_op p w) (k y)))"
proof (cases "get (w_rust w)")
  case (Inl e)
  with get show ?thesis by (simp add: gets_box_def in_rust_def)
next
  case (Inr z)
  obtain y r where z: "z = (y, r)" by force
  with Inr get have r: "rstep (w_rust w) r" "r_tmp r = r_tmp (w_rust w)"
    "\<And>n. y = Some n \<Longrightarrow> r_next (w_rust w) \<le> n \<and> r_res r n = Some i" by (auto simp: gets_box_def)
  let ?w = "w\<lparr>w_rust := r\<rparr>"
  have un: "unowned (view ?w) n" if "y = Some n" for n
    using unowned_fresh[of "view w" n] inv r(3)[OF that] by (simp add: Inv_def unowned_def)
  have "w_ops ?w p = Some x" using p by simp
  then obtain w' where w': "iroh_free_async_op p ?w = Inr w'" "Inv w'" "ext ?w w'"
    "\<forall>a ty. open_at ?w a ty \<longrightarrow> open_at w' a ty" "\<forall>y. unowned (view ?w) y \<longrightarrow> unowned (view w') y"
    "r_res (w_rust w') = r_res r" "w_ops w' = (w_ops ?w)(p := None)"
    by (rule free_async_op_good[OF Inv_rust[OF inv r(1)]]) simp
  have e: "ext w w'" using ext_trans[OF ext_rust[OF r(2)] w'(3)] .
  have "good w' (k y w')" using w' e un r(3) by (intro k) auto
  from frees_after[OF inv p e _ this] w'(1,7) Inr z show ?thesis by (simp add: in_rust_def)
qed

lemma free_then:
  assumes inv: "Inv w" and p: "w_ops w p = Some x"
    and k: "\<And>w'. Inv w' \<Longrightarrow> ext w w' \<Longrightarrow> \<forall>a ty. open_at w a ty \<longrightarrow> open_at w' a ty \<Longrightarrow> good w' (k w')"
  shows "frees p w (bnd (iroh_free_async_op p w) k)"
proof -
  obtain w' where w': "iroh_free_async_op p w = Inr w'" "Inv w'" "ext w w'"
    "\<forall>a ty. open_at w a ty \<longrightarrow> open_at w' a ty" "w_ops w' = (w_ops w)(p := None)"
    using free_async_op_good[OF assms(1,2)] .
  from frees_after[OF inv p w'(3) _ k[OF w'(2,3,4)]] w'(1,5) show ?thesis by simp
qed

lemma take_free_val:
  assumes inv: "Inv w" and p: "w_ops w p = Some x" and get: "gets (w_rust w) (get (w_rust w))"
    and k: "\<And>y w'. Inv w' \<Longrightarrow> ext w w' \<Longrightarrow> \<forall>a ty. open_at w a ty \<longrightarrow> open_at w' a ty \<Longrightarrow> good w' (k y w')"
  shows "frees p w (bnd (in_rust w get) (\<lambda>(y, w). bnd (iroh_free_async_op p w) (k y)))"
proof (cases "get (w_rust w)")
  case (Inl e)
  with get show ?thesis by (simp add: gets_def in_rust_def)
next
  case (Inr z)
  obtain y r where z: "z = (y, r)" by force
  with Inr get have r: "rstep (w_rust w) r" "r_tmp r = r_tmp (w_rust w)" by (auto simp: gets_def)
  have "frees p (w\<lparr>w_rust := r\<rparr>) (bnd (iroh_free_async_op p (w\<lparr>w_rust := r\<rparr>)) (k y))"
  proof (rule free_then[OF Inv_rust[OF inv r(1)]])
    fix w'
    assume w': "Inv w'" "ext (w\<lparr>w_rust := r\<rparr>) w'" "\<forall>a ty. open_at (w\<lparr>w_rust := r\<rparr>) a ty \<longrightarrow> open_at w' a ty"
    then show "good w' (k y w')" using ext_trans[OF ext_rust[OF r(2)] w'(2)] by (intro k) simp_all
  qed (use p in simp)
  from frees_ext[OF ext_rust[OF r(2)] this] Inr z show ?thesis by (simp add: in_rust_def)
qed

lemma take_free_tmp:
  assumes inv: "Inv w" and p: "w_ops w p = Some x"
    and get: "safe (get (w_rust w)) (\<lambda>(y, r). tmp_added t y (w_rust w) r)"
    and k: "\<And>y w'. Inv w' \<Longrightarrow> \<forall>a ty. open_at w a ty \<longrightarrow> open_at w' a ty \<Longrightarrow>
      (\<And>n. y = Some n \<Longrightarrow> \<exists>s. r_tmp (w_rust w') n = Some (t, s)) \<Longrightarrow> good w' (k y w')"
  shows "frees p w (bnd (in_rust w get) (\<lambda>(y, w). bnd (bnd (iroh_free_async_op p w) (k y)) (\<lambda>w.
     in_rust' w (tmp_free t y))))"
proof (rule tmp_step[where f = get, OF inv get])
  fix y r
  assume y: "tmp_added t y (w_rust w) r"
  let ?w = "w\<lparr>w_rust := r\<rparr>"
  have inv': "Inv ?w" by (rule Inv_rust[OF inv tmp_added_rstepD[OF y]])
  have "frees p ?w (bnd (iroh_free_async_op p ?w) (k y))"
  proof (rule free_then[OF inv'])
    fix w'
    assume w': "Inv w'" "ext ?w w'" "\<forall>a ty. open_at ?w a ty \<longrightarrow> open_at w' a ty"
    have "\<exists>s. r_tmp (w_rust w') n = Some (t, s)" if "y = Some n" for n
      using tmp_added_SomeD[OF y[unfolded that]] w'(2) by (simp add: ext_def)
    with w' show "good w' (k y w')" by (intro k) simp_all
  qed (use p in simp)
  from scoped_end[OF inv y this]
  show "frees p w (case (y, ?w) of (y, w) \<Rightarrow> bnd (bnd (iroh_free_async_op p w) (k y)) (\<lambda>w.
     in_rust' w (tmp_free t y)))" by simp
qed

section \<open>Programs whose callbacks keep the invariant\<close>

locale js_program =
  fixes env :: "'e env_scheme" and js :: jscode
  assumes js_good: "Inv w \<Longrightarrow> w_objs w this \<noteq> None \<Longrightarrow> goodp w (js w f this args)"
begin

lemma run_listeners_good:
  "Inv w \<Longrightarrow> w_objs w this \<noteq> None \<Longrightarrow> goodp w (run_listeners js this ev args ks w)"
proof (induction ks arbitrary: w)
  case Nil
  then show ?case by simp
next
  case (Cons k ks)
  show ?case
  proof (cases "Option.bind (listeners w this ev) (\<lambda>t. map_of t k)")
    case None
    with Cons show ?thesis by simp
  next
    case (Some f)
    let ?w = "log (Invoke f this ev args)
      (if fn_once (w_fns w f)
       then put_listeners this ev (AList.delete k (the (listeners w this ev)))
              (upd_fn f (\<lambda>x. x\<lparr>fn_once := False\<rparr>) w) else w)"
    have v: "view ?w = view w" by simp
    note s = inert_step[OF v Cons.prems(1)]
    have "w_objs ?w this \<noteq> None" using ext_obj[of w ?w] s Cons.prems(2) by blast
    then have "goodp ?w (js ?w f this args)" using s by (intro js_good) blast+
    then have "goodp w (bnd (js ?w f this args) (\<lambda>(threw, w2).
        bnd (run_listeners js this ev args ks (if threw then log (CallbackError ev f) w2 else w2))
          (\<lambda>(n, w3). Inr (Suc n, w3))))"
    proof (rule goodp_bndp[OF goodp_ext[OF view_ext[OF v]]], goal_cases)
      case (1 threw w2)
      have v2: "view (if threw then log (CallbackError ev f) w2 else w2) = view w2" by simp
      have "w_objs (if threw then log (CallbackError ev f) w2 else w2) this \<noteq> None"
        using ext_obj[OF 1(2)] Cons.prems(2) by (simp add: log_def)
      then have "goodp w2 (run_listeners js this ev args ks (if threw then log (CallbackError ev f) w2 else w2))"
        using 1(1) v2 by (intro goodp_view[OF v2] Cons.IH) (simp_all add: view_Inv[OF v2])
      then show ?case by (auto intro!: goodp_bndp)
    qed
    with Some show ?thesis by (simp add: Let_def)
  qed
qed

lemma do_callback_good:
  assumes "Inv w" and "w_objs w this \<noteq> None"
  shows "goodp w (iroh_do_callback env js this ev ar w)"
  using assms
  by (auto simp: iroh_do_callback_def Let_def intro!: goodp_bndp[OF run_listeners_good]
      split: option.splits)

lemma do_callback_returns:
  assumes "events_of w this \<noteq> None" and "\<not> (ev = ''error'' \<and> ar = None)"
    and "iroh_do_callback env js this ev ar w = Inr (res, w')"
  shows "res = Ret JUndefined"
  using assms by (auto simp: iroh_do_callback_def Let_def bnd_eq_Inr split: option.splits if_splits)

lemma emit_good:
  assumes "Inv w" and "w_ctxs w a \<noteq> None" and "\<not> (ev = ''error'' \<and> ar = None)"
  shows "good w (emit env js a ev ar w)"
proof -
  obtain c where c: "w_ctxs w a = Some c" using assms(2) by auto
  note o = Inv_obj[OF assms(1) c]
  have "goodp w (iroh_do_callback env js (thisptr c) ev ar w)" by (rule do_callback_good[OF assms(1) o(1)])
  then have "good w (unprotected (iroh_do_callback env js (thisptr c) ev ar w))"
    using do_callback_returns[OF o(2) assms(3)]
    by (cases "iroh_do_callback env js (thisptr c) ev ar w") (auto simp: unprotected_def)
  with c show ?thesis by (simp add: emit_def)
qed

lemma fire_good:
  assumes "Inv w" and "w_ctxs w a \<noteq> None"
  shows "good w (iroh_fire_error env js a msg w)" and "ev \<noteq> ''error'' \<Longrightarrow> good w (iroh_fire_event env js a ev w)"
  unfolding iroh_fire_error_def iroh_fire_event_def by (rule emit_good[OF assms]; simp)+

lemmas emit_open = emit_good[OF _ open_at_ctx] and fire_open = fire_good[OF _ open_at_ctx]

lemma pcall_good:
  assumes "Inv w" and "w_objs w (snd cb) \<noteq> None"
  shows "good w (pcall_cb js what cb args w)"
proof -
  let ?w = "log (Invoke (fst cb) (snd cb) what args) w"
  have "goodp ?w (js ?w (fst cb) (snd cb) args)"
    using assms by (intro js_good) (simp, simp add: log_def)
  from goodp_ext[OF ext_inert(1) this] show ?thesis
    unfolding pcall_cb_def by (rule goodp_bnd) auto
qed

lemma oneshot_good:
  assumes "Inv w" and "w_ctxs w a \<noteq> None"
  shows "good w (oneshot js a i what args w)"
proof -
  obtain c where c: "w_ctxs w a = Some c" using assms(2) by auto
  obtain cb w' where w': "iroh_prep_cb a i w = Inr (cb, w')" "view w' = view w"
    "\<forall>f. cb = Some f \<longrightarrow> w_objs w (thisptr c) \<noteq> None \<and> snd f = thisptr c"
    using prep_cb_view[OF c] .
  note s = inert_step[OF w'(2) assms(1)]
  have "good w' (pcall_cb js what f args w')" if "cb = Some f" for f
    using w'(3) s that by (intro pcall_good) (auto simp: keeps_def)
  then have "good w' (case cb of None \<Rightarrow> Inr w' | Some f \<Rightarrow> pcall_cb js what f args w')"
    using s by (cases cb) auto
  from good_view[OF w'(2) this] w'(1) show ?thesis by (simp add: oneshot_def)
qed

lemma fail_op_good:
  assumes "Inv w" and "w_ops w p = Some x"
  shows "frees p w (fail_op env js p dflt w)"
proof -
  obtain ty h where h: "open_at w (aop_ictx x) ty" "aop_handle x = Some h" "handle_live (w_rust w) h"
    using op_facts[OF assms] .
  obtain err where "iroh_async_get_error (w_rust w) (Some h) = Inr err"
    using get_handle_live[OF h(3)] by (auto simp: iroh_async_get_error_def)
  moreover have "frees p w (bnd (iroh_free_async_op p w) (\<lambda>w.
      iroh_fire_error env js (aop_ictx x) (Some (or_default err dflt)) w))"
    using h(1) by (intro free_then[OF assms] fire_good) (metis open_at_ctx)+
  ultimately show ?thesis using assms(2) h(2) by (simp add: fail_op_def)
qed

lemma cleanup_good:
  assumes inv: "Inv w" and a: "open_at w a ty" and ty: "\<not> stable ty"
  shows "goodp w (iroh_cleanup env js (Some a) docb w)"
proof -
  obtain c where c: "w_ctxs w a = Some c" "\<not> has_flag (flags c) 1" "\<not> stable (obj_type c)"
    using a ty by (auto simp: open_at_def)
  obtain w1 c1 where w1: "Inv w1" "ext w w1" "w_ctxs w1 a = Some c1" "has_flag (flags c1) 1"
    "thisptr c1 = thisptr c"
    and eq: "iroh_cleanup env js (Some a) docb w = cleanup_end env js a (thisptr c) docb w1"
    by (rule cleanup_pre[OF inv c]) blast
  have "goodp w1 (if docb then iroh_do_callback env js (thisptr c) ''close'' None w1
      else Inr (Ret JUndefined, w1))"
    using do_callback_good[OF w1(1) Inv_obj(1)[OF w1(1,3)], of "''close''" None] w1(1,5) by auto
  moreover have "safe (bnd (free_ctx a w2) (\<lambda>w. Inr (Ret JUndefined, w))) (\<lambda>x. Inv (snd x) \<and> ext w (snd x))"
    if w2: "Inv w2" "ext w1 w2" for w2
  proof -
    have "ctx_ext (view w1) (view w2)" using w2(2) by (simp add: ext_def)
    then obtain k where "vc (view w2) a = Some k" "v_closed k"
      by (rule ctx_extD[of _ _ a "core c1"]) (use w1 in auto)
    then obtain c2 where c2: "w_ctxs w2 a = Some c2" "has_flag (flags c2) 1" by auto
    obtain w3 where w3: "free_ctx a w2 = Inr w3" "Inv w3" "w3 = w2\<lparr>w_ctxs := (w_ctxs w2)(a := None)\<rparr>"
      using free_ctx_good[OF w2(1) c2] .
    have "ext w w3"
      using ext_trans[OF w1(2) w2(2)] c unfolding w3(3) by (auto simp: ext_def ctx_ext_def)
    with w3 show ?thesis by simp
  qed
  ultimately have "goodp w (cleanup_end env js a (thisptr c) docb w1)"
    unfolding cleanup_end_def
    by (elim safe_bndI) (auto split: jsres.splits intro: ext_trans[OF w1(2)])
  with eq show ?thesis by simp
qed

end

end
