(* ===== verification/CoreSafety.thy ===== *)
theory CoreSafety
  imports Callbacks
begin

text \<open>
  Endpoints, connections and streams under the invariant: the loops, the result handlers and the
  JavaScript methods of \<open>Loops\<close>, \<open>CoreHandlers\<close> and \<open>CoreApi\<close> that close nothing.
\<close>

section \<open>Loops\<close>

lemma flags_view:
  assumes "w_ctxs w a = Some c" and "is_flag m" and "m \<noteq> 1"
  obtains (set) w' where "set_flags a m w = Inr w'" and "view w' = view w"
  using assms core_flags[of m c]
  by (intro set[of "put_ctx a (c\<lparr>flags := set_flag (flags c) m\<rparr>) w"])
    (auto simp: set_flags_def upd_ctx_def view_def put_ctx_def)

lemma arm_loop_good:
  assumes inv: "Inv w" and a: "open_at w a ty" "ty \<in> op_tys op" and fl: "is_flag fl" "fl \<noteq> 1"
    and st: "starts op (w_rust w) (start (w_rust w))"
  shows "good w (arm_loop env a op fl start w)"
  unfolding arm_loop_def
proof (rule in_rust_starts[where f = start, OF inv st])
  fix h r
  assume r: "in_rust w start = Inr (h, w\<lparr>w_rust := r\<rparr>)" "rstep (w_rust w) r" "r_tmp r = r_tmp (w_rust w)"
    "startable (w\<lparr>w_rust := r\<rparr>) op h"
  have inv': "Inv (w\<lparr>w_rust := r\<rparr>)" by (rule Inv_rust[OF inv r(2)])
  have "goodp (w\<lparr>w_rust := r\<rparr>) (iroh_start_async env a h op 0 (w\<lparr>w_rust := r\<rparr>))"
    by (rule goodp_start(1)[OF inv' _ a(2) r(4)]) (use a(1) in simp)
  moreover have "good (w\<lparr>w_rust := r\<rparr>) (clr_flags a fl (w\<lparr>w_rust := r\<rparr>))"
    using a(1) by (intro good_flags inv' fl) (auto simp: open_at_def)
  ultimately have "good (w\<lparr>w_rust := r\<rparr>) (case h of
      Some _ \<Rightarrow> bnd (iroh_start_async env a h op 0 (w\<lparr>w_rust := r\<rparr>)) (\<lambda>(_, w). Inr w)
    | None \<Rightarrow> clr_flags a fl (w\<lparr>w_rust := r\<rparr>))"
    by (cases h) (auto intro!: goodp_bnd)
  from good_ext[OF ext_rust[OF r(3)] this] r(1)
  show "good w (bnd (in_rust w start) (\<lambda>(h, w). case h of
      Some _ \<Rightarrow> bnd (iroh_start_async env a h op 0 w) (\<lambda>(_, w). Inr w)
    | None \<Rightarrow> clr_flags a fl w))" by simp
qed simp

lemma rearm_loop_good:
  assumes inv: "Inv w" and a: "open_at w a ty" "ty \<in> op_tys op" and fl: "is_flag fl" "fl \<noteq> 1"
    and st: "\<And>c. w_ctxs w a = Some c \<Longrightarrow> starts op (w_rust w) (start (w_rust w) (sel c))"
  shows "good w (rearm_loop env a op fl sel start w)"
proof -
  obtain c where c: "w_ctxs w a = Some c" using a(1) by (auto simp: open_at_def)
  then show ?thesis
    using arm_loop_good[OF inv a fl, of "\<lambda>r. start r (sel c)" env] st[OF c] good_flags(2)[OF inv _ fl]
    by (simp add: rearm_loop_def)
qed

lemma start_loop_good:
  assumes inv: "Inv w" and c: "w_ctxs w a = Some c" "\<not> has_flag (flags c) 1" "obj_type c \<in> op_tys op"
    and fl: "is_flag fl" "fl \<noteq> 1" and st: "starts op (w_rust w) (start (w_rust w))"
  shows "good w (bnd (set_flags a fl w) (arm_loop env a op fl start))"
proof -
  obtain w' where w': "set_flags a fl w = Inr w'" "view w' = view w" using flags_view[OF c(1) fl] .
  have "open_at w a (obj_type c)" using c by (auto simp: open_at_def)
  then have "good w' (arm_loop env a op fl start w')"
    using inert_step[OF w'(2) inv] c st
    by (intro arm_loop_good[OF _ _ c(3) fl]) (auto simp: open_at_view[OF w'(2)])
  from good_view[OF w'(2) this] w'(1) show ?thesis by simp
qed

lemma loops_good [good_intros]:
  assumes inv: "Inv w" and a: "w_ctxs w a \<noteq> None"
  shows "good w (iroh_start_accept_loop env a w)" and "good w (iroh_start_stream_accept_loop env a w)"
    and "good w (iroh_start_read_loop env a w)" and "good w (iroh_start_datagram_loop env a w)"
    and "good w (iroh_start_gossip_recv_loop env a w)"
proof -
  obtain c where c: "w_ctxs w a = Some c" using a by auto
  note r = Inv_res[OF inv c] and R = Inv_RInv[OF inv]
  show "good w (iroh_start_accept_loop env a w)"
    using c inv r(1) by (auto simp: iroh_start_accept_loop_def
        intro!: start_loop_good ffi_starts R)
  show "good w (iroh_start_stream_accept_loop env a w)"
    using c inv r(2) by (auto simp: iroh_start_stream_accept_loop_def
        intro!: start_loop_good ffi_starts R)
  show "good w (iroh_start_read_loop env a w)"
    using c inv r(4) by (auto simp: iroh_start_read_loop_def
        intro!: start_loop_good ffi_starts R)
  show "good w (iroh_start_datagram_loop env a w)"
    using c inv r(2) by (auto simp: iroh_start_datagram_loop_def
        intro!: start_loop_good ffi_starts R)
  show "good w (iroh_start_gossip_recv_loop env a w)"
    using c inv r(6) by (auto simp: iroh_start_gossip_recv_loop_def
        intro!: start_loop_good ffi_starts R)
qed

section \<open>Registering listeners\<close>

lemma ev_on_view: "iroh_ev_on fname ev cb this w = (res, w') \<Longrightarrow> view w' = view w"
  by (auto simp: iroh_ev_on_def Let_def split: jsval.splits option.splits if_splits)

lemma auto_start_good:
  assumes "Inv w"
  shows "good w (auto_start env this ev w)"
proof (cases "this_ictx w this")
  case None
  with assms show ?thesis by (simp add: auto_start_def)
next
  case (Some a)
  obtain c where c: "w_ctxs w a = Some c" using this_ictx_open[OF assms Some] by blast
  then have "w_ctxs w a \<noteq> None" by simp
  from loops_good[where env = env, OF assms this] c Some assms show ?thesis
    by (simp add: auto_start_def)
qed

lemma on_good [good_intros]:
  assumes "Inv w"
  shows "goodp w (duk_rp_iroh_on env this a0 a1 w)" and "goodp w (duk_rp_iroh_once env this a0 a1 w)"
proof -
  have *: "goodp w (case iroh_ev_on f ev a1 this u of
      (Throw m, w) \<Rightarrow> Inr (Throw m, w)
    | (Ret _, w) \<Rightarrow> bnd (auto_start env this ev w) (\<lambda>w. Inr (Ret (JObj this), w)))"
    if u: "view u = view w" for f ev u
  proof (cases "iroh_ev_on f ev a1 this u")
    case (Pair res w')
    have v: "view w' = view w" using ev_on_view[OF Pair] u by simp
    note s = inert_step[OF v assms]
    have "good w' (auto_start env this ev w')" using s by (intro auto_start_good) blast
    then have "goodp w' (bnd (auto_start env this ev w') (\<lambda>w. Inr (Ret (JObj this), w)))"
      by (rule good_bndp) simp
    from goodp_view[OF v this] s Pair show ?thesis by (auto split: jsres.splits)
  qed
  show "goodp w (duk_rp_iroh_on env this a0 a1 w)"
    using *[of w] assms by (auto simp: duk_rp_iroh_on_def split: option.splits)
  have "goodp w (case iroh_ev_on ''iroh.once'' ev a1 this (upd_fn f (\<lambda>x. x\<lparr>fn_once := True\<rparr>) w) of
      (Throw m, w) \<Rightarrow> Inr (Throw m, w)
    | (Ret _, w) \<Rightarrow> bnd (auto_start env this ev w) (\<lambda>w. Inr (Ret (JObj this), w)))" for f ev
    by (rule *) simp
  with assms show "goodp w (duk_rp_iroh_once env this a0 a1 w)"
    by (auto simp: duk_rp_iroh_once_def split: option.splits jsval.splits)
qed

lemma off_good: "Inv w \<Longrightarrow> goodp w (lift_js (duk_rp_iroh_off this a0 a1 w))"
proof -
  have "view (snd (duk_rp_iroh_off this a0 a1 w)) = view w"
    by (auto simp: duk_rp_iroh_off_def split: option.splits jsval.splits)
  from inert_step[OF this] show "Inv w \<Longrightarrow> ?thesis" by (simp add: lift_js_def)
qed

section \<open>Endpoint handlers\<close>

lemma auto_connect_good:
  assumes inv: "Inv w" and a: "open_at w a IROH_OBJ_ENDPOINT"
  shows "good w (auto_connect env a w)"
proof -
  obtain c where c: "w_ctxs w a = Some c" using a by (auto simp: open_at_def)
  obtain ob where ob: "w_objs w (thisptr c) = Some ob" using Inv_obj(1)[OF inv c] by auto
  show ?thesis
  proof (cases "o_ac_addr ob")
    case None
    with c ob inv show ?thesis by (simp add: auto_connect_def)
  next
    case (Some s)
    obtain ra r where r: "iroh_endpoint_addr_from_string env s (w_rust w) = (ra, r)" by force
    note t = tmp_added_addr_from_string[OF Inv_RInv[OF inv] r]
    let ?w = "w\<lparr>w_rust := r\<rparr>"
    let ?start = "\<lambda>r. case o_ac_alpn ob of None \<Rightarrow> null_arg ''NULL argument'' r
        | Some alpn \<Rightarrow> iroh_endpoint_connect env r (endpoint c) ra alpn"
    let ?aux = "case o_ac_cbid ob of None \<Rightarrow> 0 | Some i \<Rightarrow> i"
    have "starts IROH_OP_CONNECT r (?start r)" if ra: "ra \<noteq> None"
    proof -
      have "starts IROH_OP_CONNECT r (iroh_endpoint_connect env r (endpoint c) ra alpn)" for alpn
        using tmp_added_rstepD[OF t] ra tmp_added_SomeD Inv_res(1)[OF inv c] t
        by (intro ffi_starts) (auto dest: rstep_res intro: rstep_RInv[OF _ Inv_RInv[OF inv]])
      then show ?thesis by (cases "o_ac_alpn ob") simp_all
    qed
    then have "good w (case ra of None \<Rightarrow> Inr ?w | Some _ \<Rightarrow> bnd (in_rust ?w ?start) (\<lambda>(h, w).
        bnd (in_rust' w (tmp_free TEndpointAddr ra)) (\<lambda>w.
        bnd (iroh_start_async env a h IROH_OP_CONNECT ?aux w) (\<lambda>(_, w). Inr w))))"
      using inv t scoped_start[OF inv a _ tmp_added_rstepD[OF t] _ releases_tmp_free[OF Inv_RInv[OF inv] t],
          where op = IROH_OP_CONNECT and start = ?start and env = env and aux = ?aux]
      by (cases ra) (auto simp: Inv_rust ext_rust)
    moreover have "good w' (Inr (upd_obj (thisptr c) (\<lambda>ob. ob\<lparr>o_ac_addr := None, o_ac_alpn := None,
        o_ac_cbid := None\<rparr>) w'))" if "Inv w'" for w'
      using inert_step[OF view_upd_obj that, of "\<lambda>ob. ob\<lparr>o_ac_addr := None, o_ac_alpn := None, o_ac_cbid := None\<rparr>"]
      by (simp add: oview_def)
    ultimately have "good w (bnd (case ra of None \<Rightarrow> Inr ?w | Some _ \<Rightarrow> bnd (in_rust ?w ?start) (\<lambda>(h, w).
        bnd (in_rust' w (tmp_free TEndpointAddr ra)) (\<lambda>w.
        bnd (iroh_start_async env a h IROH_OP_CONNECT ?aux w) (\<lambda>(_, w). Inr w))))
       (\<lambda>w. Inr (upd_obj (thisptr c) (\<lambda>ob. ob\<lparr>o_ac_addr := None, o_ac_alpn := None, o_ac_cbid := None\<rparr>) w)))"
      by (rule good_bnd)
    with c ob Some r show ?thesis by (simp add: auto_connect_def Let_def)
  qed
qed

lemma set_online_props_good:
  assumes inv: "Inv w" and ep: "\<And>e. ep = Some e \<Longrightarrow> r_res (w_rust w) e = Some KEndpoint"
  shows "good w (set_online_props env this ep w)"
  unfolding set_online_props_def
proof (rule show_prop_step[where f = "\<lambda>r. iroh_endpoint_id env r ep", OF inv])
  show "safe (iroh_endpoint_id env (w_rust w) ep) (\<lambda>(x, r). tmp_added TPublicKey x (w_rust w) r)"
    by (rule gets_endpoint_info(1)[OF Inv_RInv[OF inv] ep])
  fix w1
  assume w1: "Inv w1" "ext w w1" "keeps w w1"
  have ep1: "r_res (w_rust w1) e = Some KEndpoint" if "ep = Some e" for e
    using ep[OF that] w1(3) by (simp add: keeps_def)
  let ?sk = "\<lambda>sk. case sk of None \<Rightarrow> w1 | Some b \<Rightarrow>
      if length b = 32 then put_prop this ''secretKeyHex'' (JStr (env_to_hex env b))
             (put_prop this ''secretKey'' (JBuf b) w1) else w1"
  have v: "view (?sk sk) = view w1" for sk by (auto split: option.splits)
  have "good w1 (bnd (in_rust (?sk sk) (\<lambda>r. iroh_endpoint_addr env r ep)) (\<lambda>(i, w).
      bnd (show_prop this ''address'' TEndpointAddr i w) (\<lambda>w. Inr (put_prop this ''online'' (JBool True) w))))" for sk
  proof (rule good_view[OF v[of sk]], rule show_prop_step)
    show "Inv (?sk sk)" using w1(1) view_Inv[OF v[of sk]] by simp
    then show "safe (iroh_endpoint_addr env (w_rust (?sk sk)) ep)
        (\<lambda>(x, r). tmp_added TEndpointAddr x (w_rust (?sk sk)) r)"
      using ep1 view_rustD[OF v[of sk]] by (intro gets_endpoint_info(2)[OF Inv_RInv]) simp_all
  qed (auto intro: ext_trans)
  moreover have "safe (iroh_endpoint_secret_key env (w_rust w1) ep) (\<lambda>_. True)"
    using ep1 by (intro gets_endpoint_info(3)[OF Inv_RInv[OF w1(1)]]) simp
  ultimately show "good w (bnd (iroh_endpoint_secret_key env (w_rust w1) ep) (\<lambda>sk. let w = ?sk sk in
      bnd (in_rust w (\<lambda>r. iroh_endpoint_addr env r ep)) (\<lambda>(i, w).
      bnd (show_prop this ''address'' TEndpointAddr i w) (\<lambda>w. Inr (put_prop this ''online'' (JBool True) w)))))"
    by (elim safe_bndI) (simp add: Let_def good_ext[OF w1(2)])
qed

context js_program
begin

lemma on_endpoint_created_good:
  assumes inv: "Inv w" and p: "w_ops w p = Some x" and op: "aop_op x = IROH_OP_ENDPOINT_CREATE"
  shows "frees p w (iroh_on_endpoint_created env js p state w)"
proof -
  obtain h where h: "open_at w (aop_ictx x) IROH_OBJ_ENDPOINT" "aop_handle x = Some h" "handle_live (w_rust w) h"
    using op_facts[OF inv p] op by auto
  let ?a = "aop_ictx x"
  have tail: "good w' (bnd (iroh_fire_event env js ?a ''ready'' w') (\<lambda>w. bnd (get_ctx w ?a) (\<lambda>c.
      bnd (in_rust w (\<lambda>r. iroh_endpoint_wait_online env r (endpoint c))) (\<lambda>(h, w).
      bnd (iroh_start_async env ?a h IROH_OP_ENDPOINT_WAIT_ONLINE 0 w) (\<lambda>(_, w). Inr w)))))"
    if w': "Inv w'" "open_at w' ?a IROH_OBJ_ENDPOINT" for w'
  proof (rule good_bnd)
    show "good w' (iroh_fire_event env js ?a ''ready'' w')"
      using w' by (intro fire_good) (auto simp: open_at_def)
    fix w2
    assume w2: "Inv w2" "ext w' w2"
    have a2: "open_at w2 ?a IROH_OBJ_ENDPOINT" by (rule open_at_ext[OF w'(2) _ w2(2,1)]) simp
    then obtain c where c: "w_ctxs w2 ?a = Some c" by (auto simp: open_at_def)
    show "good w2 (bnd (get_ctx w2 ?a) (\<lambda>c. bnd (in_rust w2 (\<lambda>r. iroh_endpoint_wait_online env r (endpoint c)))
        (\<lambda>(h, w). bnd (iroh_start_async env ?a h IROH_OP_ENDPOINT_WAIT_ONLINE 0 w) (\<lambda>(_, w). Inr w))))"
      using c Inv_res(1)[OF w2(1) c]
      by (auto intro!: good_call[OF w2(1) a2] ffi_starts Inv_RInv[OF w2(1)])
  qed
  have "frees p w (bnd (in_rust w (\<lambda>r. iroh_endpoint_create_result r (aop_handle x))) (\<lambda>(e, w).
       bnd (upd_ctx ?a (\<lambda>c. c\<lparr>endpoint := e\<rparr>) w) (\<lambda>w.
       bnd (iroh_free_async_op p w) (\<lambda>w.
       if e = None then iroh_fire_error env js ?a (Some ''Failed to get endpoint result'') w
       else bnd (iroh_fire_event env js ?a ''ready'' w) (\<lambda>w. bnd (get_ctx w ?a) (\<lambda>c.
         bnd (in_rust w (\<lambda>r. iroh_endpoint_wait_online env r (endpoint c))) (\<lambda>(h, w).
         bnd (iroh_start_async env ?a h IROH_OP_ENDPOINT_WAIT_ONLINE 0 w) (\<lambda>(_, w). Inr w))))))))"
  proof (rule take_into[OF inv h(1), where i = KEndpoint])
    show "gets_box KEndpoint (w_rust w) (iroh_endpoint_create_result (w_rust w) (aop_handle x))"
      using h by (auto intro!: ffi_gets Inv_RInv[OF inv])
    fix e w'
    assume w': "Inv w'" "ext w w'" "open_at w' ?a IROH_OBJ_ENDPOINT" "w_ops w' = w_ops w"
    show "frees p w' (bnd (iroh_free_async_op p w') (\<lambda>w.
       if e = None then iroh_fire_error env js ?a (Some ''Failed to get endpoint result'') w
       else bnd (iroh_fire_event env js ?a ''ready'' w) (\<lambda>w. bnd (get_ctx w ?a) (\<lambda>c.
         bnd (in_rust w (\<lambda>r. iroh_endpoint_wait_online env r (endpoint c))) (\<lambda>(h, w).
         bnd (iroh_start_async env ?a h IROH_OP_ENDPOINT_WAIT_ONLINE 0 w) (\<lambda>(_, w). Inr w))))))"
      using w' p by (intro free_then[where x = x] safe_ifI tail fire_good) (auto dest: open_at_ctx)
  qed simp_all
  with fail_op_good[OF inv p] p show ?thesis
    by (simp add: iroh_on_endpoint_created_def Let_def)
qed

lemma on_endpoint_online_good:
  assumes inv: "Inv w" and p: "w_ops w p = Some x" and op: "aop_op x = IROH_OP_ENDPOINT_WAIT_ONLINE"
  shows "frees p w (iroh_on_endpoint_online env js p state w)"
proof -
  have h: "open_at w (aop_ictx x) IROH_OBJ_ENDPOINT"
    using op_facts[OF inv p] op by auto
  let ?a = "aop_ictx x"
  have "good w' (bnd (get_ctx w' ?a) (\<lambda>c.
       bnd (set_online_props env (thisptr c) (endpoint c) w') (\<lambda>w.
       bnd (iroh_fire_event env js ?a ''online'' w) (\<lambda>w.
       bnd (auto_connect env ?a w) (\<lambda>w.
       bnd (get_ctx w ?a) (\<lambda>c.
         if listeners w (thisptr c) ''connection'' \<noteq> None
            \<and> \<not> has_flag (flags c) RPIROH_FLAG_ACCEPTING
         then iroh_start_accept_loop env ?a w else Inr w))))))"
    if w': "Inv w'" "open_at w' ?a IROH_OBJ_ENDPOINT" for w'
  proof -
    obtain c where c: "w_ctxs w' ?a = Some c" using w' by (auto simp: open_at_def)
    have keep: "open_at w2 ?a IROH_OBJ_ENDPOINT" if "open_at w1 ?a IROH_OBJ_ENDPOINT" "Inv w2" "ext w1 w2" for w1 w2
      using that by (auto intro: open_at_ext)
    have e: "good w2 (bnd (get_ctx w2 ?a) (\<lambda>c. if listeners w2 (thisptr c) ''connection'' \<noteq> None
            \<and> \<not> has_flag (flags c) RPIROH_FLAG_ACCEPTING
         then iroh_start_accept_loop env ?a w2 else Inr w2))" if w2: "Inv w2" "open_at w2 ?a IROH_OBJ_ENDPOINT" for w2
    proof -
      obtain c2 where "w_ctxs w2 ?a = Some c2" using w2(2) by (auto simp: open_at_def)
      then show ?thesis using w2(1) loops_good(1)[where env = env, OF w2(1), of ?a] by simp
    qed
    have "good w' (bnd (set_online_props env (thisptr c) (endpoint c) w') (\<lambda>w.
       bnd (iroh_fire_event env js ?a ''online'' w) (\<lambda>w.
       bnd (auto_connect env ?a w) (\<lambda>w.
       bnd (get_ctx w ?a) (\<lambda>c.
         if listeners w (thisptr c) ''connection'' \<noteq> None
            \<and> \<not> has_flag (flags c) RPIROH_FLAG_ACCEPTING
         then iroh_start_accept_loop env ?a w else Inr w)))))"
      using Inv_res(1)[OF w'(1) c]
      by (intro good_bnd set_online_props_good fire_good auto_connect_good e w')
        (use w' keep open_at_ctx in \<open>(blast | simp)+\<close>)
    with c show ?thesis by simp
  qed
  with p h show ?thesis
    unfolding iroh_on_endpoint_online_def
    by (auto simp: Let_def intro!: free_then[OF inv p] safe_ifI fire_open)
qed

lemma on_endpoint_closed_good:
  assumes "Inv w" and "w_ops w p = Some x" and "aop_op x = IROH_OP_ENDPOINT_CLOSE"
  shows "frees p w (iroh_on_endpoint_closed env js p state w)"
  using op_facts[OF assms(1,2)] assms(3) by auto

section \<open>Connection and stream handlers\<close>

lemma on_connection_accepted_good:
  assumes inv: "Inv w" and p: "w_ops w p = Some x" and op: "aop_op x = IROH_OP_ENDPOINT_ACCEPT"
  shows "frees p w (iroh_on_connection_accepted env js p state w)"
proof -
  obtain h where h: "open_at w (aop_ictx x) IROH_OBJ_ENDPOINT" "aop_handle x = Some h" "handle_live (w_rust w) h"
    using op_facts[OF inv p] op by auto
  let ?a = "aop_ictx x"
  obtain err where err: "iroh_async_get_error (w_rust w) (Some h) = Inr err"
    using get_handle_live[OF h(3)] by (auto simp: iroh_async_get_error_def)
  have clr: "good w2 (clr_flags ?a RPIROH_FLAG_ACCEPTING w2)" if "open_at w1 ?a IROH_OBJ_ENDPOINT" "Inv w2" "ext w1 w2"
    for w1 w2
    using open_at_ext[OF that(1) _ that(3,2)] that by (intro good_flags) (auto simp: open_at_def)
  have rearm: "good w2 (rearm_loop env ?a IROH_OP_ENDPOINT_ACCEPT RPIROH_FLAG_ACCEPTING endpoint (iroh_endpoint_accept env) w2)"
    if "open_at w1 ?a IROH_OBJ_ENDPOINT" "Inv w2" "ext w1 w2" for w1 w2
    using open_at_ext[OF that(1) _ that(3,2)] that
    by (intro rearm_loop_good) (auto intro!: ffi_starts dest: Inv_res(1) Inv_RInv)
  have "frees p w (bnd (iroh_free_async_op p w) (\<lambda>w. bnd (case err of
              Some m \<Rightarrow> if \<not> strstr m ''closed'' then iroh_fire_error env js ?a (Some m) w else Inr w
            | None \<Rightarrow> iroh_fire_error env js ?a (Some ''accept failed'') w) (\<lambda>w.
         clr_flags ?a RPIROH_FLAG_ACCEPTING w)))"
  proof (rule free_then[OF inv p], rule good_bnd)
    fix w'
    assume w': "Inv w'" "\<forall>a ty. open_at w a ty \<longrightarrow> open_at w' a ty"
    show "good w' (case err of Some m \<Rightarrow> if \<not> strstr m ''closed'' then iroh_fire_error env js ?a (Some m) w' else Inr w'
            | None \<Rightarrow> iroh_fire_error env js ?a (Some ''accept failed'') w')"
      using w' h(1) by (auto split: option.splits intro!: fire_open)
  qed (use h(1) clr in blast)
  moreover have "frees p w (bnd (in_rust w (\<lambda>r. iroh_connection_accept_result r (aop_handle x))) (\<lambda>(conn, w).
       bnd (iroh_free_async_op p w) (\<lambda>w.
       bnd (case conn of None \<Rightarrow> Inr w
            | Some cn \<Rightarrow> bnd (push_new_connection env ?a cn w) (\<lambda>(ob, w). emit env js ?a ''connection'' (Some (JObj ob)) w))
         (rearm_loop env ?a IROH_OP_ENDPOINT_ACCEPT RPIROH_FLAG_ACCEPTING endpoint (iroh_endpoint_accept env)))))"
  proof (rule take_free_box[OF inv p, where i = KConnection], goal_cases)
    case 1
    show ?case using h by (auto intro!: ffi_gets Inv_RInv[OF inv])
  next
    case (2 conn w')
    then have a': "open_at w' ?a IROH_OBJ_ENDPOINT" using h(1) by blast
    show ?case
    proof (rule good_bnd)
      show "good w' (case conn of None \<Rightarrow> Inr w'
            | Some cn \<Rightarrow> bnd (push_new_connection env ?a cn w') (\<lambda>(ob, w). emit env js ?a ''connection'' (Some (JObj ob)) w))"
        using 2 a' by (auto split: option.splits intro!: goodp_bnd[OF push_new_connection_good]
            emit_open[OF _ open_at_ext[OF a']])
    qed (use a' rearm in blast)
  qed
  ultimately show ?thesis
    using p h(2) err by (simp add: iroh_on_connection_accepted_def Let_def)
qed

text \<open>A one-shot callback is fetched, a new object is made for it, then it is called.\<close>

lemma prep_then:
  assumes inv: "Inv w" and a: "open_at w a ty" "stable ty"
    and mk: "\<And>w'. view w' = view w \<Longrightarrow> goodp w' (mk w')"
    and k: "\<And>ob w'. Inv w' \<Longrightarrow> open_at w' a ty \<Longrightarrow> good w' (k ob w')"
  shows "good w (bnd (if b then iroh_prep_cb a i w else Inr (None, w)) (\<lambda>(cb, w).
     bnd (mk w) (\<lambda>(ob, w). case cb of Some f \<Rightarrow> pcall_cb js what f [JObj ob] w | None \<Rightarrow> k ob w)))"
proof -
  obtain c where c: "w_ctxs w a = Some c" using a by (auto simp: open_at_def)
  obtain cb w' where w': "(if b then iroh_prep_cb a i w else Inr (None, w)) = Inr (cb, w')" "view w' = view w"
    "\<forall>f. cb = Some f \<longrightarrow> w_objs w (thisptr c) \<noteq> None \<and> snd f = thisptr c"
  proof (cases b)
    case True
    with prep_cb_view[OF c, of i] that show ?thesis by auto
  qed (use that in auto)
  note s = inert_step[OF w'(2) inv]
  have "good w' (bnd (mk w') (\<lambda>(ob, w). case cb of Some f \<Rightarrow> pcall_cb js what f [JObj ob] w | None \<Rightarrow> k ob w))"
  proof (rule goodp_bnd[OF mk[OF w'(2)]])
    fix ob w2
    assume w2: "Inv w2" "ext w' w2"
    have "open_at w2 a ty"
      using a s w2 by (auto intro!: open_at_ext[of w' a ty w2] simp: open_at_view[OF w'(2)])
    moreover have "w_objs w2 (snd f) \<noteq> None" if "cb = Some f" for f
      using w'(3) that s ext_obj[OF w2(2)] by (auto simp: keeps_def)
    ultimately show "good w2 (case (ob, w2) of (ob, w) \<Rightarrow>
        case cb of Some f \<Rightarrow> pcall_cb js what f [JObj ob] w | None \<Rightarrow> k ob w)"
      using w2(1) by (auto split: option.splits intro!: pcall_good k)
  qed
  from good_view[OF w'(2) this] w'(1) show ?thesis by simp
qed

lemma unowned_view: "view w' = view w \<Longrightarrow> r_res (w_rust w) n = Some i \<and> unowned (view w) n \<Longrightarrow>
    r_res (w_rust w') n = Some i \<and> unowned (view w') n"
  using view_rustD[of w' w] by simp

lemma on_connected_good:
  assumes inv: "Inv w" and p: "w_ops w p = Some x" and op: "aop_op x = IROH_OP_CONNECT"
  shows "frees p w (iroh_on_connected env js p state w)"
proof -
  obtain h where h: "open_at w (aop_ictx x) IROH_OBJ_ENDPOINT" "aop_handle x = Some h" "handle_live (w_rust w) h"
    using op_facts[OF inv p] op by auto
  let ?a = "aop_ictx x"
  have "frees p w (bnd (in_rust w (\<lambda>r. iroh_connection_connect_result r (aop_handle x))) (\<lambda>(conn, w).
       bnd (iroh_free_async_op p w) (\<lambda>w.
       case conn of None \<Rightarrow> iroh_fire_error env js ?a (Some ''connect failed'') w
       | Some cn \<Rightarrow>
           bnd (if aop_aux x \<noteq> 0 then iroh_prep_cb ?a (aop_aux x) w else Inr (None, w)) (\<lambda>(cb, w).
           bnd (push_new_connection env ?a cn w) (\<lambda>(ob, w).
           case cb of
             Some f \<Rightarrow> pcall_cb js ''connect'' f [JObj ob] w
           | None \<Rightarrow> emit env js ?a ''connect'' (Some (JObj ob)) w)))))"
  proof (rule take_free_box[OF inv p, where i = KConnection], goal_cases)
    case 1
    show ?case using h by (auto intro!: ffi_gets Inv_RInv[OF inv])
  next
    case (2 conn w')
    then have a': "open_at w' ?a IROH_OBJ_ENDPOINT" using h(1) by blast
    have "goodp w2 (push_new_connection env ?a cn w2)" if "conn = Some cn" "view w2 = view w'" for cn w2
      using 2 a' that unowned_view[OF that(2)] inert_step[OF that(2)] open_at_view[OF that(2)]
      by (intro push_new_connection_good) auto
    with 2(1) a' show ?case
      by (cases conn) (simp_all only: option.case fire_open,
          intro prep_then[OF _ _ stable_simps(1)] emit_open, simp_all)
  qed
  with fail_op_good[OF inv p] p show ?thesis by (simp add: iroh_on_connected_def Let_def)
qed

end

text \<open>The two halves of a bidirectional stream.\<close>

lemma take_bi_ok:
  assumes "RInv r" and "handle_live r h"
  obtains s t r' where "take_bi (Some h) r = Inr ((s, t), r')" and "rstep r r'" and "r_tmp r' = r_tmp r"
    and "same_tasks r r'"
    and "\<forall>n. s = Some n \<longrightarrow> r_next r \<le> n \<and> r_res r' n = Some KSendStream"
    and "\<forall>n. t = Some n \<longrightarrow> r_next r \<le> n \<and> r_res r' n = Some KRecvStream"
proof -
  have box: "same_tasks r (snd (box_into_raw k r))" for k r by (simp add: same_tasks_def box_into_raw_def)
  have tasks: "same_tasks r r'" if "split_boxed b v v' k r (Some h) = Inr (x, r')" for b v v' k r x r'
    using that by (auto simp: split_boxed_def bnd_eq_Inr get_handle_def box_into_raw_def put_handle_def
        same_tasks_def split: if_splits option.splits)
  have tasks': "same_tasks r r'" if "take_boxed v k r (Some h) = Inr (x, r')" for v k r x r'
    using that by (auto simp: take_boxed_def take_result_def bnd_eq_Inr get_handle_def box_into_raw_def put_handle_def
        same_tasks_def split: if_splits option.splits)
  have no: "m \<noteq> Inl e" if "m = split_boxed b v v' k r (Some h)" "handle_live r h" for m e b v v' k r
    using that get_handle_live[OF that(2)] by (auto simp: split_boxed_def box_into_raw_def split: if_splits)
  have no': "m \<noteq> Inl e" if "m = take_boxed v k r (Some h)" "handle_live r h" for m e v k r
    using that get_handle_live[OF that(2)] by (auto simp: take_boxed_def take_result_def box_into_raw_def split: option.splits if_splits)
  obtain s r1 where s: "iroh_stream_open_bi_send_result r (Some h) = Inr (s, r1)"
    using no[OF _ assms(2)] by (cases "iroh_stream_open_bi_send_result r (Some h)")
      (auto simp: iroh_stream_open_bi_send_result_def)
  with gets_boxed(4)[OF assms] have r1: "rstep r r1" "r_tmp r1 = r_tmp r"
    "\<forall>n. s = Some n \<longrightarrow> r_next r \<le> n \<and> r_res r1 n = Some KSendStream" by (auto simp: gets_box_def)
  have l1: "RInv r1" "handle_live r1 h"
    using rstep_RInv[OF r1(1) assms(1)] rstep_live[OF r1(1) assms(2)] .
  obtain t r2 where t: "iroh_stream_open_bi_recv_result r1 (Some h) = Inr (t, r2)"
    using no'[OF _ l1(2)] by (cases "iroh_stream_open_bi_recv_result r1 (Some h)")
      (auto simp: iroh_stream_open_bi_recv_result_def)
  with gets_boxed(5)[OF l1] have r2: "rstep r1 r2" "r_tmp r2 = r_tmp r1"
    "\<forall>n. t = Some n \<longrightarrow> r_next r1 \<le> n \<and> r_res r2 n = Some KRecvStream" by (auto simp: gets_box_def)
  show ?thesis
  proof (rule that[of s t r2])
    show "same_tasks r r2"
      using tasks tasks' s t unfolding iroh_stream_open_bi_send_result_def iroh_stream_open_bi_recv_result_def
      by (blast intro: same_tasks_trans)
    show "\<forall>n. t = Some n \<longrightarrow> r_next r \<le> n \<and> r_res r2 n = Some KRecvStream"
      using r2(3) rstep_next[OF r1(1)] by auto
  qed (use s t r1 r2 in \<open>auto simp: take_bi_def intro: rstep_trans rstep_res\<close>)
qed

text \<open>A Rust object nothing points to can be released.\<close>

definition loose :: "rkind \<Rightarrow> rid option \<Rightarrow> world \<Rightarrow> bool" where
  "loose k y w \<longleftrightarrow>
     (\<forall>n. y = Some n \<longrightarrow> r_res (w_rust w) n = Some k \<and> unowned (view w) n \<and> unborrowed (w_rust w) n)"

lemma VInv_vr:
  assumes "VInv v" and "RInv r" and "\<And>a k. vc v a = Some k \<Longrightarrow> ctx_ok (v\<lparr>vr := r\<rparr>) a k"
    and "\<And>p x. vo v p = Some x \<Longrightarrow> op_ok (v\<lparr>vr := r\<rparr>) p x"
  shows "VInv (v\<lparr>vr := r\<rparr>)"
  using assms by (simp add: VInv_parts)

lemma free_loose:
  assumes inv: "Inv w" and y: "loose k y w"
  obtains w' where "in_rust' w (iroh_free k y) = Inr w'" and "Inv w'" and "ext w w'"
    and "\<forall>a ty. open_at w a ty \<longrightarrow> open_at w' a ty" and "\<forall>k' y'. k' \<noteq> k \<longrightarrow> loose k' y' w \<longrightarrow> loose k' y' w'"
proof (cases y)
  case None
  with inv show ?thesis by (intro that[of w]) (simp_all add: in_rust'_def iroh_free_def)
next
  case (Some n)
  with y have n: "r_res (w_rust w) n = Some k" "unowned (view w) n" "unborrowed (w_rust w) n"
    by (auto simp: loose_def)
  let ?r = "(w_rust w)\<lparr>r_res := (r_res (w_rust w))(n := None)\<rparr>"
  let ?v = "(view w)\<lparr>vr := ?r\<rparr>"
  have "RInv ?r"
    using Inv_RInv[OF inv] n(3) by (auto simp: RInv_def rfresh_def tasks_ok_def unborrowed_def)
  moreover have "ctx_ok ?v a l" if "vc (view w) a = Some l" for a l
    using VInv_ctx[OF inv[unfolded Inv_def] that] n(2) that by (auto simp: ctx_ok_def unowned_def)
  moreover have "op_ok ?v q x" if "vo (view w) q = Some x" for q x
    using VInv_op[OF inv[unfolded Inv_def] that] by (simp add: op_ok_def handle_live_def works_on_def)
  ultimately have "VInv ?v"
    by (intro VInv_vr[OF inv[unfolded Inv_def]])
  then have "Inv (w\<lparr>w_rust := ?r\<rparr>)" by (simp add: Inv_def)
  moreover have "loose k' y' (w\<lparr>w_rust := ?r\<rparr>)" if "k' \<noteq> k" "loose k' y' w" for k' y'
    using that n(1) by (auto simp: loose_def unowned_def unborrowed_def)
  ultimately show ?thesis
    using Some n(1) by (intro that[of "w\<lparr>w_rust := ?r\<rparr>"])
      (simp_all add: in_rust'_def iroh_free_def box_from_raw_def ext_def)
qed

context js_program
begin

lemma bi_then:
  assumes inv: "Inv w" and p: "w_ops w p = Some x"
    and k: "\<And>s t err w'. Inv w' \<Longrightarrow> ext w w' \<Longrightarrow> \<forall>a ty. open_at w a ty \<longrightarrow> open_at w' a ty \<Longrightarrow>
      loose KSendStream s w' \<Longrightarrow> loose KRecvStream t w' \<Longrightarrow> good w' (k s t err w')"
  shows "frees p w (bnd (if state = Ready then in_rust w (take_bi (aop_handle x)) else Inr ((None, None), w))
     (\<lambda>((s, t), w). bnd (if state = Ready then Inr None else iroh_async_get_error (w_rust w) (aop_handle x)) (\<lambda>err.
     bnd (iroh_free_async_op p w) (k s t err))))"
proof -
  obtain h where h: "aop_handle x = Some h" "handle_live (w_rust w) h" using op_facts[OF inv p] .
  show ?thesis
  proof (cases "state = Ready")
    case True
    obtain s t r where r: "take_bi (Some h) (w_rust w) = Inr ((s, t), r)" "rstep (w_rust w) r"
      "r_tmp r = r_tmp (w_rust w)" "same_tasks (w_rust w) r"
      "\<forall>n. s = Some n \<longrightarrow> r_next (w_rust w) \<le> n \<and> r_res r n = Some KSendStream"
      "\<forall>n. t = Some n \<longrightarrow> r_next (w_rust w) \<le> n \<and> r_res r n = Some KRecvStream"
      using take_bi_ok[OF Inv_RInv[OF inv] h(2)] .
    let ?w = "w\<lparr>w_rust := r\<rparr>"
    have ls: "loose KSendStream s ?w" "loose KRecvStream t ?w"
      using r unowned_fresh[of "view w"] inv unborrowed_fresh[OF Inv_RInv[OF inv]]
        same_tasks_unborrowed[OF r(4)] by (auto simp: loose_def Inv_def unowned_def)
    have "w_ops ?w p = Some x" using p by simp
    then obtain w' where w': "iroh_free_async_op p ?w = Inr w'" "Inv w'" "ext ?w w'"
      "\<forall>a ty. open_at ?w a ty \<longrightarrow> open_at w' a ty" "\<forall>y. unowned (view ?w) y \<longrightarrow> unowned (view w') y"
      "r_res (w_rust w') = r_res r" "same_tasks (w_rust ?w) (w_rust w')" "w_ops w' = (w_ops ?w)(p := None)"
      by (rule free_async_op_good[OF Inv_rust[OF inv r(2)]]) simp
    have e: "ext w w'" using ext_trans[OF ext_rust[OF r(3)] w'(3)] .
    have "loose KSendStream s w'" "loose KRecvStream t w'"
      using ls w'(5,6) same_tasks_unborrowed[OF w'(7)] by (auto simp: loose_def)
    with w' e have "good w' (k s t None w')" by (intro k) simp_all
    from frees_after[OF inv p e _ this] w'(1,8) r(1) h(1) True show ?thesis by (simp add: in_rust_def)
  next
    case False
    obtain err where err: "iroh_async_get_error (w_rust w) (Some h) = Inr err"
      using get_handle_live[OF h(2)] by (auto simp: iroh_async_get_error_def)
    have "frees p w (bnd (iroh_free_async_op p w) (k None None err))"
      by (rule free_then[OF inv p]) (auto intro!: k simp: loose_def)
    with False err h(1) show ?thesis by simp
  qed
qed

lemma drop_bi:
  assumes inv: "Inv w" and s: "loose KSendStream s w" and t: "loose KRecvStream t w"
    and k: "\<And>w'. Inv w' \<Longrightarrow> ext w w' \<Longrightarrow> \<forall>a ty. open_at w a ty \<longrightarrow> open_at w' a ty \<Longrightarrow> good w' (k w')"
  shows "good w (bnd (in_rust' w (iroh_free KSendStream s)) (\<lambda>w.
     bnd (in_rust' w (iroh_free KRecvStream t)) k))"
proof -
  obtain w1 where w1: "in_rust' w (iroh_free KSendStream s) = Inr w1" "Inv w1" "ext w w1"
    "\<forall>a ty. open_at w a ty \<longrightarrow> open_at w1 a ty" "loose KRecvStream t w1"
    by (rule free_loose[OF inv s]) (use t in auto)
  obtain w2 where w2: "in_rust' w1 (iroh_free KRecvStream t) = Inr w2" "Inv w2" "ext w1 w2"
    "\<forall>a ty. open_at w1 a ty \<longrightarrow> open_at w2 a ty"
    by (rule free_loose[OF w1(2,5)])
  have e: "ext w w2" by (rule ext_trans[OF w1(3) w2(3)])
  have "good w2 (k w2)" using w1(4) w2(2,4) e by (intro k) auto
  from good_ext[OF e this] w1(1) w2(1) show ?thesis by simp
qed

lemma on_stream_accepted_good:
  assumes inv: "Inv w" and p: "w_ops w p = Some x" and op: "aop_op x = IROH_OP_ACCEPT_BI"
  shows "frees p w (iroh_on_stream_accepted env js p state w)"
proof -
  let ?a = "aop_ictx x"
  have a: "open_at w ?a IROH_OBJ_CONNECTION" using op_facts[OF inv p] op by auto
  have clr: "good w2 (clr_flags ?a RPIROH_FLAG_STREAM_ACCEPT w2)"
    if "open_at w1 ?a IROH_OBJ_CONNECTION" "Inv w2" "ext w1 w2" for w1 w2
    using open_at_ext[OF that(1) _ that(3,2)] that by (intro good_flags) (auto simp: open_at_def)
  have rearm: "good w2 (rearm_loop env ?a IROH_OP_ACCEPT_BI RPIROH_FLAG_STREAM_ACCEPT conn_p
      (iroh_connection_accept_bi env) w2)"
    if "open_at w1 ?a IROH_OBJ_CONNECTION" "Inv w2" "ext w1 w2" for w1 w2
    using open_at_ext[OF that(1) _ that(3,2)] that
    by (intro rearm_loop_good) (auto intro!: ffi_starts dest: Inv_res(2) Inv_RInv)
  show ?thesis
    unfolding iroh_on_stream_accepted_def get_op_Some[OF p] bnd_Inr Let_def
  proof (rule bi_then[OF inv p], goal_cases)
    case (1 s t err w')
    then have a': "open_at w' ?a IROH_OBJ_CONNECTION" using a by blast
    have new: "good w' (bnd (push_new_stream ?a sp rp w') (\<lambda>(ob, w). bnd (emit env js ?a ''stream'' (Some (JObj ob)) w)
        (rearm_loop env ?a IROH_OP_ACCEPT_BI RPIROH_FLAG_STREAM_ACCEPT conn_p (iroh_connection_accept_bi env))))"
      if "s = Some sp" "t = Some rp" for sp rp
      using 1 a' that
      by (auto simp: loose_def intro!: goodp_bnd[OF push_new_stream_good] good_bnd[OF emit_open[OF _ open_at_ext[OF a']]]
          rearm[OF a'] intro: ext_trans)
    have old: "good w' (bnd (in_rust' w' (iroh_free KSendStream s)) (\<lambda>w.
         bnd (in_rust' w (iroh_free KRecvStream t)) (\<lambda>w.
         bnd (case err of
                Some m \<Rightarrow> if \<not> strstr m ''closed'' then iroh_fire_error env js ?a (Some m) w else Inr w
              | None \<Rightarrow> iroh_fire_error env js ?a (Some ''stream accept failed'') w) (\<lambda>w.
           clr_flags ?a RPIROH_FLAG_STREAM_ACCEPT w))))"
    proof (rule drop_bi[OF 1(1,4,5)], rule good_bnd)
      fix w2
      assume w2: "Inv w2" "\<forall>a ty. open_at w' a ty \<longrightarrow> open_at w2 a ty"
      then have a2: "open_at w2 ?a IROH_OBJ_CONNECTION" using a' by blast
      with w2 show "good w2 (case err of
                Some m \<Rightarrow> if \<not> strstr m ''closed'' then iroh_fire_error env js ?a (Some m) w2 else Inr w2
              | None \<Rightarrow> iroh_fire_error env js ?a (Some ''stream accept failed'') w2)"
        by (auto split: option.splits intro!: fire_open)
    qed (use a' clr in blast)
    show ?case using new old by (cases s; cases t) simp_all
  qed
qed

lemma on_bi_opened_good:
  assumes inv: "Inv w" and p: "w_ops w p = Some x" and op: "aop_op x = IROH_OP_OPEN_BI"
  shows "frees p w (iroh_on_bi_opened env js p state w)"
proof -
  let ?a = "aop_ictx x"
  have a: "open_at w ?a IROH_OBJ_CONNECTION" using op_facts[OF inv p] op by auto
  show ?thesis
    unfolding iroh_on_bi_opened_def get_op_Some[OF p] bnd_Inr Let_def
  proof (rule bi_then[OF inv p], goal_cases)
    case (1 s t err w')
    then have a': "open_at w' ?a IROH_OBJ_CONNECTION" using a by blast
    have new: "good w' (bnd (iroh_prep_cb ?a (aop_aux x) w') (\<lambda>(cb, w). case cb of None \<Rightarrow> Inr w
         | Some f \<Rightarrow> bnd (push_new_stream ?a sp rp w) (\<lambda>(ob, w). pcall_cb js ''openBi'' f [JObj ob] w)))"
      if "s = Some sp" "t = Some rp" for sp rp
    proof -
      obtain c where c: "w_ctxs w' ?a = Some c" using a' by (auto simp: open_at_def)
      obtain cb w2 where w2: "iroh_prep_cb ?a (aop_aux x) w' = Inr (cb, w2)" "view w2 = view w'"
        "\<forall>f. cb = Some f \<longrightarrow> w_objs w' (thisptr c) \<noteq> None \<and> snd f = thisptr c"
        using prep_cb_view[OF c] .
      note st = inert_step[OF w2(2) 1(1)]
      have "goodp w2 (push_new_stream ?a sp rp w2)"
        using 1 a' that st open_at_view[OF w2(2)] w2(2)
        by (intro push_new_stream_good[where tp = IROH_OBJ_CONNECTION]) (auto simp: loose_def)
      then have "good w2 (bnd (push_new_stream ?a sp rp w2) (\<lambda>(ob, w). pcall_cb js ''openBi'' f [JObj ob] w))"
        if "cb = Some f" for f
      proof (rule goodp_bnd)
        fix ob w3
        assume w3: "Inv w3" "ext w2 w3"
        have "w_objs w' (snd f) \<noteq> None" using that w2(3) by simp
        then have "w_objs w2 (snd f) \<noteq> None" using st by (simp add: keeps_def)
        from ext_obj[OF w3(2) this] w3(1) show "good w3 (case (ob, w3) of (ob, w) \<Rightarrow> pcall_cb js ''openBi'' f [JObj ob] w)"
          by (simp add: pcall_good)
      qed
      with st have "good w2 (case cb of None \<Rightarrow> Inr w2
         | Some f \<Rightarrow> bnd (push_new_stream ?a sp rp w2) (\<lambda>(ob, w). pcall_cb js ''openBi'' f [JObj ob] w))"
        by (cases cb) auto
      from good_view[OF w2(2) this] w2(1) show ?thesis by simp
    qed
    have old: "good w' (bnd (in_rust' w' (iroh_free KSendStream s)) (\<lambda>w.
         bnd (in_rust' w (iroh_free KRecvStream t)) (\<lambda>w.
           iroh_fire_error env js ?a (Some (or_default err ''openBi failed'')) w)))"
      using a' by (intro drop_bi[OF 1(1,4,5)] fire_open) auto
    show ?case using new old by (cases s; cases t) simp_all
  qed
qed

end

end
