(* ===== verification/ApiSafety.thy ===== *)
theory ApiSafety
  imports CoreSafety
begin

text \<open>
  The remaining stream and datagram handlers and the JavaScript methods of endpoints,
  connections and streams that close nothing.
\<close>

section \<open>Reading, writing and datagrams\<close>

lemma do_finish_good:
  assumes inv: "Inv w" and a: "w_ctxs w a \<noteq> None"
  shows "good w (iroh_do_finish a w)"
proof -
  obtain c where c: "w_ctxs w a = Some c" using a by auto
  show ?thesis
  proof (cases "send_p c = None \<or> has_flag (flags c) RPIROH_FLAG_FINISHED")
    case True
    with c inv show ?thesis by (auto simp: iroh_do_finish_def split: option.splits)
  next
    case False
    then obtain s where s: "send_p c = Some s" by auto
    have "in_rust' w (\<lambda>r. iroh_send_stream_finish r (Some s)) = Inr w"
      using Inv_res(3)[OF inv c s] by (simp add: in_rust'_def iroh_send_stream_finish_def deref_res_def)
    moreover have "good w (set_flags a RPIROH_FLAG_FINISHED (log (Finish s) w))"
    proof (rule good_ext[of w "log (Finish s) w", OF ext_inert(1)], rule good_flags)
      show "w_ctxs (log (Finish s) w) a \<noteq> None" using c by (simp add: log_def)
    qed (use inv in simp_all)
    ultimately show ?thesis
      using c s False by (auto simp: iroh_do_finish_def intro!: good_bnd)
  qed
qed

context js_program
begin

lemma loop_tail:
  assumes "open_at w a ty" and "stable ty" and "ty \<in> op_tys op" and "is_flag fl" and "fl \<noteq> 1"
    and "Inv w2" and "ext w w2"
    and "\<And>c. w_ctxs w2 a = Some c \<Longrightarrow> starts op (w_rust w2) (start (w_rust w2) (sel c))"
  shows "good w2 (rearm_loop env a op fl sel start w2)" and "good w2 (clr_flags a fl w2)"
proof -
  note a2 = open_at_ext[OF assms(1,2,7,6)]
  show "good w2 (rearm_loop env a op fl sel start w2)"
    by (rule rearm_loop_good[where start = start and sel = sel, OF assms(6) a2 assms(3,4,5,8)])
  show "good w2 (clr_flags a fl w2)" by (rule good_flags(2)[OF assms(6) open_at_ctx[OF a2] assms(4,5)])
qed

text \<open>The failure branch of the loop handlers.\<close>

lemma quiet_error:
  assumes "Inv w" and "open_at w a ty"
  shows "good w (case err of Some m \<Rightarrow> if q m then Inr w else iroh_fire_error env js a (Some m) w
     | None \<Rightarrow> iroh_fire_error env js a d w)"
  using assms by (auto split: option.splits intro!: fire_open)

lemma on_stream_data_good:
  assumes inv: "Inv w" and p: "w_ops w p = Some x" and op: "aop_op x = IROH_OP_STREAM_READ"
  shows "frees p w (iroh_on_stream_data env js p state w)"
proof -
  obtain h where h: "open_at w (aop_ictx x) IROH_OBJ_STREAM" "aop_handle x = Some h" "handle_live (w_rust w) h"
    using op_facts[OF inv p] op by auto
  let ?a = "aop_ictx x"
  obtain err where err: "iroh_async_get_error (w_rust w) (Some h) = Inr err"
    using get_handle_live[OF h(3)] by (auto simp: iroh_async_get_error_def)
  have tail: "good w2 (rearm_loop env ?a IROH_OP_STREAM_READ RPIROH_FLAG_READING recv_p
      (\<lambda>r p. iroh_recv_stream_read env r p 65536) w2)"
    "good w2 (bnd (clr_flags ?a RPIROH_FLAG_READING w2) (\<lambda>w. iroh_fire_event env js ?a ''end'' w))"
    if "open_at w1 ?a IROH_OBJ_STREAM" "Inv w2" "ext w1 w2" for w1 w2
  proof -
    have st: "starts IROH_OP_STREAM_READ (w_rust w2) (iroh_recv_stream_read env (w_rust w2) (recv_p c) 65536)"
      if "w_ctxs w2 ?a = Some c" for c
      using Inv_res(4)[OF \<open>Inv w2\<close> that] by (auto intro!: ffi_starts Inv_RInv[OF \<open>Inv w2\<close>])
    note lt = loop_tail[where op = IROH_OP_STREAM_READ and fl = RPIROH_FLAG_READING and sel = recv_p
        and start = "\<lambda>r p. iroh_recv_stream_read env r p 65536",
        OF that(1) stable_simps(3) _ _ _ that(2,3) st, simplified]
    show "good w2 (rearm_loop env ?a IROH_OP_STREAM_READ RPIROH_FLAG_READING recv_p
      (\<lambda>r p. iroh_recv_stream_read env r p 65536) w2)" by (rule lt(1))
    show "good w2 (bnd (clr_flags ?a RPIROH_FLAG_READING w2) (\<lambda>w. iroh_fire_event env js ?a ''end'' w))"
      using open_at_ext[OF that(1) stable_simps(3) that(3,2)] open_at_ext[OF _ stable_simps(3)]
      by (intro good_bnd[OF lt(2)] fire_open(2)) auto
  qed
  have "frees p w (bnd (iroh_free_async_op p w) (\<lambda>w. bnd (case err of
        Some m \<Rightarrow> if strstr m ''closed'' \<or> strstr m ''connection lost'' then Inr w
                  else iroh_fire_error env js ?a (Some m) w
      | None \<Rightarrow> iroh_fire_error env js ?a (Some ''stream read failed'') w) (\<lambda>w.
      bnd (clr_flags ?a RPIROH_FLAG_READING w) (\<lambda>w. iroh_fire_event env js ?a ''end'' w))))"
    by (rule free_then[OF inv p], rule good_bnd[OF quiet_error]) (use h(1) tail(2) in blast)+
  moreover have "frees p w (bnd (in_rust w (\<lambda>r. iroh_recv_stream_read_result r (aop_handle x))) (\<lambda>(result, w).
       bnd (iroh_free_async_op p w) (\<lambda>w.
       bnd (case rr_data result of None \<Rightarrow> Inr w
            | Some d \<Rightarrow> if rr_len result > 0 then emit env js ?a ''data'' (Some (JBuf d)) w else Inr w) (\<lambda>w.
       if rr_finished result then
         bnd (clr_flags ?a RPIROH_FLAG_READING w) (\<lambda>w. iroh_fire_event env js ?a ''end'' w)
       else rearm_loop env ?a IROH_OP_STREAM_READ RPIROH_FLAG_READING recv_p
           (\<lambda>r p. iroh_recv_stream_read env r p 65536) w))))"
  proof (rule take_free_val[OF inv p], goal_cases)
    case 1
    show ?case using h(2) gets_values(5)[OF h(3)] by simp
  next
    case (2 result w')
    then have a': "open_at w' ?a IROH_OBJ_STREAM" using h(1) by blast
    show ?case
      by (rule good_bnd) (use 2(1) a' tail in \<open>auto split: option.splits intro!: emit_open\<close>)
  qed
  ultimately show ?thesis using p h(2) err by (simp add: iroh_on_stream_data_def Let_def)
qed

lemma on_stream_written_good:
  assumes inv: "Inv w" and p: "w_ops w p = Some x" and op: "aop_op x = IROH_OP_STREAM_WRITE"
  shows "frees p w (iroh_on_stream_written env js p state w)"
proof -
  let ?a = "aop_ictx x"
  have a: "open_at w ?a IROH_OBJ_STREAM" using op_facts[OF inv p] op by auto
  then obtain c where c: "w_ctxs w ?a = Some c" by (auto simp: open_at_def)
  let ?w = "put_ctx ?a (c\<lparr>flags := clr_flag (flags c) RPIROH_FLAG_WRITING\<rparr>) w"
  have w1: "clr_flags ?a RPIROH_FLAG_WRITING w = Inr ?w" using c by (simp add: clr_flags_def upd_ctx_def)
  have v: "view ?w = view w" using c core_flags'[of RPIROH_FLAG_WRITING c] by (auto simp: view_def put_ctx_def)
  note s = inert_step[OF v inv]
  have p1: "w_ops ?w p = Some x" using p by simp
  have tail: "good w2 (bnd (get_ctx w2 ?a) (\<lambda>c.
         if has_flag (flags c) RPIROH_FLAG_FINISH_PENDING
         then bnd (clr_flags ?a RPIROH_FLAG_FINISH_PENDING w2) (iroh_do_finish ?a)
         else Inr w2))" if w2: "Inv w2" "open_at w2 ?a IROH_OBJ_STREAM" for w2
  proof -
    obtain c2 where c2: "w_ctxs w2 ?a = Some c2" using w2 by (auto simp: open_at_def)
    have "good w2 (bnd (clr_flags ?a RPIROH_FLAG_FINISH_PENDING w2) (iroh_do_finish ?a))"
    proof (rule good_bnd)
      show "good w2 (clr_flags ?a RPIROH_FLAG_FINISH_PENDING w2)" using w2 c2 by (intro good_flags) auto
      show "good w3 (iroh_do_finish ?a w3)" if "Inv w3" "ext w2 w3" for w3
        using open_at_ext[OF w2(2) _ that(2,1)] that(1) by (intro do_finish_good) (auto simp: open_at_def)
    qed
    with c2 w2 show ?thesis by simp
  qed
  have "frees p ?w (bnd (iroh_free_async_op p ?w) (\<lambda>w. bnd (iroh_fire_event env js ?a ''drain'' w) (\<lambda>w.
      bnd (get_ctx w ?a) (\<lambda>c.
         if has_flag (flags c) RPIROH_FLAG_FINISH_PENDING
         then bnd (clr_flags ?a RPIROH_FLAG_FINISH_PENDING w) (iroh_do_finish ?a)
         else Inr w))))"
  proof (rule free_then[OF _ p1], use s in blast, rule good_bnd)
    fix w'
    assume w': "Inv w'" "\<forall>a ty. open_at ?w a ty \<longrightarrow> open_at w' a ty"
    have a': "open_at w' ?a IROH_OBJ_STREAM" using w'(2) a open_at_view[OF v] by blast
    show "good w' (iroh_fire_event env js ?a ''drain'' w')" by (rule fire_open(2)[OF w'(1) a']) simp
    show "good w2 (bnd (get_ctx w2 ?a) (\<lambda>c.
         if has_flag (flags c) RPIROH_FLAG_FINISH_PENDING
         then bnd (clr_flags ?a RPIROH_FLAG_FINISH_PENDING w2) (iroh_do_finish ?a)
         else Inr w2))" if "Inv w2" "ext w' w2" for w2
      by (rule tail[OF that(1) open_at_ext[OF a' _ that(2,1)]]) simp
  qed
  moreover have "frees p ?w (fail_op env js p ''stream write failed'' ?w)"
    using s by (intro fail_op_good[OF _ p1]) blast
  ultimately show ?thesis
    using p w1 frees_ext[OF view_ext[OF v]] by (simp add: iroh_on_stream_written_def Let_def)
qed

lemma on_datagram_received_good:
  assumes inv: "Inv w" and p: "w_ops w p = Some x" and op: "aop_op x = IROH_OP_RECV_DATAGRAM"
  shows "frees p w (iroh_on_datagram_received env js p state w)"
proof -
  obtain h where h: "open_at w (aop_ictx x) IROH_OBJ_CONNECTION" "aop_handle x = Some h" "handle_live (w_rust w) h"
    using op_facts[OF inv p] op by auto
  let ?a = "aop_ictx x"
  have tail: "good w2 (rearm_loop env ?a IROH_OP_RECV_DATAGRAM RPIROH_FLAG_DATAGRAM_RECV conn_p
      (iroh_connection_recv_datagram env) w2)" "good w2 (clr_flags ?a RPIROH_FLAG_DATAGRAM_RECV w2)"
    if "open_at w1 ?a IROH_OBJ_CONNECTION" "Inv w2" "ext w1 w2" for w1 w2
  proof -
    have "starts IROH_OP_RECV_DATAGRAM (w_rust w2) (iroh_connection_recv_datagram env (w_rust w2) (conn_p c))"
      if "w_ctxs w2 ?a = Some c" for c
      using Inv_res(2)[OF \<open>Inv w2\<close> that] by (auto intro!: ffi_starts Inv_RInv[OF \<open>Inv w2\<close>])
    from loop_tail[where op = IROH_OP_RECV_DATAGRAM and fl = RPIROH_FLAG_DATAGRAM_RECV and sel = conn_p
        and start = "iroh_connection_recv_datagram env",
        OF that(1) stable_simps(2) _ _ _ that(2,3) this, simplified]
    show "good w2 (rearm_loop env ?a IROH_OP_RECV_DATAGRAM RPIROH_FLAG_DATAGRAM_RECV conn_p
      (iroh_connection_recv_datagram env) w2)" "good w2 (clr_flags ?a RPIROH_FLAG_DATAGRAM_RECV w2)" .
  qed
  have "frees p w (bnd (in_rust w (\<lambda>r. iroh_connection_recv_datagram_result r (aop_handle x))) (\<lambda>(d, w).
       bnd (iroh_free_async_op p w) (\<lambda>w.
       bnd (case d of None \<Rightarrow> Inr w
            | Some d \<Rightarrow> if length d > 0 then emit env js ?a ''datagram'' (Some (JBuf d)) w else Inr w)
         (rearm_loop env ?a IROH_OP_RECV_DATAGRAM RPIROH_FLAG_DATAGRAM_RECV conn_p
            (iroh_connection_recv_datagram env)))))"
  proof (rule take_free_val[OF inv p], goal_cases)
    case 1
    show ?case using h(2) gets_values(4)[OF h(3)] by simp
  next
    case (2 d w')
    then have a': "open_at w' ?a IROH_OBJ_CONNECTION" using h(1) by blast
    show ?case
      by (rule good_bnd) (use 2(1) a' tail in \<open>auto split: option.splits intro!: emit_open\<close>)
  qed
  moreover have "frees p w (bnd (fail_op env js p ''datagram recv failed'' w) (clr_flags ?a RPIROH_FLAG_DATAGRAM_RECV))"
    by (rule frees_bnd[OF fail_op_good[OF inv p]]) (rule tail(2)[OF h(1)])
  ultimately show ?thesis using p by (simp add: iroh_on_datagram_received_def Let_def)
qed

end

end
