(* ===== verification/MethodSafety.thy ===== *)
theory MethodSafety
  imports ApiSafety
begin

text \<open>
  The JavaScript methods and constructors of endpoints, connections and streams under the
  invariant. Each is a step that keeps it, from any state with it and on any arguments.
\<close>

section \<open>The context of this\<close>

lemma goodp_GET_ICTX:
  assumes inv: "Inv w"
    and k: "\<And>a c. w_ctxs w a = Some c \<Longrightarrow> open_at w a (obj_type c) \<Longrightarrow> goodp w (k a)"
  shows "goodp w (GET_ICTX this msg w k)"
proof (cases "this_ictx w this")
  case None
  with inv show ?thesis by (simp add: GET_ICTX_def)
next
  case (Some a)
  obtain c where "w_ctxs w a = Some c" "open_at w a (obj_type c)" using this_ictx_open[OF inv Some] by blast
  from k[OF this] Some show ?thesis by (simp add: GET_ICTX_def)
qed

lemma goodp_ready:
  assumes "Inv w" and "w_ctxs w a = Some c" and "\<And>x. sel c = Some x \<Longrightarrow> goodp w (k x)"
  shows "goodp w (ready a sel msg w k)"
  using assms by (cases "sel c") (simp_all add: ready_def)

lemma goodp_method:
  assumes inv: "Inv w"
    and k: "\<And>a c x. w_ctxs w a = Some c \<Longrightarrow> open_at w a (obj_type c) \<Longrightarrow> sel c = Some x \<Longrightarrow> goodp w (k a x)"
  shows "goodp w (GET_ICTX this m1 w (\<lambda>a. ready a sel m2 w (k a)))"
  by (rule goodp_GET_ICTX[OF inv], rule goodp_ready[OF inv]) (assumption, rule k)

text \<open>A string that does not parse: nothing but the last error changes.\<close>

lemma goodp_parse_failed:
  assumes "Inv w" and "tmp_added k None (w_rust w) r"
  shows "goodp w (Inr (res, w\<lparr>w_rust := r\<rparr>))"
  using assms by (simp add: Inv_rust ext_rust)

section \<open>Endpoints\<close>

lemma ep_connect_good:
  assumes inv: "Inv w"
  shows "goodp w (duk_rp_iroh_ep_connect env this a0 a1 a2 w)"
proof -
  have "goodp w (case iroh_endpoint_addr_from_string env addr_str (w_rust w) of
       (None, r) \<Rightarrow>
         Inr (Throw (''endpoint.connect: invalid address: '' @
                or_default (iroh_last_error r) ''parse error''), w\<lparr>w_rust := r\<rparr>)
     | (Some ra, r) \<Rightarrow>
         bnd (opt_cb a a2 (w\<lparr>w_rust := r\<rparr>)) (\<lambda>(aux, w).
         bnd (in_rust w (\<lambda>r. iroh_endpoint_connect env r (Some e) (Some ra) alpn)) (\<lambda>(h, w).
         bnd (in_rust' w (tmp_free TEndpointAddr (Some ra))) (\<lambda>w.
           start_or_throw env this a IROH_OP_CONNECT aux
             ''endpoint.connect: failed to start connection'' (h, w)))))"
    if a: "w_ctxs w a = Some c" "open_at w a (obj_type c)" "endpoint c = Some e" for a c e addr_str alpn
  proof -
    obtain ra r where r: "iroh_endpoint_addr_from_string env addr_str (w_rust w) = (ra, r)" by force
    note t = tmp_added_addr_from_string[OF Inv_RInv[OF inv] r]
    note e = Inv_res(1)[OF inv a(1,3)]
    show ?thesis
    proof (cases ra)
      case None
      with goodp_parse_failed[OF inv] t r show ?thesis by simp
    next
      case (Some x)
      have "starts IROH_OP_CONNECT r (iroh_endpoint_connect env r (Some e) (Some x) alpn)"
        using tmp_added_rstepD[OF t] tmp_added_SomeD Some t e
        by (intro ffi_starts) (auto dest: rstep_res intro: rstep_RInv[OF _ Inv_RInv[OF inv]])
      note call = scoped_call[where start = "\<lambda>r. iroh_endpoint_connect env r (Some e) (Some x) alpn"
          and op = IROH_OP_CONNECT and env = env and this = this and cb = a2,
          OF inv a(2) _ tmp_added_rstepD[OF t] this releases_tmp_free[OF Inv_RInv[OF inv] t]]
      show ?thesis using r Some e call by simp
    qed
  qed
  then show ?thesis
    unfolding duk_rp_iroh_ep_connect_def
    using inv by (auto split: option.splits intro!: goodp_method)
qed

lemma ep_show_good:
  assumes inv: "Inv w"
  shows "goodp w (duk_rp_iroh_ep_node_id env this w)" and "goodp w (duk_rp_iroh_ep_address env this w)"
proof -
  have *: "goodp w (GET_ICTX this msg w (\<lambda>a. bnd (get_ctx w a) (\<lambda>c.
      if endpoint c = None then Inr (Ret JUndefined, w)
      else bnd (in_rust w (\<lambda>r. f r (endpoint c))) (\<lambda>(i, w). show_id k i w))))"
    if f: "\<And>ep. (\<And>e. ep = Some e \<Longrightarrow> r_res (w_rust w) e = Some KEndpoint) \<Longrightarrow>
       safe (f (w_rust w) ep) (\<lambda>(x, r'). tmp_added k x (w_rust w) r')"
    for f :: "rust \<Rightarrow> rid option \<Rightarrow> fault + rid option \<times> rust" and k msg
  proof (rule goodp_GET_ICTX[OF inv])
    fix a c
    assume c: "w_ctxs w a = Some c"
    have "goodp w (bnd (in_rust w (\<lambda>r. f r (endpoint c))) (\<lambda>(i, w). show_id k i w))"
      using Inv_res(1)[OF inv c]
      by (intro tmp_step[where f = "\<lambda>r. f r (endpoint c)", OF inv f]) (auto intro: goodp_show_id[OF inv])
    with c inv show "goodp w (bnd (get_ctx w a) (\<lambda>c. if endpoint c = None then Inr (Ret JUndefined, w)
      else bnd (in_rust w (\<lambda>r. f r (endpoint c))) (\<lambda>(i, w). show_id k i w)))" by simp
  qed
  show "goodp w (duk_rp_iroh_ep_node_id env this w)"
    unfolding duk_rp_iroh_ep_node_id_def by (rule *) (rule gets_endpoint_info(1)[OF Inv_RInv[OF inv]])
  show "goodp w (duk_rp_iroh_ep_address env this w)"
    unfolding duk_rp_iroh_ep_address_def by (rule *) (rule gets_endpoint_info(2)[OF Inv_RInv[OF inv]])
qed

section \<open>Connections and streams\<close>

lemma conn_open_bi_good:
  assumes inv: "Inv w"
  shows "goodp w (duk_rp_iroh_conn_open_bi env this a0 w)"
proof -
  have "goodp w (bnd (iroh_store_cb a f w) (\<lambda>(aux, w).
      bnd (in_rust w (\<lambda>r. iroh_connection_open_bi env r (Some cn)))
        (start_or_throw env this a IROH_OP_OPEN_BI aux ''connection.openBi: failed to start'')))"
    if a: "w_ctxs w a = Some c" "open_at w a (obj_type c)" "conn_p c = Some cn" for a c cn f
  proof -
    note cn = Inv_res(2)[OF inv a(1,3)]
    obtain i w' where w': "iroh_store_cb a f w = Inr (i, w')" "view w' = view w" using store_cb_view[OF a(1)] .
    note s = inert_step[OF w'(2) inv]
    have "goodp w' (bnd (in_rust w' (\<lambda>r. iroh_connection_open_bi env r (Some cn)))
        (start_or_throw env this a IROH_OP_OPEN_BI i ''connection.openBi: failed to start''))"
    proof (rule goodp_call(1)[where f = "\<lambda>r. iroh_connection_open_bi env r (Some cn)"])
      show "open_at w' a IROH_OBJ_CONNECTION" using a(2) cn by (simp add: open_at_view[OF w'(2)])
      show "starts IROH_OP_OPEN_BI (w_rust w') (iroh_connection_open_bi env (w_rust w') (Some cn))"
        using s cn Inv_RInv[OF inv] by (auto intro!: ffi_starts)
    qed (use s in auto)
    from goodp_view[OF w'(2) this] w'(1) show ?thesis by simp
  qed
  then show ?thesis
    unfolding duk_rp_iroh_conn_open_bi_def
    using inv by (auto split: jsval.splits intro!: goodp_method)
qed

lemma conn_send_datagram_good:
  assumes inv: "Inv w"
  shows "goodp w (duk_rp_iroh_conn_send_datagram env this a0 w)"
  unfolding duk_rp_iroh_conn_send_datagram_def
proof (rule goodp_method[OF inv])
  fix a c cn
  assume a: "w_ctxs w a = Some c" "conn_p c = Some cn"
  have "goodp w (bnd (in_rust w (\<lambda>r. iroh_connection_send_datagram env r (Some cn) data)) (\<lambda>(err, w).
      if err \<noteq> ErrOk then Inr (Throw (''connection.sendDatagram: '' @
          or_default (iroh_last_error (w_rust w)) ''send failed''), w)
      else Inr (Ret JUndefined, w)))" for data
    by (rule goodp_bndp[OF goodp_gets[where f = "\<lambda>r. iroh_connection_send_datagram env r (Some cn) data", OF inv]])
      (use Inv_res(2)[OF inv a] in \<open>auto intro: gets_connection_info(3)[OF Inv_RInv[OF inv]]\<close>)
  then show "goodp w (case data_arg a0 of
       None \<Rightarrow> Inr (Throw ''connection.sendDatagram: arg must be a string or buffer'', w)
     | Some data \<Rightarrow> bnd (in_rust w (\<lambda>r. iroh_connection_send_datagram env r (Some cn) data)) (\<lambda>(err, w).
      if err \<noteq> ErrOk then Inr (Throw (''connection.sendDatagram: '' @
          or_default (iroh_last_error (w_rust w)) ''send failed''), w)
      else Inr (Ret JUndefined, w)))"
    using inv by (auto split: option.splits)
qed

lemma stream_write_good:
  assumes inv: "Inv w"
  shows "goodp w (duk_rp_iroh_stream_write env this a0 w)"
  unfolding duk_rp_iroh_stream_write_def
proof (rule goodp_method[OF inv])
  fix a c s
  assume a: "w_ctxs w a = Some c" "open_at w a (obj_type c)" "send_p c = Some s"
  note s = Inv_res(3)[OF inv a(1,3)]
  have "goodp w (bnd (in_rust w (\<lambda>r. iroh_send_stream_write env r (Some s) data)) (\<lambda>(h, w).
       case h of
         None \<Rightarrow> Inr (Throw ''stream.write: failed to start write'', w)
       | Some _ \<Rightarrow> bnd (set_flags a RPIROH_FLAG_WRITING w) (\<lambda>w.
             start_or_throw env this a IROH_OP_STREAM_WRITE 0 [] (h, w))))" for data
  proof (rule in_rust_starts[where f = "\<lambda>r. iroh_send_stream_write env r (Some s) data", OF inv])
    show "starts IROH_OP_STREAM_WRITE (w_rust w) (iroh_send_stream_write env (w_rust w) (Some s) data)"
      using s by (auto intro!: ffi_starts Inv_RInv[OF inv])
    fix h r
    assume r: "in_rust w (\<lambda>r. iroh_send_stream_write env r (Some s) data) = Inr (h, w\<lparr>w_rust := r\<rparr>)"
      "rstep (w_rust w) r" "r_tmp r = r_tmp (w_rust w)" "startable (w\<lparr>w_rust := r\<rparr>) IROH_OP_STREAM_WRITE h"
    let ?w = "w\<lparr>w_rust := r\<rparr>"
    have inv': "Inv ?w" by (rule Inv_rust[OF inv r(2)])
    have "w_ctxs ?w a = Some c" using a(1) by simp
    then obtain w2 where w2: "set_flags a RPIROH_FLAG_WRITING ?w = Inr w2" "view w2 = view ?w"
      by (rule flags_view[where m = RPIROH_FLAG_WRITING]) simp_all
    note s2 = inert_step[OF w2(2) inv']
    have u: "unused (view w2) n = unused (view ?w) n" for n by (simp only: w2(2))
    have "startable w2 IROH_OP_STREAM_WRITE h"
      using r(4) s2 u by (simp add: startable_def)
    moreover have "open_at w2 a IROH_OBJ_STREAM" using a(2) s by (simp add: open_at_view[OF w2(2)])
    ultimately have "goodp w2 (start_or_throw env this a IROH_OP_STREAM_WRITE 0 [] (h, w2))"
      using s2 by (intro goodp_start(2)) auto
    then have "goodp ?w (case h of
         None \<Rightarrow> Inr (Throw ''stream.write: failed to start write'', ?w)
       | Some _ \<Rightarrow> bnd (set_flags a RPIROH_FLAG_WRITING ?w) (\<lambda>w.
             start_or_throw env this a IROH_OP_STREAM_WRITE 0 [] (h, w)))"
      using inv' w2 goodp_view[OF w2(2)] by (cases h) simp_all
    from goodp_ext[OF ext_rust[OF r(3)] this] r(1)
    show "goodp w (bnd (in_rust w (\<lambda>r. iroh_send_stream_write env r (Some s) data)) (\<lambda>(h, w).
       case h of
         None \<Rightarrow> Inr (Throw ''stream.write: failed to start write'', w)
       | Some _ \<Rightarrow> bnd (set_flags a RPIROH_FLAG_WRITING w) (\<lambda>w.
             start_or_throw env this a IROH_OP_STREAM_WRITE 0 [] (h, w))))" by simp
  qed simp
  with a(1) inv show "goodp w (bnd (get_ctx w a) (\<lambda>c.
     if has_flag (flags c) RPIROH_FLAG_FINISHED
     then Inr (Throw ''stream.write: stream already finished'', w)
     else
       case data_arg a0 of
         None \<Rightarrow> Inr (Throw ''stream.write: arg must be a string or buffer'', w)
       | Some data \<Rightarrow>
           bnd (in_rust w (\<lambda>r. iroh_send_stream_write env r (Some s) data)) (\<lambda>(h, w).
           case h of
             None \<Rightarrow> Inr (Throw ''stream.write: failed to start write'', w)
           | Some _ \<Rightarrow> bnd (set_flags a RPIROH_FLAG_WRITING w) (\<lambda>w.
                 start_or_throw env this a IROH_OP_STREAM_WRITE 0 [] (h, w)))))"
    by (auto split: option.splits)
qed

lemma stream_finish_good:
  assumes inv: "Inv w"
  shows "goodp w (duk_rp_iroh_stream_finish this w)"
  unfolding duk_rp_iroh_stream_finish_def
proof (rule goodp_GET_ICTX[OF inv])
  fix a c
  assume a: "w_ctxs w a = Some c"
  then have "good w (if has_flag (flags c) RPIROH_FLAG_WRITING
      then set_flags a RPIROH_FLAG_FINISH_PENDING w else iroh_do_finish a w)"
    using do_finish_good[OF inv] good_flags(1)[OF inv] by (simp cong: if_cong)
  from good_bndp[OF this, of "\<lambda>w. Inr (Ret JUndefined, w)"] a
  show "goodp w (bnd (get_ctx w a) (\<lambda>c. bnd (if has_flag (flags c) RPIROH_FLAG_WRITING
      then set_flags a RPIROH_FLAG_FINISH_PENDING w else iroh_do_finish a w) (\<lambda>w. Inr (Ret JUndefined, w))))"
    by simp
qed

section \<open>Constructors\<close>

text \<open>
  The part the constructors share: the object becomes an emitter, gets properties, a context
  and its stash entry.
\<close>

lemma construct_step:
  assumes inv: "Inv w" and i: "w_objs w this \<noteq> None"
    and par: "\<And>q. par = Some q \<Longrightarrow> \<exists>tq. open_at w q tq \<and> stable tq"
    and g: "\<And>u. view (g u) = view u" and g': "\<And>u. view (g' u) = view u"
    and n: "new_ctx this ty par (g (init_emitter this w)) = (a, w1)"
  shows "Inv (g' w1) \<and> ext w (g' w1) \<and> keeps w (g' w1) \<and> open_at (g' w1) a ty \<and> w_rust (g' w1) = w_rust w
     \<and> w_objs (g' w1) this \<noteq> None"
proof -
  note s1 = init_emitter_step[OF inv i]
  note s2 = inert_step[OF g[of "init_emitter this w"] conjunct1[OF s1]]
  have "\<exists>ob. w_objs (g (init_emitter this w)) this = Some ob \<and> o_events ob \<noteq> None"
    using s1 arg_cong[OF g[of "init_emitter this w"], of "\<lambda>v. vobj v this"] by (auto simp: oview_def)
  then obtain ob where ob: "w_objs (g (init_emitter this w)) this = Some ob" "o_events ob \<noteq> None" by auto
  have k: "keeps w (g (init_emitter this w))" and e: "ext w (g (init_emitter this w))"
    using s1 s2 by (auto intro: keeps_trans ext_trans)
  have "\<exists>tq. open_at (g (init_emitter this w)) q tq \<and> stable tq" if "par = Some q" for q
    using par[OF that] keeps_open[OF k] by blast
  note s3 = new_ctx_step[OF conjunct1[OF s2] ob this n]
  note s4 = inert_step[OF g'[of w1] conjunct1[OF s3]]
  have "open_at (g' w1) a ty" using s3 by (simp add: open_at_view[OF g'])
  moreover have "w_objs (g' w1) this \<noteq> None" using s3 s4 by (auto simp: keeps_def)
  ultimately show ?thesis using s1 s2 s3 s4 k e by (auto intro: keeps_trans ext_trans)
qed

lemma goodp_create:
  assumes inv: "Inv w" and a: "open_at w a ty" "ty \<in> op_tys op" and st: "starts op (w_rust w) (f (w_rust w))"
  shows "goodp w (bnd (in_rust w f) (\<lambda>(h, w). case h of None \<Rightarrow> Inr (Throw (msg w), w)
    | Some _ \<Rightarrow> bnd (iroh_start_async env a h op 0 w) (\<lambda>(_, w). Inr (Ret JUndefined, w))))"
proof (rule in_rust_starts[where f = f, OF inv st])
  fix h r
  assume r: "in_rust w f = Inr (h, w\<lparr>w_rust := r\<rparr>)" "rstep (w_rust w) r"
    "r_tmp r = r_tmp (w_rust w)" "startable (w\<lparr>w_rust := r\<rparr>) op h"
  have inv': "Inv (w\<lparr>w_rust := r\<rparr>)" by (rule Inv_rust[OF inv r(2)])
  have "goodp (w\<lparr>w_rust := r\<rparr>) (iroh_start_async env a h op 0 (w\<lparr>w_rust := r\<rparr>))"
    by (rule goodp_start(1)[OF inv' _ a(2) r(4)]) (use a(1) in simp)
  then have "goodp (w\<lparr>w_rust := r\<rparr>) (case h of None \<Rightarrow> Inr (Throw (msg (w\<lparr>w_rust := r\<rparr>)), w\<lparr>w_rust := r\<rparr>)
    | Some _ \<Rightarrow> bnd (iroh_start_async env a h op 0 (w\<lparr>w_rust := r\<rparr>)) (\<lambda>(_, w). Inr (Ret JUndefined, w)))"
    using inv' by (cases h) (auto intro!: goodp_bndp)
  from goodp_ext[OF ext_rust[OF r(3)] this] r(1)
  show "goodp w (bnd (in_rust w f) (\<lambda>(h, w). case h of None \<Rightarrow> Inr (Throw (msg w), w)
    | Some _ \<Rightarrow> bnd (iroh_start_async env a h op 0 w) (\<lambda>(_, w). Inr (Ret JUndefined, w))))" by simp
qed simp

lemma endpoint_good:
  assumes inv: "Inv w" and i: "w_objs w this \<noteq> None"
  shows "goodp w (duk_rp_iroh_endpoint env ctor this opts w)"
proof -
  let ?g = "\<lambda>u. put_prop this ''online'' (JBool False) (put_prop this ''closed'' (JBool False) u)"
  obtain a w1 where n: "new_ctx this IROH_OBJ_ENDPOINT None (?g (init_emitter this w)) = (a, w1)" by force
  let ?w = "gc_protect this (w_this_id (?g (init_emitter this w))) w1"
  have s: "Inv ?w" "ext w ?w" "open_at ?w a IROH_OBJ_ENDPOINT"
    using construct_step[where g = ?g and g' = "gc_protect this (w_this_id (?g (init_emitter this w)))",
        OF inv i _ _ _ n] by auto
  have "goodp ?w (case endpoint_config env ?w opts of
          Inl e \<Rightarrow> Inr (Throw e, ?w)
        | Inr config \<Rightarrow>
            bnd (in_rust ?w (\<lambda>r. iroh_endpoint_create env r config)) (\<lambda>(h, w).
            case h of
              None \<Rightarrow> Inr (Throw (''iroh.Endpoint: failed to start creation: '' @
                       or_default (iroh_last_error (w_rust w)) ''unknown error''), w)
            | Some _ \<Rightarrow> bnd (iroh_start_async env a h IROH_OP_ENDPOINT_CREATE 0 w) (\<lambda>(_, w).
                  Inr (Ret JUndefined, w))))"
    using s(1) goodp_create[where f = "\<lambda>r. iroh_endpoint_create env r config" for config,
        OF s(1,3) _ starts_endpoint_create[OF Inv_RInv[OF s(1)]]]
    by (auto split: sum.splits)
  from goodp_ext[OF s(2) this] inv n show ?thesis
    by (simp add: duk_rp_iroh_endpoint_def Let_def)
qed

text \<open>\<open>duk_new\<close>: the fresh object is there when the constructor returns.\<close>

lemma new_endpoint_step:
  assumes inv: "Inv w"
  shows "safe (new_endpoint env opts w) (\<lambda>((ep, res), w'). Inv w' \<and> ext w w' \<and> w_objs w' ep \<noteq> None)"
proof -
  obtain this w1 where n: "new_obj empty_obj w = (this, w1)" by force
  have s: "Inv w1" "ext w w1" "w_objs w1 this \<noteq> None"
    using new_obj_step[OF inv _ n] by (auto simp: empty_obj_def)
  have "safe (duk_rp_iroh_endpoint env True this opts w1) (\<lambda>x. Inv (snd x) \<and> ext w (snd x) \<and> w_objs (snd x) this \<noteq> None)"
    by (rule safe_mono[OF endpoint_good[OF s(1,3)]]) (use s(2,3) in \<open>auto intro: ext_trans dest: ext_obj\<close>)
  then show ?thesis
    by (auto simp: new_endpoint_def n Let_def split_def elim!: safe_bndI)
qed

lemma create_server_good:
  assumes inv: "Inv w"
  shows "goodp w (duk_rp_iroh_create_server env args w)"
proof -
  obtain func opts where fo: "server_args (take 2 args) (None, None) = (func, opts)" by force
  obtain v w1 where o: "(case opts of Some v \<Rightarrow> (v, w)
      | None \<Rightarrow> (case new_obj empty_obj w of (i, w) \<Rightarrow> (JObj i, w))) = (v, w1)" by force
  have s: "Inv w1" "ext w w1"
    using o inv new_obj_step[OF inv, of empty_obj] by (auto simp: empty_obj_def split: option.splits prod.splits)
  have "safe (case res of Throw m \<Rightarrow> Inr (Throw m, w')
      | Ret _ \<Rightarrow> (case func of None \<Rightarrow> Inr (Ret (JObj ep), w')
           | Some f \<Rightarrow> (case iroh_ev_on ''createServer'' ''connection'' f ep w' of
                  (Throw m, w) \<Rightarrow> Inr (Throw m, w)
                | (Ret _, w) \<Rightarrow> Inr (Ret (JObj ep), w)))) (\<lambda>x. Inv (snd x) \<and> ext w (snd x))"
    if w': "Inv w'" "ext w1 w'" for ep res w'
  proof -
    have "Inv u \<and> ext w u" if "iroh_ev_on a b f ep w' = (r, u)" for a b f r u
      using inert_step[OF ev_on_view[OF that] w'(1)] ext_trans[OF s(2) w'(2)] ext_trans by blast
    with w' ext_trans[OF s(2) w'(2)] show ?thesis
      by (auto split: jsres.splits option.splits prod.splits)
  qed
  then have "goodp w (bnd (new_endpoint env v w1) (\<lambda>((ep, res), w).
      case res of Throw m \<Rightarrow> Inr (Throw m, w)
      | Ret _ \<Rightarrow> (case func of None \<Rightarrow> Inr (Ret (JObj ep), w)
           | Some f \<Rightarrow> (case iroh_ev_on ''createServer'' ''connection'' f ep w of
                  (Throw m, w) \<Rightarrow> Inr (Throw m, w)
                | (Ret _, w) \<Rightarrow> Inr (Ret (JObj ep), w)))))"
    by (intro safe_bndI[OF new_endpoint_step[OF s(1)]]) auto
  with fo o show ?thesis by (simp add: duk_rp_iroh_create_server_def)
qed

lemma connect_to_good:
  assumes inv: "Inv w"
  shows "goodp w (duk_rp_iroh_connect_to env a0 a1 a2 w)"
proof -
  have "goodp w' (case this_ictx w' ep of
       None \<Rightarrow> Inr (Ret (JObj ep), w')
     | Some a \<Rightarrow> bnd (iroh_store_cb a f w') (\<lambda>(cb_id, w). Inr (Ret (JObj ep),
          upd_obj ep (\<lambda>ob. ob\<lparr>o_ac_addr := Some s, o_ac_alpn := Some t, o_ac_cbid := Some cb_id\<rparr>) w)))"
    if w': "Inv w'" for w' ep f s t
  proof (cases "this_ictx w' ep")
    case (Some a)
    obtain c where c: "w_ctxs w' a = Some c" using this_ictx_open[OF w' Some] by blast
    obtain i w2 where w2: "iroh_store_cb a f w' = Inr (i, w2)" "view w2 = view w'" using store_cb_view[OF c] .
    have "view (upd_obj ep (\<lambda>ob. ob\<lparr>o_ac_addr := Some s, o_ac_alpn := Some t, o_ac_cbid := Some i\<rparr>) w2) = view w'"
      using w2(2) by (subst view_upd_obj) (simp_all add: oview_def)
    from inert_step[OF this w'] w2(1) Some show ?thesis by simp
  qed (use w' in simp)
  then have "goodp w (bnd (new_endpoint env JUndefined w) (\<lambda>((ep, res), w).
      case res of Throw m \<Rightarrow> Inr (Throw m, w)
      | Ret _ \<Rightarrow> (case this_ictx w ep of
           None \<Rightarrow> Inr (Ret (JObj ep), w)
         | Some a \<Rightarrow> bnd (iroh_store_cb a f w) (\<lambda>(cb_id, w). Inr (Ret (JObj ep),
              upd_obj ep (\<lambda>ob. ob\<lparr>o_ac_addr := Some s, o_ac_alpn := Some t, o_ac_cbid := Some cb_id\<rparr>) w)))))"
    for f s t
    by (intro safe_bndI[OF new_endpoint_step[OF inv]]) (auto split: jsres.splits intro: goodp_ext)
  then show ?thesis
    using inv by (auto simp: duk_rp_iroh_connect_to_def split: option.splits jsval.splits)
qed

context js_program
begin

lemma trigger_good:
  assumes "Inv w" and "w_objs w this \<noteq> None"
  shows "goodp w (duk_rp_iroh_trigger env js this a0 a1 w)"
  using do_callback_good[OF assms] assms(1)
  by (auto simp: duk_rp_iroh_trigger_def split: option.splits)

end

end
