(* ===== verification/ServiceSafety.thy ===== *)
theory ServiceSafety
  imports MethodSafety
begin

text \<open>
  The result handlers of gossip, blobs and docs under the invariant. Contexts of blobs and docs
  may be closed by any callback; their handlers touch the context before the callback only.
\<close>

text \<open>The endpoint a blobs or docs object was created on, read through the parent pointer.\<close>

lemma parent_endpoint_ok:
  assumes inv: "Inv w" and a: "open_at w a ty"
  obtains ep where "parent_endpoint a w = Inr ep" and "\<forall>e. ep = Some e \<longrightarrow> r_res (w_rust w) e = Some KEndpoint"
proof -
  obtain c where c: "w_ctxs w a = Some c" using a by (auto simp: open_at_def)
  show ?thesis
  proof (cases "parent c")
    case None
    with c show ?thesis by (intro that[of None]) (simp_all add: parent_endpoint_def)
  next
    case (Some q)
    have "\<exists>kq. vc (view w) q = Some kq" using Inv_ctx[OF inv c] Some by (auto simp: ctx_ok_def)
    then obtain d where d: "w_ctxs w q = Some d" by auto
    with c Some Inv_res(1)[OF inv d] show ?thesis
      by (intro that[of "endpoint d"]) (simp_all add: parent_endpoint_def)
  qed
qed

context js_program
begin

section \<open>Results that go into the context\<close>

lemma take_result_into:
  assumes inv: "Inv w" and p: "w_ops w p = Some x" and a: "open_at w (aop_ictx x) ty" and i: "i \<in> kinds ty"
    and f: "\<And>y c. core (f y c) = (core c)\<lparr>v_res := (res_of c)(i := y)\<rparr>"
    and get: "\<And>r h. RInv r \<Longrightarrow> handle_live r h \<Longrightarrow> gets_box i r (get r (Some h))"
    and k: "\<And>y w'. Inv w' \<Longrightarrow> w_ops w' p = Some x \<Longrightarrow> open_at w' (aop_ictx x) ty \<Longrightarrow> frees p w' (k y w')"
  shows "frees p w (bnd (in_rust w (\<lambda>r. get r (aop_handle x))) (\<lambda>(y, w). bnd (upd_ctx (aop_ictx x) (f y) w) (k y)))"
proof (rule take_into[where get = "\<lambda>r. get r (aop_handle x)", OF inv a i f])
  obtain h where "aop_handle x = Some h" "handle_live (w_rust w) h" using op_facts[OF inv p] by metis
  with get[OF Inv_RInv[OF inv]] show "gets_box i (w_rust w) (get (w_rust w) (aop_handle x))" by simp
qed (use k p in auto)

lemma created_tail:
  assumes "Inv w" and "w_ops w p = Some x" and "open_at w (aop_ictx x) ty"
  shows "frees p w (bnd (iroh_free_async_op p w) (\<lambda>w. if b then iroh_fire_error env js (aop_ictx x) m w
     else iroh_fire_event env js (aop_ictx x) ''ready'' w))"
  using assms(3) by (intro free_then[OF assms(1,2)] safe_ifI fire_open) auto

lemma on_gossip_created_good:
  assumes inv: "Inv w" and p: "w_ops w p = Some x" and op: "aop_op x = IROH_OP_GOSSIP_CREATE"
  shows "frees p w (iroh_on_gossip_created env js p state w)"
proof -
  let ?a = "aop_ictx x"
  have a: "open_at w ?a IROH_OBJ_GOSSIP" using op_facts[OF inv p] op by auto
  have "frees p w (bnd (in_rust w (\<lambda>r. iroh_gossip_from_router_result r (aop_handle x))) (\<lambda>(g, w).
       bnd (upd_ctx ?a (\<lambda>c. c\<lparr>gossip_p := g\<rparr>) w) (\<lambda>w.
       bnd (in_rust w (\<lambda>r. iroh_router_from_gossip_result r (aop_handle x))) (\<lambda>(ro, w).
       bnd (upd_ctx ?a (\<lambda>c. c\<lparr>router := ro\<rparr>) w) (\<lambda>w.
       bnd (iroh_free_async_op p w) (\<lambda>w.
       if g = None then iroh_fire_error env js ?a (Some ''Failed to get gossip result'') w
       else iroh_fire_event env js ?a ''ready'' w))))))"
    by (rule take_result_into[where i = KGossip and get = iroh_gossip_from_router_result, OF inv p a], simp, simp,
        erule (1) gets_boxed(6),
        rule take_result_into[where i = KRouter and get = iroh_router_from_gossip_result], assumption+, simp, simp,
        erule (1) gets_boxed(7),
        rule created_tail)
  with fail_op_good[OF inv p] p show ?thesis by (simp add: iroh_on_gossip_created_def Let_def)
qed

lemma on_gossip_subscribed_good:
  assumes inv: "Inv w" and p: "w_ops w p = Some x" and op: "aop_op x = IROH_OP_GOSSIP_SUBSCRIBE"
  shows "frees p w (iroh_on_gossip_subscribed env js p state w)"
proof -
  let ?a = "aop_ictx x"
  have a: "open_at w ?a IROH_OBJ_GOSSIP_TOPIC" using op_facts[OF inv p] op by auto
  have tail: "frees p w' (bnd (iroh_free_async_op p w') (\<lambda>w.
       if t = None then iroh_fire_error env js ?a (Some ''Failed to get topic result'') w
       else bnd (iroh_start_gossip_recv_loop env ?a w) (\<lambda>w. iroh_fire_event env js ?a ''ready'' w)))"
    if w': "Inv w'" "w_ops w' p = Some x" "open_at w' ?a IROH_OBJ_GOSSIP_TOPIC" for t :: "rid option" and w'
  proof (rule free_then[OF w'(1,2)])
    fix u
    assume u: "Inv u" "\<forall>a ty. open_at w' a ty \<longrightarrow> open_at u a ty"
    then have au: "open_at u ?a IROH_OBJ_GOSSIP_TOPIC" using w'(3) by blast
    have "good u (bnd (iroh_start_gossip_recv_loop env ?a u) (\<lambda>w. iroh_fire_event env js ?a ''ready'' w))"
      by (rule good_bnd[OF loops_good(5)[OF u(1) open_at_ctx[OF au]]], rule fire_open(2))
        (use open_at_ext[OF au] in auto)
    with fire_open(1)[OF u(1) au]
    show "good u (if t = None then iroh_fire_error env js ?a (Some ''Failed to get topic result'') u
       else bnd (iroh_start_gossip_recv_loop env ?a u) (\<lambda>w. iroh_fire_event env js ?a ''ready'' w))" by simp
  qed
  have "frees p w (bnd (in_rust w (\<lambda>r. iroh_gossip_subscribe_result r (aop_handle x))) (\<lambda>(t, w).
       bnd (upd_ctx ?a (\<lambda>c. c\<lparr>topic_handle := t\<rparr>) w) (\<lambda>w.
       bnd (iroh_free_async_op p w) (\<lambda>w.
       if t = None then iroh_fire_error env js ?a (Some ''Failed to get topic result'') w
       else bnd (iroh_start_gossip_recv_loop env ?a w) (\<lambda>w. iroh_fire_event env js ?a ''ready'' w)))))"
    by (rule take_result_into[where i = KGossipTopic and get = iroh_gossip_subscribe_result, OF inv p a _ _ gets_boxed(8)]) (simp_all add: tail)
  with fail_op_good[OF inv p] p show ?thesis by (simp add: iroh_on_gossip_subscribed_def Let_def)
qed

lemma on_gossip_broadcast_good:
  assumes "Inv w" and "w_ops w p = Some x"
  shows "frees p w (iroh_on_gossip_broadcast env js p state w)"
proof -
  have "frees p w (bnd (iroh_free_async_op p w) Inr)" by (rule free_then[OF assms]) simp
  with fail_op_good[OF assms] show ?thesis by (simp add: iroh_on_gossip_broadcast_def)
qed

section \<open>Gossip messages\<close>

lemma peer_text_ok:
  assumes "\<And>n. p = Some n \<Longrightarrow> \<exists>s. r_tmp r n = Some (TPublicKey, s)"
  obtains t where "peer_text p r = Inr t"
  using assms that by (cases p) (auto simp: peer_text_def tmp_to_string_def tmp_val_def)

lemma gossip_deliver_good:
  assumes inv: "Inv w" and a: "open_at w a ty"
    and p: "\<And>n. ge_peer ev = Some n \<Longrightarrow> \<exists>s. r_tmp (w_rust w) n = Some (TPublicKey, s)"
  shows "good w (gossip_deliver env js a ev w)"
proof -
  obtain t where t: "peer_text (ge_peer ev) (w_rust w) = Inr t" using peer_text_ok[OF p] .
  obtain ob w1 where n: "new_obj (empty_obj\<lparr>o_props := message_props ev t\<rparr>) w = (ob, w1)" by force
  have s: "Inv w1" "ext w w1" "keeps w w1" using new_obj_step[OF inv _ n] by (auto simp: empty_obj_def)
  have "good w1 (emit env js a ''message'' (Some (JObj ob)) w1)"
    by (rule emit_open[OF s(1) keeps_open[OF s(3) a]]) simp
  from good_ext[OF s(2) this] t n inv emit_open[OF inv a] show ?thesis
    by (auto simp: gossip_deliver_def split: IrohGossipEventType.splits)
qed

lemma on_gossip_recv_good:
  assumes inv: "Inv w" and p: "w_ops w p = Some x" and op: "aop_op x = IROH_OP_GOSSIP_RECV"
  shows "frees p w (iroh_on_gossip_recv env js p state w)"
proof -
  obtain h where h: "open_at w (aop_ictx x) IROH_OBJ_GOSSIP_TOPIC" "aop_handle x = Some h" "handle_live (w_rust w) h"
    using op_facts[OF inv p] op by auto
  let ?a = "aop_ictx x"
  obtain err where err: "iroh_async_get_error (w_rust w) (Some h) = Inr err"
    using get_handle_live[OF h(3)] by (auto simp: iroh_async_get_error_def)
  have tail: "good w2 (rearm_loop env ?a IROH_OP_GOSSIP_RECV RPIROH_FLAG_READING topic_handle
      (iroh_gossip_recv env) w2)" "good w2 (clr_flags ?a RPIROH_FLAG_READING w2)"
    if "open_at w1 ?a IROH_OBJ_GOSSIP_TOPIC" "Inv w2" "ext w1 w2" for w1 w2
  proof -
    have "starts IROH_OP_GOSSIP_RECV (w_rust w2) (iroh_gossip_recv env (w_rust w2) (topic_handle c))"
      if "w_ctxs w2 ?a = Some c" for c
      using Inv_res(6)[OF \<open>Inv w2\<close> that] by (auto intro!: ffi_starts Inv_RInv[OF \<open>Inv w2\<close>])
    from loop_tail[where op = IROH_OP_GOSSIP_RECV and fl = RPIROH_FLAG_READING and sel = topic_handle
        and start = "iroh_gossip_recv env",
        OF that(1) stable_simps(5) _ _ _ that(2,3) this, simplified]
    show "good w2 (rearm_loop env ?a IROH_OP_GOSSIP_RECV RPIROH_FLAG_READING topic_handle
      (iroh_gossip_recv env) w2)" "good w2 (clr_flags ?a RPIROH_FLAG_READING w2)" .
  qed
  have "frees p w (bnd (iroh_free_async_op p w) (\<lambda>w. bnd (case err of
        Some m \<Rightarrow> if strstr m ''closed'' \<or> strstr m ''connection lost'' then Inr w
                  else iroh_fire_error env js ?a (Some m) w
      | None \<Rightarrow> iroh_fire_error env js ?a (Some ''gossip recv failed'') w)
      (clr_flags ?a RPIROH_FLAG_READING)))"
    by (rule free_then[OF inv p], rule good_bnd[OF quiet_error]) (use h(1) tail(2) in blast)+
  moreover have "frees p w (bnd (in_rust w (\<lambda>r. iroh_gossip_recv_result r (aop_handle x))) (\<lambda>(ev, w).
       bnd (iroh_free_async_op p w) (\<lambda>w.
       bnd (gossip_deliver env js ?a ev w) (\<lambda>w.
       bnd (in_rust' w (iroh_gossip_event_free ev))
         (rearm_loop env ?a IROH_OP_GOSSIP_RECV RPIROH_FLAG_READING topic_handle (iroh_gossip_recv env))))))"
  proof (cases "iroh_gossip_recv_result (w_rust w) (Some h)")
    case (Inl e)
    with gets_gossip_recv[OF Inv_RInv[OF inv] h(3)] h(2) show ?thesis by (simp add: in_rust_def)
  next
    case (Inr z)
    obtain ev r where z: "z = (ev, r)" by force
    with Inr gets_gossip_recv[OF Inv_RInv[OF inv] h(3)]
    have r: "tmp_added TPublicKey (ge_peer ev) (w_rust w) r" by simp
    let ?w = "w\<lparr>w_rust := r\<rparr>"
    have "frees p ?w (bnd (iroh_free_async_op p ?w) (gossip_deliver env js ?a ev))"
    proof (rule free_then[OF Inv_rust[OF inv tmp_added_rstepD[OF r]]])
      show "w_ops ?w p = Some x" using p by simp
      fix u
      assume u: "Inv u" "ext ?w u" "\<forall>a ty. open_at ?w a ty \<longrightarrow> open_at u a ty"
      have "\<exists>s. r_tmp (w_rust u) n = Some (TPublicKey, s)" if "ge_peer ev = Some n" for n
        using tmp_added_SomeD[OF r[unfolded that]] u(2) by (simp add: ext_def)
      with u h(1) show "good u (gossip_deliver env js ?a ev u)" by (intro gossip_deliver_good) auto
    qed
    from scoped_end[OF inv r this]
    have "frees p w (bnd (bnd (bnd (iroh_free_async_op p ?w) (gossip_deliver env js ?a ev))
        (\<lambda>w. in_rust' w (tmp_free TPublicKey (ge_peer ev))))
        (rearm_loop env ?a IROH_OP_GOSSIP_RECV RPIROH_FLAG_READING topic_handle (iroh_gossip_recv env)))"
      by (rule frees_bnd) (rule tail(1)[OF h(1)])
    then show ?thesis
      using Inr z h(2) by (simp add: in_rust_def bnd_assoc iroh_gossip_event_free_def[abs_def])
  qed
  ultimately show ?thesis using p h(2) err by (simp add: iroh_on_gossip_recv_def Let_def)
qed

section \<open>Blobs\<close>

lemma on_blobs_created_good:
  assumes inv: "Inv w" and p: "w_ops w p = Some x" and op: "aop_op x = IROH_OP_BLOBS_CREATE"
  shows "frees p w (iroh_on_blobs_created env js p state w)"
proof -
  let ?a = "aop_ictx x"
  have a: "open_at w ?a IROH_OBJ_BLOBS" using op_facts[OF inv p] op by auto
  have "frees p w (bnd (in_rust w (\<lambda>r. iroh_blobs_store_from_router_result r (aop_handle x))) (\<lambda>(s, w).
       bnd (upd_ctx ?a (\<lambda>c. c\<lparr>blob_store := s\<rparr>) w) (\<lambda>w.
       bnd (in_rust w (\<lambda>r. iroh_blobs_protocol_from_router_result r (aop_handle x))) (\<lambda>(b, w).
       bnd (upd_ctx ?a (\<lambda>c. c\<lparr>blobs_proto := b\<rparr>) w) (\<lambda>w.
       bnd (in_rust w (\<lambda>r. iroh_router_from_blobs_result r (aop_handle x))) (\<lambda>(ro, w).
       bnd (upd_ctx ?a (\<lambda>c. c\<lparr>router := ro\<rparr>) w) (\<lambda>w.
       bnd (iroh_free_async_op p w) (\<lambda>w.
       if s = None then iroh_fire_error env js ?a (Some ''Failed to get blobs result'') w
       else iroh_fire_event env js ?a ''ready'' w))))))))"
    by (rule take_result_into[where i = KBlobStore and get = iroh_blobs_store_from_router_result, OF inv p a], simp, simp,
        erule (1) gets_boxed(9),
        rule take_result_into[where i = KBlobsProtocol and get = iroh_blobs_protocol_from_router_result], assumption+, simp, simp,
        erule (1) gets_boxed(10),
        rule take_result_into[where i = KRouter and get = iroh_router_from_blobs_result], assumption+, simp, simp,
        erule (1) gets_boxed(11), rule created_tail)
  with fail_op_good[OF inv p] p show ?thesis by (simp add: iroh_on_blobs_created_def Let_def)
qed

lemma added_props_good:
  assumes inv: "Inv w" and a: "open_at w a ty" and hash: "r_tmp (w_rust w) hash = Some (TBlobHash, hs)"
  shows "safe (added_props env a hash w) (\<lambda>(ps, w'). Inv w' \<and> ext w w' \<and> keeps w w')"
proof -
  obtain s where s: "tmp_to_string TBlobHash hash (w_rust w) = Inr s"
    using hash by (simp add: tmp_to_string_def tmp_val_def)
  obtain ep where ep: "parent_endpoint a w = Inr ep" "\<forall>e. ep = Some e \<longrightarrow> r_res (w_rust w) e = Some KEndpoint"
    using parent_endpoint_ok[OF inv a] .
  have "safe (bnd (in_rust w (\<lambda>r. iroh_blobs_create_ticket env r ep (Some hash))) (\<lambda>(t, w).
         case t of None \<Rightarrow> Inr ([(''hash'', str_or_null s)], w)
         | Some ti \<Rightarrow> bnd (tmp_to_string TBlobTicket ti (w_rust w)) (\<lambda>ts.
             bnd (in_rust' w (tmp_free TBlobTicket t)) (\<lambda>w.
               Inr ([(''hash'', str_or_null s), (''ticket'', str_or_null ts)], w)))))
     (\<lambda>(ps, w'). Inv w' \<and> ext w w' \<and> keeps w w')"
  proof (rule tmp_step[where f = "\<lambda>r. iroh_blobs_create_ticket env r ep (Some hash)", OF inv])
    show "safe (iroh_blobs_create_ticket env (w_rust w) ep (Some hash)) (\<lambda>(x, r). tmp_added TBlobTicket x (w_rust w) r)"
      by (rule gets_endpoint_info(4)[OF Inv_RInv[OF inv] _ hash]) (use ep in blast)
    fix t r
    assume t: "tmp_added TBlobTicket t (w_rust w) r"
    let ?w = "w\<lparr>w_rust := r\<rparr>"
    let ?r = "r\<lparr>r_tmp := r_tmp (w_rust w)\<rparr>"
    note R = rstep_trans[OF tmp_added_rstepD[OF t] rstep_tmp[OF tmp_added_rstepD[OF t] Inv_RInv[OF inv]]]
    have fr: "in_rust' ?w (tmp_free TBlobTicket t) = Inr (w\<lparr>w_rust := ?r\<rparr>)"
      using releases_tmp_free[OF Inv_RInv[OF inv] t] by (simp add: releases_def)
    show "safe (case (t, ?w) of (t, w) \<Rightarrow> case t of None \<Rightarrow> Inr ([(''hash'', str_or_null s)], w)
         | Some ti \<Rightarrow> bnd (tmp_to_string TBlobTicket ti (w_rust w)) (\<lambda>ts.
             bnd (in_rust' w (tmp_free TBlobTicket t)) (\<lambda>w.
               Inr ([(''hash'', str_or_null s), (''ticket'', str_or_null ts)], w))))
       (\<lambda>(ps, w'). Inv w' \<and> ext w w' \<and> keeps w w')"
    proof (cases t)
      case None
      with t inv show ?thesis by (simp add: Inv_rust ext_rust keeps_rust)
    next
      case (Some ti)
      obtain ts where "tmp_to_string TBlobTicket ti r = Inr ts" using t Some by (auto intro: tmp_to_string_added)
      with Some fr Inv_rust[OF inv R] keeps_rust[OF R] show ?thesis by (simp add: ext_def)
    qed
  qed
  with s ep inv show ?thesis by (auto simp: added_props_def split: option.splits)
qed

lemma on_blobs_added_good:
  assumes inv: "Inv w" and p: "w_ops w p = Some x"
  shows "frees p w (iroh_on_blobs_added env js p state w)"
proof -
  obtain ty h where h: "open_at w (aop_ictx x) ty" "aop_handle x = Some h" "handle_live (w_rust w) h"
    using op_facts[OF inv p] .
  let ?a = "aop_ictx x"
  let ?call = "\<lambda>n w. bnd (iroh_prep_cb ?a (aop_aux x) w) (\<lambda>(cb, w). case cb of None \<Rightarrow> Inr w
      | Some f \<Rightarrow> bnd (added_props env ?a n w) (\<lambda>(ps, w).
          let (ob, w) = new_obj (empty_obj\<lparr>o_props := ps\<rparr>) w in pcall_cb js ''addBytes'' f [JObj ob] w))"
  let ?k = "\<lambda>hash w. case hash of None \<Rightarrow> Inr w | Some n \<Rightarrow> ?call n w"
  have call: "good u (?call n u)"
    if u: "Inv u" "open_at u ?a ty" "r_tmp (w_rust u) n = Some (TBlobHash, s)" for n s u
  proof -
    obtain c where c: "w_ctxs u ?a = Some c" using u(2) by (auto simp: open_at_def)
    obtain cb u1 where u1: "iroh_prep_cb ?a (aop_aux x) u = Inr (cb, u1)" "view u1 = view u"
      "\<forall>f. cb = Some f \<longrightarrow> w_objs u (thisptr c) \<noteq> None \<and> snd f = thisptr c" using prep_cb_view[OF c] .
    note s1 = inert_step[OF u1(2) u(1)]
    have a1: "open_at u1 ?a ty" using u(2) by (simp add: open_at_view[OF u1(2)])
    have "good u1 (bnd (added_props env ?a n u1) (\<lambda>(ps, w).
          let (ob, w) = new_obj (empty_obj\<lparr>o_props := ps\<rparr>) w in pcall_cb js ''addBytes'' f [JObj ob] w))"
      if f: "cb = Some f" for f
    proof (rule safe_bndI[OF added_props_good[of u1 ?a ty n s]], goal_cases)
      case 3
      then show ?case using u(3) s1 by simp
    next
      case (4 y)
      obtain ps u2 where y: "y = (ps, u2)" by force
      with 4 have u2: "Inv u2" "ext u1 u2" "keeps u1 u2" by auto
      obtain ob u3 where n3: "new_obj (empty_obj\<lparr>o_props := ps\<rparr>) u2 = (ob, u3)" by force
      have s3: "Inv u3" "ext u2 u3" "keeps u2 u3" using new_obj_step[OF u2(1) _ n3] by (auto simp: empty_obj_def)
      have "w_objs u3 (snd f) \<noteq> None"
        using u1(3) f s1 u2(3) s3(3) unfolding keeps_def by metis
      from good_ext[OF ext_trans[OF u2(2) s3(2)] pcall_good[OF s3(1) this]] y n3 show ?case by simp
    qed (use s1 a1 in auto)
    then have "good u1 (case cb of None \<Rightarrow> Inr u1
      | Some f \<Rightarrow> bnd (added_props env ?a n u1) (\<lambda>(ps, w).
          let (ob, w) = new_obj (empty_obj\<lparr>o_props := ps\<rparr>) w in pcall_cb js ''addBytes'' f [JObj ob] w))"
      using s1 by (auto split: option.splits)
    from good_view[OF u1(2) this] u1(1) show ?thesis by simp
  qed
  have "frees p w (bnd (in_rust w (\<lambda>r. iroh_blobs_add_result r (aop_handle x))) (\<lambda>(hash, w).
       bnd (bnd (iroh_free_async_op p w) (?k hash)) (\<lambda>w. in_rust' w (tmp_free TBlobHash hash))))"
  proof (rule take_free_tmp[where get = "\<lambda>r. iroh_blobs_add_result r (aop_handle x)", OF inv p], goal_cases)
    case 1
    show ?case using gets_tmps(1)[OF Inv_RInv[OF inv] h(3)] h(2) by simp
  next
    case (2 hash u)
    show ?case using 2(1,3) call 2(2) h(1) by (cases hash) auto
  qed
  moreover have "(\<lambda>(hash, w). bnd (bnd (iroh_free_async_op p w) (?k hash)) (\<lambda>w. in_rust' w (tmp_free TBlobHash hash)))
    = (\<lambda>(hash, w). bnd (iroh_free_async_op p w) (\<lambda>w. case hash of
         None \<Rightarrow> Inr w
       | Some n \<Rightarrow> bnd (iroh_prep_cb ?a (aop_aux x) w) (\<lambda>(cb, w).
           bnd (case cb of None \<Rightarrow> Inr w
                | Some f \<Rightarrow> bnd (added_props env ?a n w) (\<lambda>(ps, w).
                    let (ob, w) = new_obj (empty_obj\<lparr>o_props := ps\<rparr>) w in
                    pcall_cb js ''addBytes'' f [JObj ob] w)) (\<lambda>w. in_rust' w (tmp_free TBlobHash hash)))))"
    by (auto simp: fun_eq_iff bnd_assoc tmp_free_def in_rust'_def split_def split: option.splits intro!: arg_cong2[of _ _ _ _ bnd])
  ultimately show ?thesis
    using p fail_op_good[OF inv p] by (simp add: iroh_on_blobs_added_def Let_def)
qed

text \<open>A byte result handed to the one-shot callback.\<close>

lemma oneshot_free:
  assumes inv: "Inv w" and p: "w_ops w p = Some x"
  shows "frees p w (bnd (iroh_free_async_op p w) (oneshot js (aop_ictx x) i what args))"
proof -
  obtain ty where a: "open_at w (aop_ictx x) ty" using op_facts[OF inv p] .
  then show ?thesis by (intro free_then[OF inv p] oneshot_good) (auto dest: open_at_ctx)
qed

lemma oneshot_val:
  assumes inv: "Inv w" and p: "w_ops w p = Some x"
    and get: "\<And>h. handle_live (w_rust w) h \<Longrightarrow> gets (w_rust w) (get (w_rust w) (Some h))"
  shows "frees p w (bnd (in_rust w (\<lambda>r. get r (aop_handle x))) (\<lambda>(d, w).
     bnd (iroh_free_async_op p w) (oneshot js (aop_ictx x) i what (args d))))"
proof -
  obtain ty h where h: "open_at w (aop_ictx x) ty" "aop_handle x = Some h" "handle_live (w_rust w) h"
    using op_facts[OF inv p] .
  show ?thesis
    by (rule take_free_val[where get = "\<lambda>r. get r (aop_handle x)", OF inv p])
      (use get[OF h(3)] h in \<open>auto intro!: oneshot_good dest: open_at_ctx\<close>)
qed

text \<open>An id result handed to the one-shot callback and released afterwards.\<close>

lemma oneshot_id:
  assumes inv: "Inv w" and p: "w_ops w p = Some x"
    and get: "\<And>h. handle_live (w_rust w) h \<Longrightarrow>
      safe (get (w_rust w) (Some h)) (\<lambda>(y, r). tmp_added k y (w_rust w) r)"
  shows "frees p w (bnd (in_rust w (\<lambda>r. get r (aop_handle x))) (\<lambda>(y, w).
     bnd (iroh_free_async_op p w) (\<lambda>w. bnd (id_val k y (w_rust w)) (\<lambda>v.
     bnd (oneshot js (aop_ictx x) i what [v] w) (\<lambda>w. in_rust' w (tmp_free k y))))))"
proof -
  obtain ty h where h: "open_at w (aop_ictx x) ty" "aop_handle x = Some h" "handle_live (w_rust w) h"
    using op_facts[OF inv p] .
  have "frees p w (bnd (in_rust w (\<lambda>r. get r (aop_handle x))) (\<lambda>(y, w).
     bnd (bnd (iroh_free_async_op p w) (\<lambda>w. bnd (id_val k y (w_rust w)) (\<lambda>v.
     oneshot js (aop_ictx x) i what [v] w))) (\<lambda>w. in_rust' w (tmp_free k y))))"
  proof (rule take_free_tmp[where get = "\<lambda>r. get r (aop_handle x)", OF inv p], goal_cases)
    case 1
    show ?case using get[OF h(3)] h(2) by simp
  next
    case (2 y u)
    have a: "w_ctxs u (aop_ictx x) \<noteq> None" using 2(2) h(1) open_at_ctx by blast
    obtain v where "id_val k y (w_rust u) = Inr v"
      using 2(3) by (cases y) (auto simp: id_val_def tmp_to_string_def tmp_val_def)
    with oneshot_good[OF 2(1) a] show ?case by simp
  qed
  then show ?thesis by (simp add: bnd_assoc)
qed

lemma on_blobs_read_good:
  assumes inv: "Inv w" and p: "w_ops w p = Some x"
  shows "frees p w (iroh_on_blobs_read env js p state w)"
  using oneshot_val[where get = iroh_blobs_read_result and i = "aop_aux x" and what = "''blobs.read''"
      and args = "\<lambda>d. [bytes_val d]", OF inv p gets_values(3)] fail_op_good[OF inv p] p
  by (simp add: iroh_on_blobs_read_def Let_def)

lemma on_blobs_downloaded_good:
  assumes inv: "Inv w" and p: "w_ops w p = Some x"
  shows "frees p w (iroh_on_blobs_downloaded env js p state w)"
  using oneshot_id[where get = iroh_blobs_download_result and k = TBlobHash and i = "aop_aux x"
      and what = "''download''", OF inv p gets_tmps(2)[OF Inv_RInv[OF inv]]] fail_op_good[OF inv p] p
  by (simp add: iroh_on_blobs_downloaded_def Let_def)

section \<open>Docs\<close>

lemma on_docs_created_good:
  assumes inv: "Inv w" and p: "w_ops w p = Some x" and op: "aop_op x = IROH_OP_DOCS_CREATE"
  shows "frees p w (iroh_on_docs_created env js p state w)"
proof -
  let ?a = "aop_ictx x"
  have a: "open_at w ?a IROH_OBJ_DOCS" using op_facts[OF inv p] op by auto
  have "frees p w (bnd (in_rust w (\<lambda>r. iroh_docs_from_router_result r (aop_handle x))) (\<lambda>(d, w).
       bnd (upd_ctx ?a (\<lambda>c. c\<lparr>docs_p := d\<rparr>) w) (\<lambda>w.
       bnd (in_rust w (\<lambda>r. iroh_blobs_store_from_docs_result r (aop_handle x))) (\<lambda>(s, w).
       bnd (upd_ctx ?a (\<lambda>c. c\<lparr>blob_store := s\<rparr>) w) (\<lambda>w.
       bnd (in_rust w (\<lambda>r. iroh_router_from_docs_result r (aop_handle x))) (\<lambda>(ro, w).
       bnd (upd_ctx ?a (\<lambda>c. c\<lparr>router := ro\<rparr>) w) (\<lambda>w.
       bnd (iroh_free_async_op p w) (\<lambda>w.
       if d = None then iroh_fire_error env js ?a (Some ''Failed to get docs result'') w
       else iroh_fire_event env js ?a ''ready'' w))))))))"
    by (rule take_result_into[where i = KDocs and get = iroh_docs_from_router_result, OF inv p a], simp, simp,
        erule (1) gets_boxed(12),
        rule take_result_into[where i = KBlobStore and get = iroh_blobs_store_from_docs_result],
        assumption+, simp, simp, erule (1) gets_boxed(13),
        rule take_result_into[where i = KRouter and get = iroh_router_from_docs_result],
        assumption+, simp, simp, erule (1) gets_boxed(14), rule created_tail)
  with fail_op_good[OF inv p] p show ?thesis by (simp add: iroh_on_docs_created_def Let_def)
qed

lemma docs_id_result_good:
  assumes inv: "Inv w" and p: "w_ops w p = Some x"
    and get: "\<And>h. handle_live (w_rust w) h \<Longrightarrow>
      safe (get (w_rust w) (Some h)) (\<lambda>(y, r). tmp_added k y (w_rust w) r)"
  shows "frees p w (iroh_on_docs_id_result env js p state k get w)"
  using oneshot_id[where get = get and k = k and i = "aop_aux x" and what = "''docs''", OF inv p get]
    fail_op_good[OF inv p] p
  by (simp add: iroh_on_docs_id_result_def Let_def)

lemma on_docs_ids_good:
  assumes inv: "Inv w" and p: "w_ops w p = Some x"
  shows "frees p w (iroh_on_docs_author_created env js p state w)"
    and "frees p w (iroh_on_docs_doc_created env js p state w)"
    and "frees p w (iroh_on_docs_joined env js p state w)"
    and "frees p w (iroh_on_docs_ticket_created env js p state w)"
proof -
  note R = Inv_RInv[OF inv]
  show "frees p w (iroh_on_docs_author_created env js p state w)"
    unfolding iroh_on_docs_author_created_def by (rule docs_id_result_good[OF inv p]) (rule gets_tmps(3)[OF R])
  show "frees p w (iroh_on_docs_doc_created env js p state w)"
    unfolding iroh_on_docs_doc_created_def by (rule docs_id_result_good[OF inv p]) (rule gets_tmps(4)[OF R])
  show "frees p w (iroh_on_docs_joined env js p state w)"
    unfolding iroh_on_docs_joined_def by (rule docs_id_result_good[OF inv p]) (rule gets_tmps(5)[OF R])
  show "frees p w (iroh_on_docs_ticket_created env js p state w)"
    using oneshot_id[where get = iroh_docs_create_ticket_result and k = TDocTicket and i = "aop_aux x"
        and what = "''docs.createTicket''", OF inv p gets_tmps(6)[OF R]] fail_op_good[OF inv p] p
    by (simp add: iroh_on_docs_ticket_created_def Let_def)
qed

lemma on_docs_get_all_good:
  assumes inv: "Inv w" and p: "w_ops w p = Some x"
  shows "frees p w (iroh_on_docs_get_all_done env js p state w)"
proof -
  let ?a = "aop_ictx x"
  obtain ty h where h: "open_at w ?a ty" "aop_handle x = Some h" "handle_live (w_rust w) h"
    using op_facts[OF inv p] .
  have call: "good u (bnd (iroh_prep_cb ?a (aop_aux x) u) (\<lambda>(cb, w). case cb of None \<Rightarrow> Inr w
       | Some f \<Rightarrow> (let (ob, w) = new_obj (empty_obj\<lparr>o_props := pairs_props ps\<rparr>) w in
            pcall_cb js ''docs.getAll'' f [JObj ob] w)))" if u: "Inv u" "open_at u ?a ty" for u ps
  proof -
    obtain c where c: "w_ctxs u ?a = Some c" using u(2) by (auto simp: open_at_def)
    obtain cb u1 where u1: "iroh_prep_cb ?a (aop_aux x) u = Inr (cb, u1)" "view u1 = view u"
      "\<forall>f. cb = Some f \<longrightarrow> w_objs u (thisptr c) \<noteq> None \<and> snd f = thisptr c" using prep_cb_view[OF c] .
    note s1 = inert_step[OF u1(2) u(1)]
    obtain ob u2 where n: "new_obj (empty_obj\<lparr>o_props := pairs_props ps\<rparr>) u1 = (ob, u2)" by force
    have s2: "Inv u2" "ext u1 u2" "keeps u1 u2"
      using new_obj_step[OF _ _ n] s1 by (auto simp: empty_obj_def)
    have "good u1 (pcall_cb js ''docs.getAll'' f [JObj ob] u2)" if "cb = Some f" for f
    proof (rule good_ext[OF s2(2) pcall_good[OF s2(1)]])
      show "w_objs u2 (snd f) \<noteq> None" using u1(3) that s1 s2(3) unfolding keeps_def by metis
    qed
    then have "good u1 (case cb of None \<Rightarrow> Inr u1
       | Some f \<Rightarrow> (let (ob, w) = new_obj (empty_obj\<lparr>o_props := pairs_props ps\<rparr>) u1 in
            pcall_cb js ''docs.getAll'' f [JObj ob] w))"
      using s1 n by (auto split: option.splits)
    from good_view[OF u1(2) this] u1(1) show ?thesis by simp
  qed
  have "frees p w (bnd (in_rust w (\<lambda>r. iroh_docs_get_all_result r (aop_handle x))) (\<lambda>(ps, w).
       bnd (iroh_free_async_op p w) (\<lambda>w.
       bnd (iroh_prep_cb ?a (aop_aux x) w) (\<lambda>(cb, w).
       case cb of None \<Rightarrow> Inr w
       | Some f \<Rightarrow> (let (ob, w) = new_obj (empty_obj\<lparr>o_props := pairs_props ps\<rparr>) w in
            pcall_cb js ''docs.getAll'' f [JObj ob] w)))))"
    by (rule take_free_val[where get = "\<lambda>r. iroh_docs_get_all_result r (aop_handle x)", OF inv p])
      (use gets_values(6)[OF h(3)] h call in auto)
  with fail_op_good[OF inv p] p show ?thesis by (simp add: iroh_on_docs_get_all_done_def Let_def)
qed

lemma on_docs_values_good:
  assumes inv: "Inv w" and p: "w_ops w p = Some x"
  shows "frees p w (iroh_on_docs_set_done env js p state w)" and "frees p w (iroh_on_docs_delete_done env js p state w)"
    and "frees p w (iroh_on_docs_get_done env js p state w)" and "frees p w (iroh_on_docs_get_latest_done env js p state w)"
proof -
  show 1: "frees p w (iroh_on_docs_set_done env js p state w)"
    using oneshot_free[OF inv p] fail_op_good[OF inv p] p by (simp add: iroh_on_docs_set_done_def Let_def)
  then show "frees p w (iroh_on_docs_delete_done env js p state w)" by (simp add: iroh_on_docs_delete_done_def)
  show "frees p w (iroh_on_docs_get_done env js p state w)"
    using oneshot_val[where get = iroh_docs_get_result and i = "aop_aux x" and what = "''docs.get''"
        and args = "\<lambda>d. [bytes_val d]", OF inv p gets_values(1)] fail_op_good[OF inv p] p
    by (simp add: iroh_on_docs_get_done_def Let_def)
  show "frees p w (iroh_on_docs_get_latest_done env js p state w)"
    using oneshot_val[where get = iroh_docs_get_latest_result and i = "aop_aux x" and what = "''docs.getAttr''"
        and args = "\<lambda>d. [bytes_val d]", OF inv p gets_values(2)] fail_op_good[OF inv p] p
    by (simp add: iroh_on_docs_get_latest_done_def Let_def)
qed

section \<open>Dispatch\<close>

lemma dispatch_good:
  assumes inv: "Inv w" and p: "w_ops w p = Some x"
  shows "frees p w (iroh_dispatch_result env js p state w)"
  using p op_facts[OF inv p]
  by (cases "aop_op x")
    (auto simp: iroh_dispatch_result_def intro!: on_endpoint_created_good[OF inv p] on_endpoint_online_good[OF inv p]
      on_connection_accepted_good[OF inv p] on_connected_good[OF inv p] on_bi_opened_good[OF inv p]
      on_stream_accepted_good[OF inv p] on_stream_data_good[OF inv p] on_stream_written_good[OF inv p]
      on_datagram_received_good[OF inv p] on_gossip_created_good[OF inv p] on_gossip_subscribed_good[OF inv p]
      on_gossip_broadcast_good[OF inv p] on_gossip_recv_good[OF inv p] on_blobs_created_good[OF inv p]
      on_blobs_added_good[OF inv p] on_blobs_read_good[OF inv p] on_blobs_downloaded_good[OF inv p]
      on_docs_created_good[OF inv p] on_docs_ids_good[OF inv p] on_docs_values_good[OF inv p]
      on_docs_get_all_good[OF inv p])

lemma async_cb_good:
  assumes inv: "Inv w" and p: "w_ops w p = Some x"
  shows "good w (iroh_async_cb env js p w)"
proof -
  obtain h where h: "aop_handle x = Some h" "handle_live (w_rust w) h" using op_facts[OF inv p] by metis
  obtain st where "iroh_async_poll (w_rust w) (Some h) = Inr st"
    using get_handle_live[OF h(2)] by (auto simp: iroh_async_poll_def)
  with p h inv frees_good[OF dispatch_good[OF inv p]] show ?thesis by (simp add: iroh_async_cb_def)
qed

end

end
