(* ===== verification/ServiceMethods.thy ===== *)
theory ServiceMethods
  imports ServiceSafety
begin

text \<open>
  The constructors and methods of gossip, blobs and docs under the invariant, and \<open>close\<close> on
  blobs and docs. The short-lived ids a method parses are released on every path.
\<close>

section \<open>Constructors\<close>

lemma ready_endpoint_ok:
  assumes "Inv w"
  obtains x where "ready_endpoint w v = Inr x"
    and "\<forall>a e. x = Some (a, e) \<longrightarrow> open_at w a IROH_OBJ_ENDPOINT \<and> r_res (w_rust w) e = Some KEndpoint"
proof (cases "case v of JObj i \<Rightarrow> this_ictx w i | _ \<Rightarrow> None")
  case None
  then show ?thesis by (intro that[of None]) (simp_all add: ready_endpoint_def)
next
  case (Some a)
  then obtain i where "this_ictx w i = Some a" by (cases v) auto
  then obtain c where c: "w_ctxs w a = Some c" "open_at w a (obj_type c)" using this_ictx_open[OF assms] by metis
  show ?thesis
    by (rule that[of "if obj_type c \<noteq> IROH_OBJ_ENDPOINT then None else map_option (Pair a) (endpoint c)"])
      (use Some c Inv_res(1)[OF assms c(1)] in \<open>auto simp: ready_endpoint_def\<close>)
qed

lemma new_service_good:
  assumes inv: "Inv w" and i: "w_objs w this \<noteq> None" and ty: "ty \<in> op_tys op"
    and create: "\<And>e r. RInv r \<Longrightarrow> r_res r e = Some KEndpoint \<Longrightarrow> starts op r (create e r)"
  shows "goodp w (new_service env name ty op create ctor this a0 w)"
proof -
  obtain x where x: "ready_endpoint w a0 = Inr x"
    "\<forall>a e. x = Some (a, e) \<longrightarrow> open_at w a IROH_OBJ_ENDPOINT \<and> r_res (w_rust w) e = Some KEndpoint"
    using ready_endpoint_ok[OF inv] .
  let ?g = "put_prop this ''closed'' (JBool False)"
  let ?w0 = "?g (init_emitter this w)"
  let ?g' = "\<lambda>u. gc_protect this (w_this_id ?w0) (upd_obj this (\<lambda>ob. ob\<lparr>o_ep := Some a0\<rparr>) u)"
  have "goodp w (let (a, w) = new_ctx this ty (Some q) ?w0 in
      bnd (in_rust (?g' w) (create e)) (\<lambda>(h, w). case h of
         None \<Rightarrow> Inr (Throw (''new '' @ name @ '': failed to start creation''), w)
       | Some _ \<Rightarrow> bnd (iroh_start_async env a h op 0 w) (\<lambda>(_, w). Inr (Ret JUndefined, w))))"
    if q: "x = Some (q, e)" for q e
  proof -
    obtain a w1 where n: "new_ctx this ty (Some q) ?w0 = (a, w1)" by force
    have "\<exists>tq. open_at w q' tq \<and> stable tq" if "Some q = Some q'" for q'
      using x(2) q that by (intro exI[of _ IROH_OBJ_ENDPOINT]) simp
    from construct_step[where g = ?g and g' = ?g', OF inv i this _ _ n]
    have s: "Inv (?g' w1)" "ext w (?g' w1)" "open_at (?g' w1) a ty" "w_rust (?g' w1) = w_rust w"
      by (auto simp: view_upd_obj oview_def)
    have "starts op (w_rust (?g' w1)) (create e (w_rust (?g' w1)))"
      using x(2) q s by (intro create Inv_RInv) simp_all
    from goodp_ext[OF s(2) goodp_create[where f = "create e" and env = env
          and msg = "\<lambda>_. ''new '' @ name @ '': failed to start creation''", OF s(1,3) ty this]] n
    show ?thesis by simp
  qed
  then show ?thesis
    using inv x(1) by (auto simp: new_service_def Let_def split: option.splits)
qed

lemma services_good:
  assumes "Inv w" and "w_objs w this \<noteq> None"
  shows "goodp w (duk_rp_iroh_gossip env ctor this a0 w)" and "goodp w (duk_rp_iroh_blobs env ctor this a0 a1 w)"
    and "goodp w (duk_rp_iroh_docs env ctor this a0 a1 w)"
  unfolding duk_rp_iroh_gossip_def duk_rp_iroh_blobs_def duk_rp_iroh_docs_def
  by (rule new_service_good[OF assms]; auto split: option.splits intro!: ffi_starts)+

section \<open>Gossip\<close>

definition tmps_added :: "tkind \<Rightarrow> rid list \<Rightarrow> rust \<Rightarrow> rust \<Rightarrow> bool" where
  "tmps_added k xs r r' \<longleftrightarrow> rstep r r' \<and> distinct xs
     \<and> (\<forall>x \<in> set xs. r_next r \<le> x \<and> (\<exists>s. r_tmp r' x = Some (k, s)))
     \<and> (\<forall>x. x \<notin> set xs \<longrightarrow> r_tmp r' x = r_tmp r x)"

lemma parse_peers_added:
  "RInv r \<Longrightarrow> parse_peers env ss r = (xs, r') \<Longrightarrow> tmps_added TPublicKey xs r r'"
proof (induction ss arbitrary: r r' xs)
  case Nil
  then show ?case by (simp add: tmps_added_def)
next
  case (Cons s ss)
  obtain y r1 where y: "tmp_from_string env TPublicKey s r = (y, r1)" by force
  note t = tmp_added_from_string[OF Cons.prems(1) y]
  note R1 = rstep_RInv[OF tmp_added_rstepD[OF t] Cons.prems(1)]
  show ?case
  proof (cases y)
    case None
    with Cons.prems(2) y have "parse_peers env ss r1 = (xs, r')" by simp
    from Cons.IH[OF R1 this] t None show ?thesis
      unfolding tmps_added_def by (auto intro: rstep_trans dest: rstep_next order_trans)
  next
    case (Some n)
    obtain ys r2 where ys: "parse_peers env ss r1 = (ys, r2)" by force
    with Cons.prems(2) y Some have xs: "xs = n # ys" "r' = r2" by auto
    have n: "r_next r \<le> n" "n < r_next r1" "\<exists>v. r_tmp r1 = (r_tmp r)(n \<mapsto> (TPublicKey, v))"
      using t Some RInv_fresh(3)[OF R1, of n] by (auto simp: tmp_added_def linorder_not_le[symmetric])
    note IH = Cons.IH[OF R1 ys]
    have "n \<notin> set ys" using IH n(2) by (auto simp: tmps_added_def)
    with IH n t show ?thesis
      unfolding tmps_added_def xs by (auto intro: rstep_trans tmp_added_rstepD dest: rstep_next)
  qed
qed

lemma free_tmps_ok:
  assumes "distinct xs" and "\<forall>x \<in> set xs. \<exists>s. r_tmp r x = Some (k, s)"
  shows "free_tmps k xs r = Inr (r\<lparr>r_tmp := r_tmp r |` (- set xs)\<rparr>)"
  using assms
proof (induction xs arbitrary: r)
  case (Cons x xs)
  then obtain s where "r_tmp r x = Some (k, s)" by auto
  then have "tmp_free k (Some x) r = Inr (r\<lparr>r_tmp := (r_tmp r)(x := None)\<rparr>)" by (simp add: tmp_free_def)
  then have "free_tmps k (x # xs) r = free_tmps k xs (r\<lparr>r_tmp := (r_tmp r)(x := None)\<rparr>)" by simp
  also have "\<dots> = Inr (r\<lparr>r_tmp := (r_tmp r)(x := None)\<rparr>
      \<lparr>r_tmp := r_tmp (r\<lparr>r_tmp := (r_tmp r)(x := None)\<rparr>) |` (- set xs)\<rparr>)"
    using Cons.prems by (intro Cons.IH) auto
  also have "\<dots> = Inr (r\<lparr>r_tmp := ((r_tmp r)(x := None)) |` (- set xs)\<rparr>)"
    by simp
  also have "((r_tmp r)(x := None)) |` (- set xs) = r_tmp r |` (- set (x # xs))"
    by (auto simp: restrict_map_def fun_eq_iff)
  finally show ?case .
qed (simp add: restrict_map_def)

text \<open>A first short-lived object and a list of further ones, released in that order.\<close>

lemma releases_tmps:
  assumes R: "RInv r0" and t: "tmp_added k (Some t) r0 r1" and xs: "tmps_added l xs r1 r2"
  shows "releases r0 r2 (\<lambda>w. bnd (in_rust' w (tmp_free k (Some t))) (\<lambda>w. in_rust' w (free_tmps l xs)))"
  unfolding releases_def
proof (intro allI impI)
  fix w :: world
  assume w: "r_tmp (w_rust w) = r_tmp r2"
  obtain v where v: "r_tmp r1 = (r_tmp r0)(t \<mapsto> (k, v))" "r_next r0 \<le> t" using t by (auto simp: tmp_added_def)
  have "t < r_next r1"
    using RInv_fresh(3)[OF rstep_RInv[OF tmp_added_rstepD[OF t] R], of t] v by (auto simp: linorder_not_le[symmetric])
  then have nt: "t \<notin> set xs" using xs by (auto simp: tmps_added_def)
  then have "r_tmp (w_rust w) t = Some (k, v)" using xs v w by (simp add: tmps_added_def)
  then have 1: "in_rust' w (tmp_free k (Some t)) = Inr (w\<lparr>w_rust := (w_rust w)\<lparr>r_tmp := (r_tmp r2)(t := None)\<rparr>\<rparr>)"
    using w by (simp add: in_rust'_def tmp_free_def)
  have "((r_tmp r2)(t := None)) |` (- set xs) = r_tmp r0"
  proof
    fix x
    have "r_tmp r0 x = None" if "x = t \<or> x \<in> set xs"
      using that v(2) xs RInv_fresh(3)[OF R, of x] rstep_next[OF tmp_added_rstepD[OF t]] by (auto simp: tmps_added_def)
    with v(1) xs show "((r_tmp r2)(t := None) |` (- set xs)) x = r_tmp r0 x"
      by (auto simp: tmps_added_def restrict_map_def)
  qed
  moreover have "free_tmps l xs ((w_rust w)\<lparr>r_tmp := (r_tmp r2)(t := None)\<rparr>) =
      Inr ((w_rust w)\<lparr>r_tmp := ((r_tmp r2)(t := None)) |` (- set xs)\<rparr>)"
    using xs nt by (subst free_tmps_ok) (auto simp: tmps_added_def)
  ultimately show "bnd (in_rust' w (tmp_free k (Some t))) (\<lambda>w. in_rust' w (free_tmps l xs))
      = Inr (w\<lparr>w_rust := (w_rust w)\<lparr>r_tmp := r_tmp r0\<rparr>\<rparr>)"
    unfolding 1 by (simp add: in_rust'_def)
qed

lemma new_topic_rust:
  "new_topic a (w\<lparr>w_rust := r\<rparr>) = (case new_topic a w of (x, w') \<Rightarrow> (x, w'\<lparr>w_rust := r\<rparr>))"
  by (auto simp: new_topic_def new_obj_def init_emitter_def put_prop_def upd_obj_def new_ctx_def put_ctx_def
      gc_protect_def iroh_put_gs_object_def Let_def split: option.splits gsval.splits)

lemma new_topic_step:
  assumes inv: "Inv w" and a: "open_at w a ty" "stable ty" and n: "new_topic a w = ((topic, ta), w')"
  shows "Inv w' \<and> ext w w' \<and> keeps w w' \<and> open_at w' ta IROH_OBJ_GOSSIP_TOPIC \<and> w_rust w' = w_rust w"
proof -
  obtain this w1 where o: "new_obj empty_obj w = (this, w1)" by force
  let ?g = "put_prop this ''closed'' (JBool False)"
  obtain b w2 where m: "new_ctx this IROH_OBJ_GOSSIP_TOPIC (Some a) (?g (init_emitter this w1)) = (b, w2)" by force
  have w': "topic = this" "ta = b" "w' = gc_protect this (w_this_id (?g (init_emitter this w1))) w2"
    using n o m by (auto simp: new_topic_def Let_def)
  have s: "Inv w2" "ext w w2" "keeps w w2" "open_at w2 b IROH_OBJ_GOSSIP_TOPIC" "w_rust w2 = w_rust w"
    using fresh_context[where g = ?g, OF inv _ o _ m] a by auto
  have v: "view w' = view w2" by (simp add: w')
  note i = inert_step[OF v s(1)]
  show ?thesis using i s w'(2) by (auto simp: open_at_view[OF v] intro: ext_trans keeps_trans)
qed

lemma scoped_plain:
  assumes "Inv w" and "open_at w a ty" and "ty \<in> op_tys op" and "rstep (w_rust w) r"
    and "starts op r (start r)" and "releases (w_rust w) r fr"
  shows "goodp w (bnd (in_rust (w\<lparr>w_rust := r\<rparr>) start) (\<lambda>(h, w).
     bnd (fr w) (\<lambda>w. start_or_throw env this a op 0 msg (h, w))))"
  using scoped_call[where start = start and cb = JUndefined and env = env and this = this and msg = msg and fr = fr,
      OF assms] by (simp add: opt_cb_def)

lemma gossip_subscribe_good:
  assumes inv: "Inv w"
  shows "goodp w (duk_rp_iroh_gossip_subscribe env this a0 a1 w)"
  unfolding duk_rp_iroh_gossip_subscribe_def
proof (rule goodp_method[OF inv])
  fix a c g
  assume a: "w_ctxs w a = Some c" "open_at w a (obj_type c)" "gossip_p c = Some g"
  note g = Inv_res(5)[OF inv a(1,3)]
  let ?body = "\<lambda>name. case iroh_topic_id_from_name env name (w_rust w) of
            (None, r) \<Rightarrow> Inr (Throw ''gossip.subscribe: invalid topic name'', w\<lparr>w_rust := r\<rparr>)
          | (Some t, r) \<Rightarrow>
              (let (peers, r) = (case array_of w a1 of None \<Rightarrow> ([], r)
                                 | Some vs \<Rightarrow> parse_peers env (str_elems vs) r);
                   ((topic, ta), w) = new_topic a (w\<lparr>w_rust := r\<rparr>) in
               bnd (in_rust w (\<lambda>r. iroh_gossip_subscribe env r (Some g) (Some t) peers)) (\<lambda>(h, w).
               bnd (in_rust' w (tmp_free TTopicId (Some t))) (\<lambda>w.
               bnd (in_rust' w (free_tmps TPublicKey peers)) (\<lambda>w.
                 start_or_throw env topic ta IROH_OP_GOSSIP_SUBSCRIBE 0
                   ''gossip.subscribe: failed to start'' (h, w)))))"
  have "goodp w (?body name)" for name
  proof -
    obtain t r1 where t: "iroh_topic_id_from_name env name (w_rust w) = (Some t, r1)"
      by (simp add: iroh_topic_id_from_name_def tmp_into_raw_def)
    note T = tmp_added_topic_id[OF Inv_RInv[OF inv] t]
    note R1 = rstep_RInv[OF tmp_added_rstepD[OF T] Inv_RInv[OF inv]]
    obtain peers r2 where p: "(case array_of w a1 of None \<Rightarrow> ([], r1)
        | Some vs \<Rightarrow> parse_peers env (str_elems vs) r1) = (peers, r2)" by force
    have P: "tmps_added TPublicKey peers r1 r2"
      using p parse_peers_added[OF R1] by (auto simp: tmps_added_def split: option.splits)
    have r2: "rstep (w_rust w) r2" using P rstep_trans[OF tmp_added_rstepD[OF T]] by (simp add: tmps_added_def)
    obtain topic ta w' where n: "new_topic a w = ((topic, ta), w')" by (metis surj_pair)
    have s: "Inv w'" "ext w w'" "open_at w' ta IROH_OBJ_GOSSIP_TOPIC" "w_rust w' = w_rust w"
      using new_topic_step[OF inv a(2) _ n] g by auto
    obtain v where v: "r_tmp r1 = (r_tmp (w_rust w))(t \<mapsto> (TTopicId, v))" using T by (auto simp: tmp_added_def)
    have "t < r_next r1" using RInv_fresh(3)[OF R1, of t] v by (auto simp: linorder_not_le[symmetric])
    then have "t \<notin> set peers" using P by (auto simp: tmps_added_def)
    then have "r_tmp r2 t = Some (TTopicId, v)" using P v by (simp add: tmps_added_def)
    then have "starts IROH_OP_GOSSIP_SUBSCRIBE r2 (iroh_gossip_subscribe env r2 (Some g) (Some t) peers)"
      using g r2 P by (intro ffi_starts) (auto dest: rstep_res intro: rstep_RInv[OF _ Inv_RInv[OF inv]] simp: tmps_added_def)
    from scoped_plain[where start = "\<lambda>r. iroh_gossip_subscribe env r (Some g) (Some t) peers"
        and env = env and this = topic and op = IROH_OP_GOSSIP_SUBSCRIBE and msg = "''gossip.subscribe: failed to start''"
        and fr = "\<lambda>w. bnd (in_rust' w (tmp_free TTopicId (Some t))) (\<lambda>w. in_rust' w (free_tmps TPublicKey peers))",
        OF s(1,3) _ _ this] releases_tmps[OF Inv_RInv[OF inv] T P] r2 s(4)
    have "goodp w' (bnd (in_rust (w'\<lparr>w_rust := r2\<rparr>) (\<lambda>r. iroh_gossip_subscribe env r (Some g) (Some t) peers)) (\<lambda>(h, w).
        bnd (in_rust' w (tmp_free TTopicId (Some t))) (\<lambda>w.
        bnd (in_rust' w (free_tmps TPublicKey peers)) (\<lambda>w.
          start_or_throw env topic ta IROH_OP_GOSSIP_SUBSCRIBE 0 ''gossip.subscribe: failed to start'' (h, w)))))"
      by (simp add: bnd_assoc)
    from goodp_ext[OF s(2) this] t p n show ?thesis by (simp add: new_topic_rust)
  qed
  then show "goodp w (case require_string a0 of
       None \<Rightarrow> Inr (Throw ''gossip.subscribe: first arg must be a string (topic name)'', w)
     | Some name \<Rightarrow> ?body name)" using inv by (auto split: option.splits)
qed

lemma topic_broadcast_good:
  assumes inv: "Inv w"
  shows "goodp w (duk_rp_iroh_topic_broadcast env this a0 w)"
  unfolding duk_rp_iroh_topic_broadcast_def
proof (rule goodp_method[OF inv])
  fix a c t
  assume a: "w_ctxs w a = Some c" "open_at w a (obj_type c)" "topic_handle c = Some t"
  note t = Inv_res(6)[OF inv a(1,3)]
  have "goodp w (bnd (in_rust w (\<lambda>r. iroh_gossip_broadcast env r (Some t) data))
      (start_or_throw env this a IROH_OP_GOSSIP_BROADCAST 0 ''topic.broadcast: failed''))" for data
    by (rule goodp_call(1)[where f = "\<lambda>r. iroh_gossip_broadcast env r (Some t) data", OF inv a(2)])
      (use t in \<open>auto intro!: ffi_starts Inv_RInv[OF inv]\<close>)
  then show "goodp w (case data_arg a0 of
       None \<Rightarrow> Inr (Throw ''topic.broadcast: arg must be a string or buffer'', w)
     | Some data \<Rightarrow> bnd (in_rust w (\<lambda>r. iroh_gossip_broadcast env r (Some t) data))
           (start_or_throw env this a IROH_OP_GOSSIP_BROADCAST 0 ''topic.broadcast: failed''))"
    using inv by (auto split: option.splits)
qed

section \<open>Calls with one parsed id\<close>

lemma one_id_call:
  assumes inv: "Inv w" and a: "open_at w a ty" "ty \<in> op_tys op" and x: "tmp_added k (Some x) (w_rust w) r"
    and st: "starts op r (start r)"
  shows "goodp w (bnd (opt_cb a cb (w\<lparr>w_rust := r\<rparr>)) (\<lambda>(aux, w). bnd (in_rust w start) (\<lambda>(h, w).
     bnd (in_rust' w (tmp_free k (Some x))) (\<lambda>w. start_or_throw env this a op aux msg (h, w)))))"
  by (rule scoped_call[where start = start and fr = "\<lambda>w. in_rust' w (tmp_free k (Some x))", OF inv a
        tmp_added_rstepD[OF x] st releases_tmp_free[OF Inv_RInv[OF inv] x]])

lemma one_id_throw:
  assumes inv: "Inv w" and x: "tmp_added k (Some x) (w_rust w) r"
  shows "goodp w (bnd (in_rust' (w\<lparr>w_rust := r\<rparr>) (tmp_free k (Some x))) (\<lambda>w. Inr (res, w)))"
  by (rule scoped_throw[where fr = "\<lambda>w. in_rust' w (tmp_free k (Some x))", OF inv
        tmp_added_rstepD[OF x] releases_tmp_free[OF Inv_RInv[OF inv] x]])

lemma goodp_parse:
  assumes inv: "Inv w"
    and k: "\<And>x r. tmp_added k (Some x) (w_rust w) r \<Longrightarrow> RInv r \<Longrightarrow> \<exists>s. r_tmp r x = Some (k, s) \<Longrightarrow>
      rstep (w_rust w) r \<Longrightarrow> goodp w (cont x r)"
  shows "goodp w (case tmp_from_string env k str (w_rust w) of
       (None, r) \<Rightarrow> Inr (Throw msg, w\<lparr>w_rust := r\<rparr>) | (Some x, r) \<Rightarrow> cont x r)"
proof (cases "tmp_from_string env k str (w_rust w)")
  case (Pair y r)
  note t = tmp_added_from_string[OF Inv_RInv[OF inv] Pair]
  note R = rstep_RInv[OF tmp_added_rstepD[OF t] Inv_RInv[OF inv]]
  show ?thesis
  proof (cases y)
    case None
    with Pair t goodp_parse_failed[OF inv] show ?thesis by simp
  next
    case (Some x)
    then have "\<exists>s. r_tmp r x = Some (k, s)" using t by (auto simp: tmp_added_def)
    with k[of x r] Pair t R Some tmp_added_rstepD[OF t] show ?thesis by simp
  qed
qed

lemma opt_cb_call:
  assumes inv: "Inv w" and a: "open_at w a ty" "ty \<in> op_tys op" and f: "starts op (w_rust w) (f (w_rust w))"
  shows "goodp w (bnd (opt_cb a cb w) (\<lambda>(aux, w). bnd (in_rust w f) (start_or_throw env this a op aux msg)))"
proof -
  obtain c where "w_ctxs w a = Some c" using a(1) by (auto simp: open_at_def)
  then obtain i w' where w': "opt_cb a cb w = Inr (i, w')" "view w' = view w" by (rule opt_cb_view)
  have "Inv w'" "open_at w' a ty" "w_rust w' = w_rust w"
    using view_Inv[OF w'(2)] open_at_view[OF w'(2)] view_rustD[OF w'(2)] inv a(1) by simp_all
  from goodp_call(1)[where f = f and env = env and this = this and aux = i and msg = msg, OF this(1,2) a(2)] f this(3)
  have "goodp w' (bnd (in_rust w' f) (start_or_throw env this a op i msg))" by simp
  then show ?thesis using w' goodp_view[OF w'(2)] by simp
qed

section \<open>Blobs\<close>

lemma blobs_add_good:
  assumes inv: "Inv w"
  shows "goodp w (duk_rp_iroh_blobs_add_bytes env this a0 a1 w)"
    and "goodp w (duk_rp_iroh_blobs_add_file env this a0 a1 w)"
proof -
  have "goodp w (bnd (opt_cb a a1 w) (\<lambda>(aux, w). bnd (in_rust w (\<lambda>r. iroh_blobs_add_bytes env r (Some s) d))
        (start_or_throw env this a IROH_OP_BLOBS_ADD_BYTES aux ''blobs.addBytes: failed'')))"
    and "goodp w (bnd (opt_cb a a1 w) (\<lambda>(aux, w). bnd (in_rust w (\<lambda>r. iroh_blobs_add_file env r (Some s) p))
        (start_or_throw env this a IROH_OP_BLOBS_ADD_FILE aux ''blobs.addFile: failed'')))"
    if "w_ctxs w a = Some c" "open_at w a (obj_type c)" "blob_store c = Some s" for a c s d p
    using Inv_res(7)[OF inv that(1,3)] that(2) Inv_RInv[OF inv]
    by (auto intro!: opt_cb_call[where f = "\<lambda>r. iroh_blobs_add_bytes env r (Some s) d", OF inv that(2)]
        opt_cb_call[where f = "\<lambda>r. iroh_blobs_add_file env r (Some s) p", OF inv that(2)] starts_blob_ops)
  then show "goodp w (duk_rp_iroh_blobs_add_bytes env this a0 a1 w)"
    and "goodp w (duk_rp_iroh_blobs_add_file env this a0 a1 w)"
    unfolding duk_rp_iroh_blobs_add_bytes_def duk_rp_iroh_blobs_add_file_def using inv
    by (auto intro!: goodp_method[OF inv] split: option.splits)
qed

lemma blobs_read_good:
  assumes inv: "Inv w"
  shows "goodp w (duk_rp_iroh_blobs_read env this a0 a1 w)"
  unfolding duk_rp_iroh_blobs_read_def
proof (rule goodp_method[OF inv])
  fix a c s
  assume a: "w_ctxs w a = Some c" "open_at w a (obj_type c)" "blob_store c = Some s"
  note s = Inv_res(7)[OF inv a(1,3)]
  have "goodp w (case tmp_from_string env TBlobHash str (w_rust w) of
            (None, r) \<Rightarrow> Inr (Throw ''blobs.read: invalid hash'', w\<lparr>w_rust := r\<rparr>)
          | (Some x, r) \<Rightarrow>
              bnd (opt_cb a a1 (w\<lparr>w_rust := r\<rparr>)) (\<lambda>(aux, w).
              bnd (in_rust w (\<lambda>r. iroh_blobs_read env r (Some s) (Some x))) (\<lambda>(h, w).
              bnd (in_rust' w (tmp_free TBlobHash (Some x))) (\<lambda>w.
                start_or_throw env this a IROH_OP_BLOBS_READ aux ''blobs.read: failed'' (h, w)))))" for str
  proof (rule goodp_parse[OF inv], goal_cases)
    case (1 x r)
    then show ?case
      using s by (intro one_id_call[where start = "\<lambda>r. iroh_blobs_read env r (Some s) (Some x)", OF inv a(2)])
        (auto intro: starts_blob_ops dest: rstep_res)
  qed
  then show "goodp w (case require_string a0 of
       None \<Rightarrow> Inr (Throw ''blobs.read: first arg must be a string (hash)'', w)
     | Some hash_str \<Rightarrow> (case tmp_from_string env TBlobHash hash_str (w_rust w) of
            (None, r) \<Rightarrow> Inr (Throw ''blobs.read: invalid hash'', w\<lparr>w_rust := r\<rparr>)
          | (Some x, r) \<Rightarrow>
              bnd (opt_cb a a1 (w\<lparr>w_rust := r\<rparr>)) (\<lambda>(aux, w).
              bnd (in_rust w (\<lambda>r. iroh_blobs_read env r (Some s) (Some x))) (\<lambda>(h, w).
              bnd (in_rust' w (tmp_free TBlobHash (Some x))) (\<lambda>w.
                start_or_throw env this a IROH_OP_BLOBS_READ aux ''blobs.read: failed'' (h, w))))))"
    using inv by (simp split: option.split)
qed

text \<open>The parent's endpoint is looked up after the id has been parsed.\<close>

lemma parent_endpoint_rust [simp]: "parent_endpoint a (w\<lparr>w_rust := r\<rparr>) = parent_endpoint a w"
  by (simp add: parent_endpoint_def get_ctx_def cong: option.case_cong)

lemma blobs_download_good:
  assumes inv: "Inv w"
  shows "goodp w (duk_rp_iroh_blobs_download env this a0 a1 w)"
  unfolding duk_rp_iroh_blobs_download_def
proof (rule goodp_method[OF inv])
  fix a c b
  assume a: "w_ctxs w a = Some c" "open_at w a (obj_type c)" "blobs_proto c = Some b"
  note b = Inv_res(8)[OF inv a(1,3)]
  obtain ep where ep: "parent_endpoint a w = Inr ep" "\<forall>e. ep = Some e \<longrightarrow> r_res (w_rust w) e = Some KEndpoint"
    using parent_endpoint_ok[OF inv a(2)] .
  let ?body = "\<lambda>str. case tmp_from_string env TBlobTicket str (w_rust w) of
            (None, r) \<Rightarrow> Inr (Throw ''blobs.download: invalid ticket'', w\<lparr>w_rust := r\<rparr>)
          | (Some t, r) \<Rightarrow>
              (let w = w\<lparr>w_rust := r\<rparr> in
               bnd (parent_endpoint a w) (\<lambda>ep.
               if ep = None then
                 bnd (in_rust' w (tmp_free TBlobTicket (Some t))) (\<lambda>w.
                   Inr (Throw ''blobs.download: endpoint not available'', w))
               else
                 bnd (opt_cb a a1 w) (\<lambda>(aux, w).
                 bnd (in_rust w (\<lambda>r. iroh_blobs_download env r (Some b) ep (Some t))) (\<lambda>(h, w).
                 bnd (in_rust' w (tmp_free TBlobTicket (Some t))) (\<lambda>w.
                   start_or_throw env this a IROH_OP_BLOBS_DOWNLOAD aux ''blobs.download: failed'' (h, w))))))"
  have "goodp w (?body str)" for str
  proof (rule goodp_parse[OF inv], goal_cases)
    case (1 t r)
    then have "starts IROH_OP_BLOBS_DOWNLOAD r (iroh_blobs_download env r (Some b) ep (Some t))"
      using b ep(2) by (auto intro!: starts_blobs_download dest: rstep_res)
    from one_id_call[where start = "\<lambda>r. iroh_blobs_download env r (Some b) ep (Some t)" and cb = a1 and env = env
        and this = this and msg = "''blobs.download: failed''" and op = IROH_OP_BLOBS_DOWNLOAD, OF inv a(2) _ 1(1) this]
      one_id_throw[OF inv 1(1)] b ep(1)
    show ?case by (cases ep) (simp_all add: Let_def)
  qed
  then show "goodp w (case require_string a0 of
       None \<Rightarrow> Inr (Throw ''blobs.download: first arg must be a string (ticket)'', w)
     | Some str \<Rightarrow> ?body str)" using inv by (simp split: option.split)
qed

text \<open>Releasing the first of two short-lived objects leaves the second one.\<close>

lemma swap_tmps:
  assumes R: "RInv r0" and x: "tmp_added k (Some x) r0 r1" and y: "tmp_added l y r1 r2"
  obtains r3 where "tmp_free k (Some x) r2 = Inr r3" and "tmp_added l y r0 r3"
proof -
  obtain v where v: "r_tmp r1 = (r_tmp r0)(x \<mapsto> (k, v))" "r_next r0 \<le> x" using x by (auto simp: tmp_added_def)
  have R1: "RInv r1" by (rule rstep_RInv[OF tmp_added_rstepD[OF x] R])
  have "x < r_next r1" using RInv_fresh(3)[OF R1, of x] v by (auto simp: linorder_not_le[symmetric])
  then have ne: "\<forall>n. y = Some n \<longrightarrow> n \<noteq> x" using y by (auto simp: tmp_added_def)
  let ?r = "r2\<lparr>r_tmp := (r_tmp r2)(x := None)\<rparr>"
  have "tmp_free k (Some x) r2 = Inr ?r"
    using v y ne by (cases y) (auto simp: tmp_free_def tmp_added_def)
  moreover have "rstep r2 ?r" by (auto simp: rstep_def handle_live_def works_on_def RInv_def rfresh_def tasks_ok_def)
  moreover have "(r_tmp r1)(x := None) = r_tmp r0" using v RInv_fresh(3)[OF R, of x] by auto
  then have "case y of None \<Rightarrow> r_tmp ?r = r_tmp r0
      | Some n \<Rightarrow> r_next r0 \<le> n \<and> (\<exists>s. r_tmp ?r = (r_tmp r0)(n \<mapsto> (l, s)))"
    using y ne rstep_next[OF tmp_added_rstepD[OF x]]
    by (cases y) (auto simp: tmp_added_def fun_upd_twist)
  ultimately show ?thesis
    using rstep_trans[OF rstep_trans[OF tmp_added_rstepD[OF x] tmp_added_rstepD[OF y]]]
    by (intro that[of ?r]) (simp_all add: tmp_added_def)
qed

lemma blobs_ticket_good:
  assumes inv: "Inv w"
  shows "goodp w (duk_rp_iroh_blobs_ticket env this a0 w)"
  unfolding duk_rp_iroh_blobs_ticket_def
proof (rule goodp_GET_ICTX[OF inv])
  fix a c
  assume a: "w_ctxs w a = Some c" "open_at w a (obj_type c)"
  obtain ep where ep: "parent_endpoint a w = Inr ep" "\<forall>e. ep = Some e \<longrightarrow> r_res (w_rust w) e = Some KEndpoint"
    using parent_endpoint_ok[OF inv a(2)] .
  let ?body = "\<lambda>str. case tmp_from_string env TBlobHash str (w_rust w) of
            (None, r) \<Rightarrow> Inr (Throw ''blobs.createTicket: invalid hash'', w\<lparr>w_rust := r\<rparr>)
          | (Some x, r) \<Rightarrow>
              (let w = w\<lparr>w_rust := r\<rparr> in
               bnd (parent_endpoint a w) (\<lambda>ep.
               if ep = None then
                 bnd (in_rust' w (tmp_free TBlobHash (Some x))) (\<lambda>w.
                   Inr (Throw ''blobs.createTicket: endpoint not available'', w))
               else
                 bnd (in_rust w (\<lambda>r. iroh_blobs_create_ticket env r ep (Some x))) (\<lambda>(t, w).
                 bnd (in_rust' w (tmp_free TBlobHash (Some x))) (\<lambda>w.
                   if t = None then Inr (Ret JNull, w) else show_id TBlobTicket t w))))"
  have "goodp w (?body str)" for str
  proof (rule goodp_parse[OF inv], goal_cases)
    case (1 x r)
    obtain hs where hs: "r_tmp r x = Some (TBlobHash, hs)" using 1(3) by auto
    have "safe (iroh_blobs_create_ticket env r ep (Some x)) (\<lambda>(t, r'). tmp_added TBlobTicket t r r')"
      by (rule gets_endpoint_info(4)[OF 1(2) _ hs]) (use ep(2) 1(4) in \<open>auto dest: rstep_res\<close>)
    then obtain t r2 where t: "iroh_blobs_create_ticket env r ep (Some x) = Inr (t, r2)" "tmp_added TBlobTicket t r r2"
      using hs ep(2) 1(4) by (auto simp: iroh_blobs_create_ticket_def deref_res_def tmp_val_def dest: rstep_res
          split: option.splits prod.splits)
    have "goodp w (bnd (in_rust' (w\<lparr>w_rust := r2\<rparr>) (tmp_free TBlobHash (Some x))) (\<lambda>w.
        if t = None then Inr (Ret JNull, w) else show_id TBlobTicket t w))"
    proof (rule swap_tmps[OF Inv_RInv[OF inv] 1(1) t(2)])
      fix r3
      assume r3: "tmp_free TBlobHash (Some x) r2 = Inr r3" "tmp_added TBlobTicket t (w_rust w) r3"
      from goodp_show_id[OF inv r3(2)] goodp_parse_failed[OF inv, of TBlobTicket r3] r3
      show ?thesis by (cases t) (simp_all add: in_rust'_def)
    qed
    with one_id_throw[OF inv 1(1)] t(1) ep(1) show ?case by (cases ep) (simp_all add: in_rust_def Let_def)
  qed
  then show "goodp w (case require_string a0 of
       None \<Rightarrow> Inr (Throw ''blobs.createTicket: first arg must be a string (hash)'', w)
     | Some str \<Rightarrow> ?body str)" using inv by (simp split: option.split)
qed

end
