(* ===== verification/DocsMethods.thy ===== *)
theory DocsMethods
  imports ServiceMethods
begin

text \<open>
  The methods of docs under the invariant, and \<open>close\<close> on blobs and docs. The namespace and
  author ids a call parses are released on every path, those that throw included.
\<close>

section \<open>Two parsed ids\<close>

lemma releases_ns_author:
  assumes R: "RInv r0" and n: "tmp_added TNamespaceId (Some ns) r0 r1" and a: "tmp_added TAuthorId (Some au) r1 r2"
  shows "releases r0 r2 (free_ns_author ns au)"
proof -
  have "tmps_added TAuthorId [au] r1 r2" using a by (auto simp: tmps_added_def tmp_added_def)
  moreover have "free_tmps TAuthorId [au] = tmp_free TAuthorId (Some au)"
    by (rule ext) (simp add: bnd_def split: sum.split)
  ultimately show ?thesis using releases_tmps[OF R n, of TAuthorId "[au]" r2] by (simp add: releases_def free_ns_author_def)
qed

definition two_ids :: "world \<Rightarrow> rid \<Rightarrow> rid \<Rightarrow> rust \<Rightarrow> bool" where
  "two_ids w ns au r \<longleftrightarrow> releases (w_rust w) r (free_ns_author ns au) \<and> rstep (w_rust w) r
     \<and> (\<exists>s. r_tmp r ns = Some (TNamespaceId, s)) \<and> (\<exists>s. r_tmp r au = Some (TAuthorId, s))"

lemma goodp_with_ns:
  assumes inv: "Inv w"
    and k: "\<And>x r. tmp_added TNamespaceId (Some x) (w_rust w) r \<Longrightarrow> RInv r \<Longrightarrow>
      \<exists>s. r_tmp r x = Some (TNamespaceId, s) \<Longrightarrow> rstep (w_rust w) r \<Longrightarrow> goodp w (k x (w\<lparr>w_rust := r\<rparr>))"
  shows "goodp w (with_ns env name str w k)"
  unfolding with_ns_def by (rule goodp_parse[OF inv k])

lemma goodp_with_ns_author:
  assumes inv: "Inv w" and k: "\<And>ns au r. two_ids w ns au r \<Longrightarrow> goodp w (k ns au (w\<lparr>w_rust := r\<rparr>))"
  shows "goodp w (with_ns_author env name s1 s2 w k)"
  unfolding with_ns_author_def
proof (rule goodp_with_ns[OF inv], goal_cases)
  case (1 ns r1)
  obtain y r2 where y: "tmp_from_string env TAuthorId s2 r1 = (y, r2)" by force
  note t = tmp_added_from_string[OF 1(2) y]
  note R2 = rstep_trans[OF 1(4) tmp_added_rstepD[OF t]]
  show ?case
  proof (cases y)
    case None
    have "releases (w_rust w) r2 (\<lambda>w. in_rust' w (tmp_free TNamespaceId (Some ns)))"
      using releases_tmp_free[OF Inv_RInv[OF inv] 1(1)] t None by (simp add: releases_def)
    from scoped_throw[where fr = "\<lambda>w. in_rust' w (tmp_free TNamespaceId (Some ns))", OF inv R2 this] y None
    show ?thesis by simp
  next
    case (Some au)
    obtain v where v: "r_tmp r1 ns = Some (TNamespaceId, v)" using 1(3) by auto
    then have "ns < r_next r1" using RInv_fresh(3)[OF 1(2), of ns] by (auto simp: linorder_not_le[symmetric])
    then have "r_tmp r2 ns = Some (TNamespaceId, v)" "\<exists>s. r_tmp r2 au = Some (TAuthorId, s)"
      using t Some v by (auto simp: tmp_added_def)
    then have "two_ids w ns au r2"
      using releases_ns_author[OF Inv_RInv[OF inv] 1(1) t[unfolded Some]] R2 by (simp add: two_ids_def)
    from k[OF this] y Some show ?thesis by simp
  qed
qed

lemma goodp_ns_author_call:
  assumes inv: "Inv w" and a: "open_at w a ty" "ty \<in> op_tys op" and t: "two_ids w ns au r" and st: "starts op r (start r)"
  shows "goodp w (ns_author_call env name op this a cb ns au start (w\<lparr>w_rust := r\<rparr>))"
  unfolding ns_author_call_def
  by (rule scoped_call[where start = start and fr = "free_ns_author ns au", OF inv a _ st]) (use t in \<open>simp_all add: two_ids_def\<close>)

lemma goodp_ns_author_throw:
  assumes "Inv w" and "two_ids w ns au r"
  shows "goodp w (bnd (free_ns_author ns au (w\<lparr>w_rust := r\<rparr>)) (\<lambda>w. Inr (res, w)))"
  by (rule scoped_throw[where fr = "free_ns_author ns au", OF assms(1)]) (use assms in \<open>simp_all add: two_ids_def\<close>)

lemma docs_author_starts:
  assumes inv: "Inv w" and d: "r_res (w_rust w) d = Some KDocs" and t: "two_ids w ns au r"
  shows "starts IROH_OP_DOCS_SET r (iroh_docs_set env r (Some d) (Some ns) (Some au) key val)"
    and "starts IROH_OP_DOCS_SET r (iroh_docs_set_multi env r (Some d) (Some ns) (Some au) es)"
    and "starts IROH_OP_DOCS_GET r (iroh_docs_get env r (Some d) (Some ns) (Some au) key)"
    and "starts IROH_OP_DOCS_DELETE r (iroh_docs_delete env r (Some d) (Some ns) (Some au) key)"
  using t d rstep_res[of "w_rust w" r d] rstep_RInv[of "w_rust w" r, OF _ Inv_RInv[OF inv]]
  by (auto simp: two_ids_def intro: starts_docs_author_ops)

lemma goodp_ns_call:
  assumes inv: "Inv w" and a: "open_at w a ty" "ty \<in> op_tys op"
    and n: "tmp_added TNamespaceId (Some ns) (w_rust w) r" and st: "starts op r (start r)"
  shows "goodp w (ns_call env name op this a cb ns start (w\<lparr>w_rust := r\<rparr>))"
  unfolding ns_call_def by (rule one_id_call[where start = start, OF inv a n st])

section \<open>The methods\<close>

lemma docs_create_good:
  assumes inv: "Inv w"
  shows "goodp w (duk_rp_iroh_docs_create_author env this a0 w)" and "goodp w (duk_rp_iroh_docs_create_doc env this a0 w)"
proof -
  have "goodp w (bnd (opt_cb a a0 w) (\<lambda>(aux, w). bnd (in_rust w (\<lambda>r. iroh_docs_create_author env r (Some d)))
        (start_or_throw env this a IROH_OP_DOCS_CREATE_AUTHOR aux ''docs.createAuthor: failed'')))"
    and "goodp w (bnd (opt_cb a a0 w) (\<lambda>(aux, w). bnd (in_rust w (\<lambda>r. iroh_docs_create_doc env r (Some d)))
        (start_or_throw env this a IROH_OP_DOCS_CREATE_DOC aux ''docs.createDoc: failed'')))"
    if "w_ctxs w a = Some c" "open_at w a (obj_type c)" "docs_p c = Some d" for a c d
    using Inv_res(9)[OF inv that(1,3)] that(2) Inv_RInv[OF inv]
    by (auto intro!: opt_cb_call[where f = "\<lambda>r. iroh_docs_create_author env r (Some d)", OF inv that(2)]
        opt_cb_call[where f = "\<lambda>r. iroh_docs_create_doc env r (Some d)", OF inv that(2)] starts_docs_ops)
  then show "goodp w (duk_rp_iroh_docs_create_author env this a0 w)"
    and "goodp w (duk_rp_iroh_docs_create_doc env this a0 w)"
    unfolding duk_rp_iroh_docs_create_author_def duk_rp_iroh_docs_create_doc_def
    by (auto intro!: goodp_method[OF inv])
qed

lemma docs_set_good:
  assumes inv: "Inv w"
  shows "goodp w (duk_rp_iroh_docs_set env this a0 a1 a2 a3 a4 w)"
  unfolding duk_rp_iroh_docs_set_def
proof (rule goodp_method[OF inv])
  fix a c d
  assume a: "w_ctxs w a = Some c" "open_at w a (obj_type c)" "docs_p c = Some d"
  note d = Inv_res(9)[OF inv a(1,3)]
  have ty: "obj_type c \<in> op_tys IROH_OP_DOCS_SET" using d by simp
  note calls = goodp_ns_author_call[where op = IROH_OP_DOCS_SET, OF inv a(2) ty]
    docs_author_starts[OF inv conjunct1[OF d]]
  show "goodp w (case require_string a0 of
       None \<Rightarrow> Inr (Throw ''docs.set: arg 1 must be namespace ID string'', w)
     | Some ns_str \<Rightarrow>
     (case require_string a1 of
       None \<Rightarrow> Inr (Throw ''docs.set: arg 2 must be author ID string'', w)
     | Some author_str \<Rightarrow>
     with_ns_author env ''docs.set'' ns_str author_str w (\<lambda>ns au w.
     if env_is_plain_object env w a2 then
       (case set_entries w a2 (env_enum_str env (own_keys w a2)) of
          None \<Rightarrow> bnd (free_ns_author ns au w) (\<lambda>w. Inr (Throw ''docs.set: object values must be strings or buffers'', w))
        | Some [] \<Rightarrow> bnd (free_ns_author ns au w) (\<lambda>w. Inr (Throw ''docs.set: object must have at least one property'', w))
        | Some entries \<Rightarrow>
            ns_author_call env ''docs.set'' IROH_OP_DOCS_SET this a a3 ns au
              (\<lambda>r. iroh_docs_set_multi env r (Some d) (Some ns) (Some au) entries) w)
     else
       (case require_string a2 of
          None \<Rightarrow> bnd (free_ns_author ns au w) (\<lambda>w.
              Inr (Throw ''docs.set: arg 3 must be a key string or an object of key-value pairs'', w))
        | Some key \<Rightarrow>
            (case data_arg a3 of
               None \<Rightarrow> bnd (free_ns_author ns au w) (\<lambda>w. Inr (Throw ''docs.set: arg 4 must be a string or buffer (value)'', w))
             | Some value \<Rightarrow>
                 ns_author_call env ''docs.set'' IROH_OP_DOCS_SET this a a4 ns au
                   (\<lambda>r. iroh_docs_set env r (Some d) (Some ns) (Some au) key value) w)))))"
    using inv by (auto split: option.split list.split intro!: goodp_with_ns_author[OF inv] calls goodp_ns_author_throw[OF inv])
qed

lemma docs_get_delete_good:
  assumes inv: "Inv w"
  shows "goodp w (duk_rp_iroh_docs_get env this a0 a1 a2 a3 w)"
    and "goodp w (duk_rp_iroh_docs_delete env this a0 a1 a2 a3 w)"
proof -
  have "goodp w (with_ns_author env ''docs.get'' n u w (\<lambda>ns au w.
       ns_author_call env ''docs.get'' IROH_OP_DOCS_GET this a a3 ns au
         (\<lambda>r. iroh_docs_get env r (Some d) (Some ns) (Some au) key) w))"
    and "goodp w (with_ns_author env ''docs.delete'' n u w (\<lambda>ns au w.
       ns_author_call env ''docs.delete'' IROH_OP_DOCS_DELETE this a a3 ns au
         (\<lambda>r. iroh_docs_delete env r (Some d) (Some ns) (Some au) key) w))"
    if "w_ctxs w a = Some c" "open_at w a (obj_type c)" "docs_p c = Some d" for a c d n u key
    using Inv_res(9)[OF inv that(1,3)]
    by (auto intro!: goodp_with_ns_author[OF inv] goodp_ns_author_call[OF inv that(2)] docs_author_starts[OF inv])
  then show "goodp w (duk_rp_iroh_docs_get env this a0 a1 a2 a3 w)"
    and "goodp w (duk_rp_iroh_docs_delete env this a0 a1 a2 a3 w)"
    unfolding duk_rp_iroh_docs_get_def duk_rp_iroh_docs_delete_def using inv
    by (auto intro!: goodp_method[OF inv] split: option.split)
qed

lemma docs_ns_good:
  assumes inv: "Inv w"
  shows "goodp w (duk_rp_iroh_docs_get_latest env this a0 a1 a2 w)"
    and "goodp w (duk_rp_iroh_docs_get_all env this a0 a1 w)"
proof -
  have "goodp w (with_ns env ''docs.getAttr'' n w (\<lambda>ns w. ns_call env ''docs.getAttr'' IROH_OP_DOCS_GET_LATEST this a a2 ns
         (\<lambda>r. iroh_docs_get_latest env r (Some d) (Some ns) key) w))"
    and "goodp w (with_ns env ''docs.getAll'' n w (\<lambda>ns w. ns_call env ''docs.getAll'' IROH_OP_DOCS_GET_ALL this a a1 ns
         (\<lambda>r. iroh_docs_get_all env r (Some d) (Some ns)) w))"
    if "w_ctxs w a = Some c" "open_at w a (obj_type c)" "docs_p c = Some d" for a c d n key
    using Inv_res(9)[OF inv that(1,3)]
    by (auto intro!: goodp_with_ns[OF inv] goodp_ns_call[OF inv that(2)] starts_docs_ns_ops dest: rstep_res)
  then show "goodp w (duk_rp_iroh_docs_get_latest env this a0 a1 a2 w)"
    and "goodp w (duk_rp_iroh_docs_get_all env this a0 a1 w)"
    unfolding duk_rp_iroh_docs_get_latest_def duk_rp_iroh_docs_get_all_def using inv
    by (auto intro!: goodp_method[OF inv] split: option.split)
qed

lemma docs_ticket_good:
  assumes inv: "Inv w"
  shows "goodp w (duk_rp_iroh_docs_ticket env this a0 a1 w)"
proof -
  have "goodp w (with_ns env ''docs.createTicket'' n w (\<lambda>ns w.
     bnd (parent_endpoint a w) (\<lambda>ep.
     if ep = None then
       bnd (in_rust' w (tmp_free TNamespaceId (Some ns))) (\<lambda>w.
         Inr (Throw ''docs.createTicket: endpoint not available'', w))
     else
       ns_call env ''docs.createTicket'' IROH_OP_DOCS_CREATE_TICKET this a a1 ns
         (\<lambda>r. iroh_docs_create_ticket env r (Some d) (Some ns) ep) w)))"
    if a: "w_ctxs w a = Some c" "open_at w a (obj_type c)" "docs_p c = Some d" for a c d n
  proof (rule goodp_with_ns[OF inv], goal_cases)
    case (1 x r)
    obtain ep where ep: "parent_endpoint a w = Inr ep" "\<forall>e. ep = Some e \<longrightarrow> r_res (w_rust w) e = Some KEndpoint"
      using parent_endpoint_ok[OF inv a(2)] .
    show ?case
      using ep 1 Inv_res(9)[OF inv a(1,3)]
      by (auto intro!: one_id_throw[OF inv] goodp_ns_call[OF inv a(2)] starts_docs_ns_ops dest: rstep_res)
  qed
  then show ?thesis
    unfolding duk_rp_iroh_docs_ticket_def using inv by (auto intro!: goodp_method[OF inv] split: option.split)
qed

lemma docs_join_good:
  assumes inv: "Inv w"
  shows "goodp w (duk_rp_iroh_docs_join env this a0 a1 w)"
proof -
  have "goodp w (case tmp_from_string env TDocTicket str (w_rust w) of
            (None, r) \<Rightarrow> Inr (Throw ''docs.join: invalid ticket'', w\<lparr>w_rust := r\<rparr>)
          | (Some t, r) \<Rightarrow>
              bnd (opt_cb a a1 (w\<lparr>w_rust := r\<rparr>)) (\<lambda>(aux, w).
              bnd (in_rust w (\<lambda>r. iroh_docs_join env r (Some d) (Some t))) (\<lambda>(h, w).
              bnd (in_rust' w (tmp_free TDocTicket (Some t))) (\<lambda>w.
                start_or_throw env this a IROH_OP_DOCS_JOIN aux ''docs.join: failed'' (h, w)))))"
    if a: "w_ctxs w a = Some c" "open_at w a (obj_type c)" "docs_p c = Some d" for a c d str
  proof (rule goodp_parse[OF inv], goal_cases)
    case (1 t r)
    then show ?case
      using Inv_res(9)[OF inv a(1,3)]
      by (intro one_id_call[where start = "\<lambda>r. iroh_docs_join env r (Some d) (Some t)", OF inv a(2)])
        (auto intro: starts_docs_ops dest: rstep_res)
  qed
  then show ?thesis
    unfolding duk_rp_iroh_docs_join_def using inv
    by (auto intro!: goodp_method[OF inv] simp del: split_paired_All split: option.split)
qed

section \<open>Closing blobs and docs\<close>

definition closable :: "world \<Rightarrow> objid \<Rightarrow> bool" where
  "closable w this \<longleftrightarrow>
     (\<forall>a c. this_ictx w this = Some a \<and> w_ctxs w a = Some c \<longrightarrow> obj_type c \<in> {IROH_OBJ_BLOBS, IROH_OBJ_DOCS})"

context js_program
begin

lemma close_good:
  assumes inv: "Inv w" and cl: "closable w this"
  shows "goodp w (duk_rp_iroh_close env js this w)"
proof (cases "this_ictx w this")
  case None
  with inv show ?thesis by (simp add: duk_rp_iroh_close_def)
next
  case (Some a)
  then obtain c where c: "w_ctxs w a = Some c" "open_at w a (obj_type c)" using this_ictx_open[OF inv] by metis
  have "\<not> stable (obj_type c)" using cl Some c(1) by (auto simp: closable_def)
  from cleanup_good[OF inv c(2) this] inv Some c show ?thesis by (simp add: duk_rp_iroh_close_def)
qed

end

end
