(* ===== verification/System.thy ===== *)
theory System
  imports DocsMethods
begin

text \<open>
  The whole system: scripts run against the module, tasks of the Rust runtime finish, libevent
  fires the one-shot events. A script is a strategy: given the function being run, its \<open>this\<close>,
  its arguments, the results of its calls so far and the state, it names the next action. The
  state is what a strategy may depend on, so every JavaScript program is covered by one.
\<close>

section \<open>Scripts\<close>

datatype action =
    Done bool                                   \<comment> \<open>the function returns, or throws\<close>
  | NewObject "(string \<times> jsval) list" "jsval list option"
  | SetProp objid string jsval
  | Call cfunc bool objid "jsval list"          \<comment> \<open>a function of the module, called or as constructor\<close>

type_synonym strategy = "fnid \<Rightarrow> objid \<Rightarrow> jsval list \<Rightarrow> jsres list \<Rightarrow> world \<Rightarrow> action"

text \<open>
  Running a strategy. The fuel is the engine's limit on the work of one entry from the event
  loop, nested calls included; when it is used up the engine throws.
\<close>

fun script_from :: "'e env_scheme \<Rightarrow> strategy \<Rightarrow> nat \<Rightarrow> jsres list \<Rightarrow> jscode" where
  "script_from env prog 0 rs w f this args = Inr (True, w)"
| "script_from env prog (Suc n) rs w f this args =
     (case prog f this args rs w of
        Done b \<Rightarrow> Inr (b, w)
      | NewObject ps arr \<Rightarrow>
          (case new_obj (empty_obj\<lparr>o_props := ps, o_array := arr\<rparr>) w of
             (i, w') \<Rightarrow> script_from env prog n (rs @ [Ret (JObj i)]) w' f this args)
      | SetProp i k v \<Rightarrow> script_from env prog n (rs @ [Ret v]) (put_prop i k v w) f this args
      | Call fn ctor obj as \<Rightarrow>
          bnd (iroh_call env (script_from env prog n []) fn ctor obj as w) (\<lambda>(res, w').
            script_from env prog n (rs @ [res]) w' f this args))"

definition script :: "'e env_scheme \<Rightarrow> strategy \<Rightarrow> nat \<Rightarrow> jscode" where
  "script env prog n = script_from env prog n []"

text \<open>
  The calls the safety theorem covers: the receiver exists, \<open>close\<close> is called on blobs and docs
  only, and the functions that tear an endpoint, a connection, a topic or a stream down are not
  called. What goes wrong with those is stated separately.
\<close>

definition permitted :: "world \<Rightarrow> cfunc \<Rightarrow> objid \<Rightarrow> bool" where
  "permitted w fn this \<longleftrightarrow> w_objs w this \<noteq> None \<and> fn \<notin> {F_ep_close, F_conn_close, F_stream_destroy}
     \<and> (fn = F_close \<longrightarrow> closable w this)"

definition disciplined :: "strategy \<Rightarrow> bool" where
  "disciplined prog \<longleftrightarrow> (\<forall>f this args rs w fn ctor obj as.
     prog f this args rs w = Call fn ctor obj as \<longrightarrow> permitted w fn obj)"

section \<open>Every call keeps the invariant\<close>

lemmas method_goods =
  on_good off_good ep_connect_good ep_show_good conn_open_bi_good conn_send_datagram_good stream_write_good
  stream_finish_good endpoint_good create_server_good connect_to_good services_good gossip_subscribe_good
  topic_broadcast_good blobs_add_good blobs_read_good blobs_download_good blobs_ticket_good docs_create_good
  docs_set_good docs_get_delete_good docs_ns_good docs_ticket_good docs_join_good

context js_program
begin

lemma iroh_call_good:
  assumes inv: "Inv w" and p: "permitted w fn this"
  shows "goodp w (iroh_call env js fn ctor this as w)"
proof -
  have i: "w_objs w this \<noteq> None" using p by (simp add: permitted_def)
  show ?thesis
    using p by (cases fn) (simp_all add: permitted_def method_goods[OF inv] trigger_good[OF inv] endpoint_good[OF inv]
        services_good[OF inv] close_good[OF inv] i)
qed

end

lemma new_object_step:
  assumes inv: "Inv w" and n: "new_obj (empty_obj\<lparr>o_props := ps, o_array := arr\<rparr>) w = (i, w')"
  shows "Inv w'" and "ext w w'"
  using new_obj_step[OF inv _ n] by (simp_all add: empty_obj_def)

lemma script_from_good:
  assumes "disciplined prog"
  shows "Inv w \<Longrightarrow> goodp w (script_from env prog n rs w f this args)"
proof (induction n arbitrary: rs w f this args)
  case 0
  then show ?case by simp
next
  case (Suc n)
  let ?go = "\<lambda>rs w. script_from env prog n rs w f this args"
  have step: "goodp w (?go rs w')" if "Inv w'" "ext w w'" for rs w'
    by (rule goodp_ext[OF that(2) Suc.IH[OF that(1)]])
  have js: "js_program (script_from env prog n [])" by unfold_locales (rule Suc.IH)
  show ?case
  proof (cases "prog f this args rs w")
    case (Call fn ctor obj as)
    then have "permitted w fn obj" using assms unfolding disciplined_def by blast
    from js_program.iroh_call_good[OF js Suc.prems this] Call step show ?thesis
      by (auto intro!: safe_bndI elim!: safe_mono)
  next
    case (NewObject ps arr)
    then show ?thesis using new_object_step[OF Suc.prems] step by (auto split: prod.split)
  next
    case (SetProp i k v)
    have "view (put_prop i k v w) = view w" by simp
    from inert_step[OF this Suc.prems] step SetProp show ?thesis by simp
  qed (use Suc.prems in simp)
qed

lemma disciplined_js_program:
  assumes "disciplined prog"
  shows "js_program (script env prog n)"
  by unfold_locales (simp add: script_def script_from_good[OF assms])

text \<open>Programs that stay within a strategy: the calls that are not permitted are replaced by a throw.\<close>

definition restrain :: "strategy \<Rightarrow> strategy" where
  "restrain prog f this args rs w =
     (case prog f this args rs w of
        Call fn ctor obj as \<Rightarrow> if permitted w fn obj then Call fn ctor obj as else Done True
      | x \<Rightarrow> x)"

lemma disciplined_restrain: "disciplined (restrain prog)"
  by (auto simp: disciplined_def restrain_def split: action.splits if_splits)

interpretation scripted: js_program env "script env (restrain prog) n"
  for env :: "'e env_scheme" and prog n
  by (rule disciplined_js_program[OF disciplined_restrain])

section \<open>Steps and reachable states\<close>

text \<open>
  The module is loaded (again); a script is entered from the event loop; a task of the runtime
  finishes with an error or with a result of its type; libevent fires a registered event,
  whether or not there is a notification in the pipe.
\<close>

inductive sys_step :: "'e env_scheme \<Rightarrow> strategy \<Rightarrow> world \<Rightarrow> world \<Rightarrow> bool"
  for env :: "'e env_scheme" and prog :: strategy where
  load: "duk_open_module env w = (m, w') \<Longrightarrow> sys_step env prog w w'"
| enter: "script env prog n w f this args = Inr (b, w') \<Longrightarrow> sys_step env prog w w'"
| finish: "r_handles (w_rust w) h = Some ah \<Longrightarrow> h_running ah \<Longrightarrow> (\<forall>v. out = Inr v \<longrightarrow> task_result (h_req ah) v) \<Longrightarrow>
     task_complete (w_rust w) h out = Inr r \<Longrightarrow> sys_step env prog w (w\<lparr>w_rust := r\<rparr>)"
| fire: "w_evs w p \<Longrightarrow> iroh_async_cb env (script env prog n) p w = Inr w' \<Longrightarrow> sys_step env prog w w'"

inductive reachable :: "'e env_scheme \<Rightarrow> strategy \<Rightarrow> world \<Rightarrow> bool"
  for env :: "'e env_scheme" and prog :: strategy where
  start: "reachable env prog boot"
| step: "reachable env prog w \<Longrightarrow> sys_step env prog w w' \<Longrightarrow> reachable env prog w'"

text \<open>The faults the next step can end in.\<close>

inductive sys_fault :: "'e env_scheme \<Rightarrow> strategy \<Rightarrow> world \<Rightarrow> fault \<Rightarrow> bool"
  for env :: "'e env_scheme" and prog :: strategy where
  enter_fault: "script env prog n w f this args = Inl e \<Longrightarrow> sys_fault env prog w e"
| finish_fault: "r_handles (w_rust w) h = Some ah \<Longrightarrow> h_running ah \<Longrightarrow> task_complete (w_rust w) h out = Inl e \<Longrightarrow>
     sys_fault env prog w e"
| fire_fault: "w_evs w p \<Longrightarrow> iroh_async_cb env (script env prog n) p w = Inl e \<Longrightarrow> sys_fault env prog w e"


lemma Inv_boot: "Inv boot"
  by (simp add: Inv_def VInv_parts boot_def view_def RInv_def rfresh_def tasks_ok_def)

lemma open_module_step:
  assumes "Inv w" and "duk_open_module env w = (m, w')"
  shows "Inv w'" and "ext w w'"
proof -
  obtain r b where w': "w' = w\<lparr>w_rust := r, w_is_init := b\<rparr>" "rstep (w_rust w) r" "r_tmp r = r_tmp (w_rust w)"
  proof (cases "w_is_init w")
    case True
    with assms(2) show ?thesis by (intro that[of True "w_rust w"]) (auto simp: duk_open_module_def)
  next
    case False
    obtain err r where r: "iroh_init env (w_rust w) = (err, r)" by force
    then have "rstep (w_rust w) r" "r_tmp r = r_tmp (w_rust w)"
      by (auto simp: iroh_init_def set_last_error_def intro!: rstep_same split: if_splits option.splits)
    with False r assms(2) show ?thesis by (intro that[of "err = ErrOk" r]) (auto simp: duk_open_module_def split: if_splits)
  qed
  have v: "view w' = view (w\<lparr>w_rust := r\<rparr>)" by (simp add: w' view_def)
  then show "Inv w'" using view_Inv[OF v] Inv_rust[OF assms(1) w'(2)] by simp
  show "ext w w'" using ext_trans[OF ext_rust view_ext[OF v]] w'(2,3) by blast
qed

lemma task_complete_step:
  assumes inv: "Inv w" and h: "r_handles (w_rust w) h = Some ah" "h_running ah"
  obtains r where "task_complete (w_rust w) h out = Inr r" and "Inv (w\<lparr>w_rust := r\<rparr>)" and "ext w (w\<lparr>w_rust := r\<rparr>)"
proof -
  have "\<forall>x \<in> set (task_borrows (h_req ah)). r_res (w_rust w) x \<noteq> None"
    using Inv_RInv[OF inv] h unfolding RInv_def tasks_ok_def by blast
  moreover have "rstep (w_rust w) (put_handle h (case out of Inl msg \<Rightarrow> complete_with_error msg ah
      | Inr v \<Rightarrow> complete_with_result v ah) (w_rust w))"
    using h(2) by (intro rstep_put_handle[OF h(1)]) (auto simp: complete_with_error_def complete_with_result_def split: sum.splits)
  ultimately show ?thesis
    using h inv that by (fastforce simp: task_complete_def list_all_iff Inv_rust ext_rust)
qed

lemma sys_step_good:
  assumes "disciplined prog" and "sys_step env prog w w'" and "Inv w"
  shows "Inv w' \<and> ext w w'"
  using assms(2)
proof (cases rule: sys_step.cases)
  case load
  then show ?thesis using open_module_step[OF assms(3)] by blast
next
  case (enter n f this args b)
  with script_from_good[OF assms(1,3), of env n "[]" f this args] show ?thesis by (simp add: script_def)
next
  case (finish h ah out r)
  then show ?thesis using task_complete_step[OF assms(3) finish(2,3), of out] by auto
next
  case (fire p n)
  then obtain x where "w_ops w p = Some x" using assms(3) by (auto simp: Inv_def VInv_def)
  from js_program.async_cb_good[OF disciplined_js_program[OF assms(1), of env n] assms(3) this, of env] fire
  show ?thesis by simp
qed

lemma reachable_good:
  assumes "disciplined prog" and "reachable env prog w"
  shows "Inv w \<and> r_tmp (w_rust w) = (\<lambda>_. None)"
  using assms(2)
proof induction
  case start
  then show ?case by (simp add: Inv_boot) (simp add: boot_def)
next
  case (step w w')
  with sys_step_good[OF assms(1) step.hyps(2)] show ?case by (simp add: ext_def)
qed

lemma sys_fault_overflow:
  assumes "disciplined prog" and "Inv w" and "sys_fault env prog w e"
  shows "e = PendingOverflow"
  using assms(3)
proof (cases rule: sys_fault.cases)
  case (enter_fault n f this args)
  with script_from_good[OF assms(1,2), of env n "[]" f this args] show ?thesis by (simp add: script_def safe_def)
next
  case (finish_fault h ah out)
  then show ?thesis using task_complete_step[OF assms(2) finish_fault(1,2), of out] by auto
next
  case (fire_fault p n)
  then obtain x where "w_ops w p = Some x" using assms(2) by (auto simp: Inv_def VInv_def)
  from js_program.async_cb_good[OF disciplined_js_program[OF assms(1), of env n] assms(2) this, of env] fire_fault
  show ?thesis by (simp add: safe_def)
qed

end
