(* ===== verification/Sample.thy ===== *)
theory Sample
  imports ModuleInit
begin

text \<open>
  A concrete environment and small states for worked examples: pipes and events are always
  available, enumerators list keys in insertion order, every non-empty text parses as an id.
\<close>

definition sample_env :: env where
  "sample_env = \<lparr>env_pipe = \<lambda>h. Some (int h), env_runtime_new = None,
     env_parse = \<lambda>k s. if s = [] then Inl ''empty'' else Inr s, env_blake3 = \<lambda>s. s,
     env_endpoint_id = \<lambda>_. ''node'', env_endpoint_secret = \<lambda>_. replicate 32 0,
     env_endpoint_addr = \<lambda>_. ''node|'', env_remote_id = \<lambda>_. ''peer'', env_conn_alpn = \<lambda>_. ''alpn'',
     env_blob_ticket = \<lambda>_ h. ''ticket'' @ h, env_send_datagram = \<lambda>_ _. None,
     env_event_new = \<lambda>_. True, env_enum_int = \<lambda>ks. ks, env_enum_str = \<lambda>ks. ks,
     env_get_uint = \<lambda>v. case v of JNum n \<Rightarrow> word_of_int n | _ \<Rightarrow> 0,
     env_get_u64 = \<lambda>v. case v of JNum n \<Rightarrow> word_of_int n | _ \<Rightarrow> 0,
     env_hex_to_buf = \<lambda>_. Inl ''bad hex'', env_to_hex = \<lambda>_. [],
     env_is_plain_object = \<lambda>_ v. case v of JObj _ \<Rightarrow> True | _ \<Rightarrow> False\<rparr>"

lemma sample_env_simps [simp]:
  "env_pipe sample_env h = Some (int h)" "env_runtime_new sample_env = None" "env_event_new sample_env p"
  "env_enum_int sample_env = (\<lambda>ks. ks)" "env_enum_str sample_env = (\<lambda>ks. ks)"
  "env_parse sample_env k s = (if s = [] then Inl ''empty'' else Inr s)"
  "env_get_uint sample_env (JNum n) = word_of_int n"
  by (simp_all add: sample_env_def)

text \<open>One emitter object without listeners and without a context.\<close>

definition one_emitter :: world where
  "one_emitter = boot\<lparr>w_objs := [0 \<mapsto> empty_obj\<lparr>o_events := Some []\<rparr>], w_nextobj := 1\<rparr>"

text \<open>An emitter object with an open context of a given type.\<close>

definition one_ctx :: "iroh_obj_type \<Rightarrow> (RPIROH \<Rightarrow> RPIROH) \<Rightarrow> (rust \<Rightarrow> rust) \<Rightarrow> world" where
  "one_ctx ty f g =
     boot\<lparr>w_ctxs := [1 \<mapsto> f (zero_ctx 0 ty None 0)], w_next := 2,
       w_objs := [0 \<mapsto> empty_obj\<lparr>o_events := Some [], o_ictx := Some 1\<rparr>], w_nextobj := 1, w_this_id := 1,
       w_is_init := True, w_rust := g ((w_rust boot)\<lparr>r_runtime := True\<rparr>)\<rparr>"

end
