(* ===== verification/EmitterCorrect.thy ===== *)
theory EmitterCorrect
  imports Sample
begin

text \<open>
  Correctness of the event emitter, the one-shot callbacks and the stash that protects objects
  from collection. The tables are association lists whose keys are listener ids; the invariant
  \<open>emitter_ok\<close> ties the ids in the tables to the ids stored on the functions.
\<close>

section \<open>Lookup after a write\<close>

lemma events_of_put_listeners:
  "events_of (put_listeners this ev t w) o' =
     (if o' = this then map_option (AList.update ev t) (events_of w this) else events_of w o')"
  by (auto simp: events_of_def put_listeners_def upd_obj_def split: option.splits)

lemma events_of_simps [simp]:
  "events_of (upd_fn f g w) this = events_of w this" "events_of (w\<lparr>w_evcb_id := n\<rparr>) this = events_of w this"
  "events_of (log x w) this = events_of w this"
  by (simp_all add: events_of_def upd_fn_def log_def)

lemma listeners_put:
  assumes "events_of w this = Some es"
  shows "listeners (put_listeners this ev t w) o' e =
     (if o' = this \<and> e = ev then Some t else listeners w o' e)"
  using assms by (auto simp: listeners_def events_of_put_listeners update_conv')

lemma listeners_simps [simp]:
  "listeners (upd_fn f g w) this ev = listeners w this ev"
  "listeners (w\<lparr>w_evcb_id := n\<rparr>) this ev = listeners w this ev"
  "listeners (log x w) this ev = listeners w this ev"
  by (simp_all add: listeners_def)

lemma put_listeners_simps [simp]:
  "w_fns (put_listeners this ev t w) = w_fns w" "w_evcb_id (put_listeners this ev t w) = w_evcb_id w"
  "w_log (put_listeners this ev t w) = w_log w"
  by (simp_all add: put_listeners_def upd_obj_def)

lemma upd_fn_simps [simp]:
  "w_fns (upd_fn f g w) = (w_fns w)(f := g (w_fns w f))" "w_evcb_id (upd_fn f g w) = w_evcb_id w"
  "w_log (upd_fn f g w) = w_log w" "w_objs (upd_fn f g w) = w_objs w"
  by (simp_all add: upd_fn_def)

lemma log_simps [simp]:
  "w_fns (log x w) = w_fns w" "w_evcb_id (log x w) = w_evcb_id w" "w_log (log x w) = x # w_log w"
  by (simp_all add: log_def)

section \<open>Ids and tables\<close>

definition emitter_ok :: "world \<Rightarrow> bool" where
  "emitter_ok w \<longleftrightarrow>
     (\<forall>f i. fn_evcb_id (w_fns w f) = Some i \<longrightarrow> 0 \<le> i \<and> i < uint (w_evcb_id w))
     \<and> (\<forall>f g i. fn_evcb_id (w_fns w f) = Some i \<and> fn_evcb_id (w_fns w g) = Some i \<longrightarrow> f = g)
     \<and> (\<forall>this ev t. listeners w this ev = Some t \<longrightarrow>
          distinct (map fst t) \<and> (\<forall>(i, g) \<in> set t. fn_evcb_id (w_fns w g) = Some i))"

lemma emitter_ok_table:
  assumes "emitter_ok w" and "listeners w this ev = Some t"
  shows "distinct (map fst t)" and "\<And>i g. (i, g) \<in> set t \<Longrightarrow> fn_evcb_id (w_fns w g) = Some i"
  using assms unfolding emitter_ok_def by blast+

lemma emitter_ok_id:
  assumes "emitter_ok w"
  shows "fn_evcb_id (w_fns w f) = Some i \<Longrightarrow> 0 \<le> i \<and> i < uint (w_evcb_id w)"
    and "fn_evcb_id (w_fns w f) = Some i \<Longrightarrow> fn_evcb_id (w_fns w g) = Some i \<Longrightarrow> f = g"
  using assms unfolding emitter_ok_def by blast+

lemma table_lookup:
  assumes "emitter_ok w" and "listeners w this ev = Some t" and "fn_evcb_id (w_fns w f) = Some i"
    and "i \<in> fst ` set t"
  shows "map_of t i = Some f"
proof -
  obtain g where g: "(i, g) \<in> set t" using assms(4) by force
  then have "g = f" using emitter_ok_table(2)[OF assms(1,2) g] emitter_ok_id(2)[OF assms(1) assms(3), of g] by simp
  with g emitter_ok_table(1)[OF assms(1,2)] show ?thesis by (simp add: map_of_is_SomeI)
qed

lemma no_wrap:
  assumes "uint (n :: u32) < 2147483647"
  shows "sint n = uint n" and "uint (n + 1) = uint n + 1"
proof -
  have "- (2 ^ 31) \<le> (0 :: int)" by simp
  then have "- (2 ^ 31) \<le> uint n" using uint_ge_0[of n] by (rule order_trans)
  then show "sint n = uint n" using assms by (simp add: sint_uint signed_take_bit_int_eq_self)
  show "uint (n + 1) = uint n + 1" using assms by (simp add: uint_word_ariths)
qed

section \<open>Registering and removing\<close>

text \<open>The table of an event, empty before the first registration; the id a function is registered under.\<close>

definition table_of :: "world \<Rightarrow> objid \<Rightarrow> string \<Rightarrow> (int \<times> fnid) list" where
  "table_of w this ev = (case listeners w this ev of None \<Rightarrow> [] | Some t \<Rightarrow> t)"

definition id_of :: "world \<Rightarrow> fnid \<Rightarrow> int" where
  "id_of w f = (case fn_evcb_id (w_fns w f) of None \<Rightarrow> uint (w_evcb_id w) | Some i \<Rightarrow> i)"

lemma ev_on_cases:
  assumes ok: "emitter_ok w" and es: "events_of w this = Some es" and n: "uint (w_evcb_id w) < 2147483647"
  obtains w' where "iroh_ev_on name ev (JFun f) this w = (Ret JUndefined, w')"
    and "w_evcb_id w' = w_evcb_id w + 1"
    and "\<And>o' e. listeners w' o' e = (if o' = this \<and> e = ev then Some (AList.update (id_of w f) f (table_of w this ev)) else listeners w o' e)"
    and "w_fns w' = (w_fns w)(f := (w_fns w f)\<lparr>fn_evcb_id := Some (id_of w f)\<rparr>)"
proof -
  define t where "t = table_of w this ev"
  define i where "i = id_of w f"
  have t: "(case map_of es ev of None \<Rightarrow> [] | Some t \<Rightarrow> t) = t"
    using es by (simp add: t_def table_of_def listeners_def)
  let ?w1 = "put_listeners this ev t (w\<lparr>w_evcb_id := w_evcb_id w + 1\<rparr>)"
  have es1: "events_of (w\<lparr>w_evcb_id := w_evcb_id w + 1\<rparr>) this = Some es"
    "events_of ?w1 this = Some (AList.update ev t es)"
    using es by (simp_all add: events_of_put_listeners)
  have fns: "w_fns (w\<lparr>w_evcb_id := m\<rparr>) = w_fns w" for m by simp
  show ?thesis
  proof (cases "fn_evcb_id (w_fns w f) \<noteq> None \<and> i \<in> fst ` set t")
    case True
    then have f: "fn_evcb_id (w_fns w f) = Some i" by (auto simp: i_def id_of_def)
    have "listeners w this ev = Some t"
      using True by (cases "listeners w this ev") (auto simp: t_def table_of_def)
    from table_lookup[OF ok this f] True emitter_ok_table(1)[OF ok this] have "AList.update i f t = t"
      by (simp add: update_triv)
    moreover have "iroh_ev_on name ev (JFun f) this w = (Ret JUndefined, ?w1)"
      using True es es1 t f by (simp add: iroh_ev_on_def Let_def)
    ultimately show ?thesis
      using f by (intro that[of ?w1]) (auto simp: listeners_put[OF es1(1)] t_def[symmetric] i_def[symmetric])
  next
    case False
    let ?w = "put_listeners this ev (AList.update i f t) (upd_fn f (\<lambda>x. x\<lparr>fn_evcb_id := Some i\<rparr>) ?w1)"
    have es2: "events_of (upd_fn f (\<lambda>x. x\<lparr>fn_evcb_id := Some i\<rparr>) ?w1) this = Some (AList.update ev t es)"
      using es1(2) by simp
    have "iroh_ev_on name ev (JFun f) this w = (Ret JUndefined, ?w)"
      using False es1(1) t no_wrap(1)[OF n] by (auto simp: iroh_ev_on_def Let_def i_def id_of_def split: option.splits)
    then show ?thesis by (intro that[of ?w]) (auto simp: listeners_put[OF es2] listeners_put[OF es1(1)] t_def[symmetric] i_def[symmetric])
  qed
qed

lemma ev_on_keeps:
  assumes ok: "emitter_ok w" and es: "events_of w this = Some es" and n: "uint (w_evcb_id w) < 2147483647"
    and on: "iroh_ev_on name ev (JFun f) this w = (res, w')"
  shows "emitter_ok w'"
proof -
  define t where "t = table_of w this ev"
  define i where "i = id_of w f"
  have c: "w_evcb_id w' = w_evcb_id w + 1"
    and l: "\<And>o' e. listeners w' o' e = (if o' = this \<and> e = ev then Some (AList.update i f t) else listeners w o' e)"
    and fn: "w_fns w' = (w_fns w)(f := (w_fns w f)\<lparr>fn_evcb_id := Some i\<rparr>)"
    using ev_on_cases[OF ok es n, of name ev f] on unfolding t_def i_def by (metis Pair_inject)+
  have i: "0 \<le> i \<and> i < uint (w_evcb_id w) + 1"
    using emitter_ok_id(1)[OF ok, of f] by (auto simp: i_def id_of_def split: option.splits)
  have new: "g = f" if "fn_evcb_id (w_fns w g) = Some i" for g
    using that emitter_ok_id[OF ok] by (auto simp: i_def id_of_def split: option.splits)
  have t: "distinct (map fst t)" "\<And>j g. (j, g) \<in> set t \<Longrightarrow> fn_evcb_id (w_fns w g) = Some j"
    using emitter_ok_table[OF ok, of this ev] by (cases "listeners w this ev"; simp add: t_def table_of_def)+
  have same: "fn_evcb_id (w_fns w' g) = Some j" if "fn_evcb_id (w_fns w g) = Some j" for g j
    using that by (auto simp: fn i_def id_of_def)
  have u: "fn_evcb_id (w_fns w' g) = Some j" if "(j, g) \<in> set (AList.update i f t)" for j g
  proof -
    have "(j, g) = (i, f) \<or> (j, g) \<in> set t" using that by (induction t) (auto split: if_splits)
    then show ?thesis using same[OF t(2)[of j g]] by (elim disjE) (simp_all add: fn)
  qed
  show ?thesis
    unfolding emitter_ok_def c no_wrap(2)[OF n]
  proof (intro conjI allI impI)
    fix o' e s assume "listeners w' o' e = Some s"
    then show "distinct (map fst s)" and "\<forall>(i, g) \<in> set s. fn_evcb_id (w_fns w' g) = Some i"
      using l u t(1) emitter_ok_table[OF ok] same by (auto simp: distinct_update split: if_splits)
  next
    fix g j assume "fn_evcb_id (w_fns w' g) = Some j"
    then show "0 \<le> j" and "j < uint (w_evcb_id w) + 1"
      using i emitter_ok_id(1)[OF ok, of g j] by (auto simp: fn split: if_splits)
  next
    fix g h j assume "fn_evcb_id (w_fns w' g) = Some j \<and> fn_evcb_id (w_fns w' h) = Some j"
    then show "g = h" using new emitter_ok_id(2)[OF ok] by (auto simp: fn split: if_splits)
  qed
qed

lemma delete_keeps:
  assumes ok: "emitter_ok w" and es: "events_of w this = Some es" and t: "listeners w this ev = Some t"
  shows "emitter_ok (put_listeners this ev (AList.delete i t) w)"
  using ok emitter_ok_table[OF ok t] distinct_delete[of t i]
  unfolding emitter_ok_def listeners_put[OF es] by (auto simp: AList.delete_eq)

lemma off_keeps:
  assumes ok: "emitter_ok w" and off: "duk_rp_iroh_off this a0 a1 w = (res, w')"
  shows "emitter_ok w'"
proof -
  have "w' = w \<or> (\<exists>ev i t es. events_of w this = Some es \<and> listeners w this ev = Some t
      \<and> w' = put_listeners this ev (AList.delete i t) w)"
    using off by (auto simp: duk_rp_iroh_off_def listeners_def split: option.splits jsval.splits)
  then show ?thesis using ok delete_keeps[OF ok] by auto
qed

lemma count_list_distinct: "distinct xs \<Longrightarrow> x \<in> set xs \<Longrightarrow> count_list xs x = 1"
  by (induction xs) auto

lemma once_in_table:
  assumes ok: "emitter_ok w" and t: "listeners w this ev = Some t" and f: "fn_evcb_id (w_fns w f) = Some i"
    and m: "map_of t i = Some f"
  shows "count_list (map snd t) f = 1"
proof -
  have eq: "fst p = i \<longleftrightarrow> snd p = f" if "p \<in> set t" for p
  proof -
    have "fn_evcb_id (w_fns w (snd p)) = Some (fst p)" using emitter_ok_table(2)[OF ok t] that by (cases p) simp
    then show ?thesis using f emitter_ok_id(2)[OF ok f, of "snd p"] by auto
  qed
  have "count_list (map snd t) f = length (filter (\<lambda>p. snd p = f) t)" by (induction t) auto
  also have "\<dots> = length (filter (\<lambda>p. fst p = i) t)" using eq by (simp cong: filter_cong)
  also have "\<dots> = count_list (map fst t) i" by (induction t) auto
  also have "\<dots> = 1"
    using emitter_ok_table(1)[OF ok t] map_of_SomeD[OF m] by (intro count_list_distinct) (auto intro: rev_image_eqI)
  finally show ?thesis .
qed

text \<open>
  C19: Registering a listener: in a state whose tables are consistent (each listed under the id its
  function carries, ids unique) and before the 31-bit id counter is used up, \<open>iroh_ev_on\<close>
  succeeds, keeps the tables consistent, lists the function under its id exactly once, keeps the
  rest of that table, and leaves the tables of every other event and object alone.
\<close>

theorem ev_on_registers:
  assumes "emitter_ok w" and "events_of w this \<noteq> None" and "uint (w_evcb_id w) < 2147483647"
  shows "\<exists>w'. iroh_ev_on name ev (JFun f) this w = (Ret JUndefined, w') \<and> emitter_ok w'
     \<and> (\<exists>i t. fn_evcb_id (w_fns w' f) = Some i \<and> listeners w' this ev = Some t
          \<and> map_of t i = Some f \<and> count_list (map snd t) f = 1
          \<and> (\<forall>j. j \<noteq> i \<longrightarrow> map_of t j = map_of (table_of w this ev) j))
     \<and> (\<forall>o' e. (o', e) \<noteq> (this, ev) \<longrightarrow> listeners w' o' e = listeners w o' e)"
proof -
  obtain es where es: "events_of w this = Some es" using assms(2) by auto
  obtain w' where w': "iroh_ev_on name ev (JFun f) this w = (Ret JUndefined, w')"
    and l: "\<And>o' e. listeners w' o' e =
      (if o' = this \<and> e = ev then Some (AList.update (id_of w f) f (table_of w this ev)) else listeners w o' e)"
    and fn: "w_fns w' = (w_fns w)(f := (w_fns w f)\<lparr>fn_evcb_id := Some (id_of w f)\<rparr>)"
    by (rule ev_on_cases[OF assms(1) es assms(3), of name ev f]) blast
  have ok: "emitter_ok w'" by (rule ev_on_keeps[OF assms(1) es assms(3) w'])
  let ?t = "AList.update (id_of w f) f (table_of w this ev)"
  have t: "listeners w' this ev = Some ?t" by (simp add: l)
  have "count_list (map snd ?t) f = 1"
    by (rule once_in_table[OF ok t, of f "id_of w f"]) (simp_all add: fn update_conv')
  then have "fn_evcb_id (w_fns w' f) = Some (id_of w f) \<and> listeners w' this ev = Some ?t
      \<and> map_of ?t (id_of w f) = Some f \<and> count_list (map snd ?t) f = 1
      \<and> (\<forall>j. j \<noteq> id_of w f \<longrightarrow> map_of ?t j = map_of (table_of w this ev) j)"
    using t by (simp add: fn update_conv')
  moreover have "\<forall>o' e. (o', e) \<noteq> (this, ev) \<longrightarrow> listeners w' o' e = listeners w o' e" using l by simp
  ultimately show ?thesis using w' ok by blast
qed

lemma one_emitter_simps:
  "emitter_ok one_emitter" "events_of one_emitter 0 = Some []" "w_evcb_id one_emitter = 0"
  "listeners one_emitter 0 ev = None"
  by (auto simp: one_emitter_def emitter_ok_def events_of_def listeners_def boot_def empty_obj_def
      split: if_splits option.splits bind_splits)

theorem ev_on_registers_witness:
  "\<exists>w'. iroh_ev_on ''iroh.on'' ''data'' (JFun 7) 0 one_emitter = (Ret JUndefined, w')
     \<and> (\<exists>i t. fn_evcb_id (w_fns w' 7) = Some i \<and> listeners w' 0 ''data'' = Some t \<and> map_of t i = Some 7)"
  using ev_on_registers[of one_emitter 0 "''iroh.on''" "''data''" 7] one_emitter_simps by auto

text \<open>
  C22: Registering twice and removing: a second registration of the same function for the same event
  changes no table, and \<open>off\<close> undoes \<open>on\<close>: for a function that was not listed, the table is again
  what it was, and no other table has changed.
\<close>

theorem on_off_roundtrip:
  assumes "emitter_ok w" and "events_of w this \<noteq> None" and "uint (w_evcb_id w) < 2147483646"
    and "iroh_ev_on name ev (JFun f) this w = (r1, w1)"
    and s: "require_string s = Some ev" and f: "f \<notin> snd ` set (table_of w this ev)"
  shows "(\<exists>w2. iroh_ev_on name ev (JFun f) this w1 = (Ret JUndefined, w2) \<and> listeners w2 = listeners w1)
    \<and> (\<exists>w2. duk_rp_iroh_off this s (JFun f) w1 = (Ret (JObj this), w2)
        \<and> listeners w2 this ev = Some (table_of w this ev)
        \<and> (\<forall>o' e. (o', e) \<noteq> (this, ev) \<longrightarrow> listeners w2 o' e = listeners w o' e))"
proof -
  obtain es where es: "events_of w this = Some es" using assms(2) by auto
  have n: "uint (w_evcb_id w) < 2147483647" using assms(3) by simp
  obtain w' where w': "iroh_ev_on name ev (JFun f) this w = (Ret JUndefined, w')"
    and c: "w_evcb_id w' = w_evcb_id w + 1"
    and l: "\<And>o' e. listeners w' o' e =
      (if o' = this \<and> e = ev then Some (AList.update (id_of w f) f (table_of w this ev)) else listeners w o' e)"
    and fn: "w_fns w' = (w_fns w)(f := (w_fns w f)\<lparr>fn_evcb_id := Some (id_of w f)\<rparr>)"
    by (rule ev_on_cases[OF assms(1) es n, of name ev f]) blast
  then have w1: "w1 = w'" using assms(4) by simp
  let ?t = "AList.update (id_of w f) f (table_of w this ev)"
  have ok: "emitter_ok w1" using ev_on_keeps[OF assms(1) es n assms(4)] .
  have l1: "listeners w1 this ev = Some ?t" by (simp add: w1 l)
  then obtain es1 where es1: "events_of w1 this = Some es1" "map_of es1 ev = Some ?t"
    by (auto simp: listeners_def split: bind_splits)
  have id1: "id_of w1 f = id_of w f" by (simp add: id_of_def w1 fn)
  have "uint (w_evcb_id w1) < 2147483647" using no_wrap(2)[OF n] c assms(3) by (simp add: w1)
  from ev_on_cases[OF ok es1(1) this, of name ev f] obtain w2 where
    w2: "iroh_ev_on name ev (JFun f) this w1 = (Ret JUndefined, w2)"
    "\<And>o' e. listeners w2 o' e =
      (if o' = this \<and> e = ev then Some (AList.update (id_of w1 f) f (table_of w1 this ev)) else listeners w1 o' e)"
    by metis
  have twice: "listeners w2 = listeners w1"
    using l1 by (intro ext) (simp add: w2(2) id1 table_of_def)
  have "id_of w f \<notin> fst ` set (table_of w this ev)"
  proof
    assume "id_of w f \<in> fst ` set (table_of w this ev)"
    then obtain g where g: "(id_of w f, g) \<in> set (table_of w this ev)" by force
    then obtain t where "listeners w this ev = Some t" "(id_of w f, g) \<in> set t"
      by (cases "listeners w this ev") (auto simp: table_of_def)
    from emitter_ok_table(2)[OF assms(1) this] have "fn_evcb_id (w_fns w g) = Some (id_of w f)" .
    then have "g = f" using emitter_ok_id[OF assms(1)] by (auto simp: id_of_def split: option.splits)
    with g f show False by force
  qed
  then have d: "AList.delete (id_of w f) ?t = table_of w this ev" by (simp add: delete_update_same)
  have "duk_rp_iroh_off this s (JFun f) w1 = (Ret (JObj this), put_listeners this ev (table_of w this ev) w1)"
    using s es1 d by (simp add: duk_rp_iroh_off_def w1 fn)
  then show ?thesis using w2(1) twice by (auto simp: listeners_put[OF es1(1)[unfolded w1]] w1 l)
qed

theorem on_off_roundtrip_witness:
  "\<exists>w1 w2. iroh_ev_on ''iroh.on'' ''data'' (JFun 7) 0 one_emitter = (Ret JUndefined, w1)
     \<and> duk_rp_iroh_off 0 (JStr ''data'') (JFun 7) w1 = (Ret (JObj 0), w2) \<and> listeners w2 0 ''data'' = Some []"
proof -
  obtain w1 where w1: "iroh_ev_on ''iroh.on'' ''data'' (JFun 7) 0 one_emitter = (Ret JUndefined, w1)"
    by (rule ev_on_cases[OF one_emitter_simps(1,2), of "''iroh.on''" "''data''" 7]) (simp_all add: one_emitter_simps)
  have "require_string (JStr ''data'') = Some ''data''" by (simp add: require_string_def c_str_def)
  with on_off_roundtrip[OF one_emitter_simps(1) _ _ w1, of "JStr ''data''"] w1 one_emitter_simps show ?thesis
    by (auto simp: table_of_def)
qed

section \<open>Firing\<close>

text \<open>
  What the log gains when the functions \<open>fs\<close> are called in order, newest entry first, by callbacks
  of which those in \<open>thr\<close> throw.
\<close>

definition fired :: "objid \<Rightarrow> string \<Rightarrow> jsval list \<Rightarrow> (fnid \<Rightarrow> bool) \<Rightarrow> fnid list \<Rightarrow> obs list" where
  "fired this ev args thr fs =
     concat (map (\<lambda>f. (if thr f then [CallbackError ev f] else []) @ [Invoke f this ev args]) (rev fs))"

lemma fired_simps [simp]:
  "fired this ev args thr [] = []"
  "fired this ev args thr (f # fs) = fired this ev args thr fs @ (if thr f then [CallbackError ev f] else []) @ [Invoke f this ev args]"
  by (simp_all add: fired_def)

definition plain_js :: "(fnid \<Rightarrow> bool) \<Rightarrow> jscode" where
  "plain_js thr w f this args = Inr (thr f, w)"

lemma upd_once_id: "fn_evcb_id (((w_fns w)(f := (w_fns w f)\<lparr>fn_once := b\<rparr>)) g) = fn_evcb_id (w_fns w g)"
  by simp

lemma emitter_ok_simps [simp]:
  "emitter_ok (log x w) = emitter_ok w" "emitter_ok (upd_fn f (\<lambda>x. x\<lparr>fn_once := b\<rparr>) w) = emitter_ok w"
  by (simp_all add: emitter_ok_def upd_once_id del: fun_upd_apply)

text \<open>The state after one listener \<open>f\<close>, listed under \<open>k\<close>, has been called.\<close>

definition after_call :: "(fnid \<Rightarrow> bool) \<Rightarrow> objid \<Rightarrow> string \<Rightarrow> jsval list \<Rightarrow> int \<Rightarrow> fnid \<Rightarrow> (int \<times> fnid) list \<Rightarrow> world \<Rightarrow> world"
where
  "after_call thr this ev args k f t w =
     (let w1 = (if fn_once (w_fns w f)
                then put_listeners this ev (AList.delete k t) (upd_fn f (\<lambda>x. x\<lparr>fn_once := False\<rparr>) w) else w);
          w2 = log (Invoke f this ev args) w1
      in if thr f then log (CallbackError ev f) w2 else w2)"

lemma run_listeners_plain_Cons:
  assumes "listeners w this ev = Some t" and "map_of t k = Some f"
  shows "run_listeners (plain_js thr) this ev args (k # ks) w =
     bnd (run_listeners (plain_js thr) this ev args ks (after_call thr this ev args k f t w)) (\<lambda>(n, w3). Inr (Suc n, w3))"
  using assms by (simp add: plain_js_def after_call_def Let_def)

lemma after_call_ok:
  assumes "emitter_ok w" and "listeners w this ev = Some t" and "events_of w this = Some es"
  shows "emitter_ok (after_call thr this ev args k f t w)"
  using assms delete_keeps[of "upd_fn f (\<lambda>x. x\<lparr>fn_once := False\<rparr>) w" this es ev t k]
  by (simp add: after_call_def Let_def)

lemma run_listeners_plain:
  assumes "emitter_ok w" and "events_of w this \<noteq> None" and "listeners w this ev = Some t" and "distinct ks" and "set ks \<subseteq> fst ` set t"
  shows "\<exists>w'. run_listeners (plain_js thr) this ev args ks w = Inr (length ks, w')
     \<and> w_log w' = fired this ev args thr (map (\<lambda>k. the (map_of t k)) ks) @ w_log w
     \<and> (\<forall>o' e. listeners w' o' e = (if o' = this \<and> e = ev
           then Some (filter (\<lambda>(i, f). \<not> (i \<in> set ks \<and> fn_once (w_fns w f))) t) else listeners w o' e))
     \<and> (\<forall>f. w_fns w' f = (if f \<in> (\<lambda>k. the (map_of t k)) ` set ks then (w_fns w f)\<lparr>fn_once := False\<rparr> else w_fns w f))"
  using assms
proof (induction ks arbitrary: w t)
  case Nil
  then show ?case by simp
next
  case (Cons k ks)
  obtain es where es: "events_of w this = Some es" using Cons.prems by auto
  have d: "distinct (map fst t)" using emitter_ok_table(1)[OF Cons.prems(1,3)] .
  obtain f where f: "map_of t k = Some f" using Cons.prems(5) by (cases "map_of t k") (auto simp: map_of_eq_None_iff)
  have only: "i = k \<longleftrightarrow> g = f" if "(i, g) \<in> set t" for i g
    using emitter_ok_table(2)[OF Cons.prems(1,3)] that map_of_SomeD[OF f] emitter_ok_id(2)[OF Cons.prems(1)]
    by (metis option.inject)
  let ?once = "fn_once (w_fns w f)"
  define t1 where "t1 = (if ?once then AList.delete k t else t)"
  define w2 where "w2 = after_call thr this ev args k f t w"
  have l2: "listeners w2 o' e = (if o' = this \<and> e = ev then Some t1 else listeners w o' e)" for o' e
    using Cons.prems(3) es by (auto simp: w2_def t1_def after_call_def Let_def listeners_put[where es = es])
  have fns2: "w_fns w2 = (w_fns w)(f := (w_fns w f)\<lparr>fn_once := False\<rparr>)"
    by (auto simp: w2_def after_call_def Let_def)
  have w2: "emitter_ok w2" "events_of w2 this \<noteq> None"
    "w_log w2 = (if thr f then [CallbackError ev f] else []) @ [Invoke f this ev args] @ w_log w"
    using after_call_ok[OF Cons.prems(1,3) es] es
    by (simp_all add: w2_def after_call_def Let_def events_of_put_listeners)
  have ks: "distinct ks" "k \<notin> set ks" using Cons.prems(4) by simp_all
  have "set ks \<subseteq> fst ` set t1" using Cons.prems(5) ks by (auto simp: t1_def AList.delete_eq image_iff) fastforce
  moreover have "listeners w2 this ev = Some t1" by (simp add: l2)
  ultimately obtain w' where w'': "run_listeners (plain_js thr) this ev args ks w2 = Inr (length ks, w')
     \<and> w_log w' = fired this ev args thr (map (\<lambda>k. the (map_of t1 k)) ks) @ w_log w2
     \<and> (\<forall>o' e. listeners w' o' e = (if o' = this \<and> e = ev
           then Some (filter (\<lambda>(i, f). \<not> (i \<in> set ks \<and> fn_once (w_fns w2 f))) t1) else listeners w2 o' e))
     \<and> (\<forall>f. w_fns w' f = (if f \<in> (\<lambda>k. the (map_of t1 k)) ` set ks then (w_fns w2 f)\<lparr>fn_once := False\<rparr> else w_fns w2 f))"
    using Cons.IH[OF w2(1,2) _ ks(1)] by blast
  have w': "run_listeners (plain_js thr) this ev args ks w2 = Inr (length ks, w')"
    "w_log w' = fired this ev args thr (map (\<lambda>k. the (map_of t1 k)) ks) @ w_log w2"
    using w'' by simp_all
  have l': "listeners w' o' e = (if o' = this \<and> e = ev
           then Some (filter (\<lambda>(i, f). \<not> (i \<in> set ks \<and> fn_once (w_fns w2 f))) t1) else listeners w o' e)" for o' e
    using w'' by (simp add: l2)
  have fns': "w_fns w' g = (if g \<in> (\<lambda>k. the (map_of t1 k)) ` set ks then (w_fns w2 g)\<lparr>fn_once := False\<rparr> else w_fns w2 g)" for g
    using w'' by blast
  have m: "map_of t1 j = map_of t j" if "j \<in> set ks" for j using that ks by (auto simp: t1_def delete_conv')
  have 1: "run_listeners (plain_js thr) this ev args (k # ks) w = Inr (length (k # ks), w')"
    using w'(1) by (simp only: run_listeners_plain_Cons[OF Cons.prems(3) f] w2_def[symmetric]) simp
  have 2: "map (\<lambda>k. the (map_of t1 k)) ks = map (\<lambda>k. the (map_of t k)) ks" using m by simp
  have 3: "filter (\<lambda>(i, f). \<not> (i \<in> set ks \<and> fn_once (w_fns w2 f))) t1
      = filter (\<lambda>(i, f). \<not> (i \<in> set (k # ks) \<and> fn_once (w_fns w f))) t"
  proof -
    have "filter (\<lambda>(i, f). \<not> (i \<in> set ks \<and> fn_once (w_fns w2 f))) t1
        = filter (\<lambda>p. \<not> (?once \<and> k = fst p) \<and> \<not> (fst p \<in> set ks \<and> fn_once (w_fns w2 (snd p)))) t"
      by (simp add: t1_def AList.delete_eq split_def conj_commute)
    also have "\<dots> = filter (\<lambda>(i, f). \<not> (i \<in> set (k # ks) \<and> fn_once (w_fns w f))) t"
    proof (rule filter_cong[OF refl], goal_cases)
      case (1 p)
      then show ?case using only[of "fst p" "snd p"] ks(2) by (cases "fst p = k") (auto simp: fns2 split_def)
    qed
    finally show ?thesis .
  qed
  have 4: "(\<lambda>k. the (map_of t1 k)) ` set ks = (\<lambda>k. the (map_of t k)) ` set ks" using m by (auto simp: image_iff)
  show ?case
  proof (intro exI conjI)
    show "w_log w' = fired this ev args thr (map (\<lambda>k. the (map_of t k)) (k # ks)) @ w_log w"
      unfolding w'(2) 2 w2(3) using f by simp
    show "\<forall>o' e. listeners w' o' e = (if o' = this \<and> e = ev
        then Some (filter (\<lambda>(i, f). \<not> (i \<in> set (k # ks) \<and> fn_once (w_fns w f))) t) else listeners w o' e)"
      unfolding 3[symmetric] using l' by blast
    show "\<forall>g. w_fns w' g = (if g \<in> (\<lambda>k. the (map_of t k)) ` set (k # ks) then (w_fns w g)\<lparr>fn_once := False\<rparr> else w_fns w g)"
      using fns' f unfolding 4 fns2 by auto
  qed (rule 1)
qed

lemma table_values: "distinct (map fst t) \<Longrightarrow> (\<lambda>k. the (map_of t k)) ` fst ` set t = snd ` set t"
  by (force simp: image_image intro!: image_cong)

lemma do_callback_plain:
  assumes "emitter_ok w" and "listeners w this ev = Some t" and "ev = ''error'' \<Longrightarrow> arg \<noteq> None"
    and "distinct (env_enum_int env (map fst t))" and "set (env_enum_int env (map fst t)) = fst ` set t"
  shows "\<exists>w'. iroh_do_callback env (plain_js thr) this ev arg w = Inr (Ret JUndefined, w')
     \<and> w_log w' = (if ev = ''error'' \<and> t = [] then [Uncaught (error_text (the arg))] else [])
         @ fired this ev (case arg of None \<Rightarrow> [] | Some v \<Rightarrow> if ev = ''error'' then [JErr (error_text v)] else [v]) thr
             (map (\<lambda>k. the (map_of t k)) (env_enum_int env (map fst t))) @ w_log w
     \<and> listeners w' this ev = Some (filter (\<lambda>(i, f). \<not> fn_once (w_fns w f)) t)
     \<and> (\<forall>f \<in> snd ` set t. \<not> fn_once (w_fns w' f))
     \<and> (\<forall>o' e. (o', e) \<noteq> (this, ev) \<longrightarrow> listeners w' o' e = listeners w o' e)"
proof -
  let ?args = "case arg of None \<Rightarrow> [] | Some v \<Rightarrow> if ev = ''error'' then [JErr (error_text v)] else [v]"
  let ?ks = "env_enum_int env (map fst t)"
  obtain es where es: "events_of w this = Some es" "map_of es ev = Some t"
    using assms(2) by (auto simp: listeners_def split: bind_splits)
  obtain w' where w': "run_listeners (plain_js thr) this ev ?args ?ks w = Inr (length ?ks, w')"
    "w_log w' = fired this ev ?args thr (map (\<lambda>k. the (map_of t k)) ?ks) @ w_log w"
    "\<forall>o' e. listeners w' o' e = (if o' = this \<and> e = ev
           then Some (filter (\<lambda>(i, f). \<not> (i \<in> set ?ks \<and> fn_once (w_fns w f))) t) else listeners w o' e)"
    "\<forall>f. w_fns w' f = (if f \<in> (\<lambda>k. the (map_of t k)) ` set ?ks then (w_fns w f)\<lparr>fn_once := False\<rparr> else w_fns w f)"
    using run_listeners_plain[OF assms(1) _ assms(2,4), of thr ?args] es(1) assms(5) by auto
  have len: "length ?ks = 0 \<longleftrightarrow> t = []" using assms(5) by auto
  have fs: "(\<lambda>k. the (map_of t k)) ` fst ` set t = snd ` set t"
    by (rule table_values[OF emitter_ok_table(1)[OF assms(1,2)]])
  have flt: "filter (\<lambda>(i, f). \<not> (i \<in> fst ` set t \<and> fn_once (w_fns w f))) t = filter (\<lambda>(i, f). \<not> fn_once (w_fns w f)) t"
    by (rule filter_cong) force+
  let ?w = "if ev = ''error'' \<and> t = [] then log (Uncaught (error_text (the arg))) w' else w'"
  have "iroh_do_callback env (plain_js thr) this ev arg w = Inr (Ret JUndefined, ?w)"
    using assms(3) es w'(1) len by (auto simp: iroh_do_callback_def Let_def)
  then show ?thesis
    using w'(2,3,4) fs flt by (intro exI[of _ ?w]) (auto simp: assms(5))
qed


definition two_listeners :: world where
  "two_listeners = one_emitter\<lparr>w_objs := [0 \<mapsto> empty_obj\<lparr>o_events := Some [(''data'', [(0, 7), (1, 8)])]\<rparr>],
      w_fns := (w_fns one_emitter)(7 := \<lparr>fn_evcb_id = Some 0, fn_once = True\<rparr>, 8 := \<lparr>fn_evcb_id = Some 1, fn_once = False\<rparr>),
      w_evcb_id := 2\<rparr>"

lemma two_listeners_simps:
  "emitter_ok two_listeners" "listeners two_listeners 0 ''data'' = Some [(0, 7), (1, 8)]"
  "fn_once (w_fns two_listeners 7)" "\<not> fn_once (w_fns two_listeners 8)" "w_log two_listeners = []"
  by (auto simp: two_listeners_def one_emitter_def emitter_ok_def events_of_def listeners_def boot_def
      split: if_splits option.splits bind_splits)


lemma run_listeners_plain_ok:
  "emitter_ok w \<Longrightarrow> run_listeners (plain_js thr) this ev args ks w = Inr (n, w') \<Longrightarrow> emitter_ok w'"
proof (induction ks arbitrary: w n)
  case (Cons k ks)
  show ?case
  proof (cases "Option.bind (listeners w this ev) (\<lambda>t. map_of t k)")
    case None
    with Cons show ?thesis by auto
  next
    case (Some f)
    then obtain t es where t: "listeners w this ev = Some t" "events_of w this = Some es" "map_of t k = Some f"
      by (auto simp: listeners_def split: bind_splits)
    from Cons.IH[OF after_call_ok[OF Cons.prems(1) t(1,2)]] Cons.prems(2) show ?thesis
      unfolding run_listeners_plain_Cons[OF t(1,3)] by (auto simp: bnd_eq_Inr)
  qed
qed simp

lemma do_callback_plain_ok:
  "emitter_ok w \<Longrightarrow> iroh_do_callback env (plain_js thr) this ev arg w = Inr (r, w') \<Longrightarrow> emitter_ok w'"
  by (auto simp: iroh_do_callback_def Let_def bnd_eq_Inr dest: run_listeners_plain_ok split: if_splits option.splits)



section \<open>One-shot callbacks\<close>

text \<open>
  C23: A stored one-shot callback comes out once: \<open>iroh_store_cb\<close> answers an id under which
  \<open>iroh_prep_cb\<close> finds the function with the object as \<open>this\<close>, the second time it finds
  nothing, and every other id answers as before. The id is not 0, the value that stands for no
  callback, until the 32-bit counter wraps around.
\<close>

theorem one_shot_roundtrip:
  assumes "w_ctxs w a = Some c" and "w_objs w (thisptr c) \<noteq> None"
  shows "\<exists>i w1 w2. iroh_store_cb a f w = Inr (i, w1) \<and> iroh_prep_cb a i w1 = Inr (Some (f, thisptr c), w2)
     \<and> iroh_prep_cb a i w2 = Inr (None, w2) \<and> (i = 0 \<longleftrightarrow> next_cb_id c = - 1)
     \<and> (\<forall>j. j \<noteq> i \<longrightarrow> map_sum id fst (iroh_prep_cb a j w2) = map_sum id fst (iroh_prep_cb a j w))"
proof -
  obtain ob where ob: "w_objs w (thisptr c) = Some ob" using assms(2) by auto
  have "next_cb_id c + 1 = 0 \<longleftrightarrow> next_cb_id c = - 1" by (simp add: eq_neg_iff_add_eq_0)
  then show ?thesis
    using assms(1) ob
    by (auto simp: iroh_store_cb_def iroh_prep_cb_def get_ctx_def put_ctx_def upd_obj_def Let_def split: option.split)
qed

theorem one_shot_roundtrip_witness:
  "\<exists>i w1 w2. iroh_store_cb 1 5 (one_ctx IROH_OBJ_DOCS (\<lambda>c. c) (\<lambda>r. r)) = Inr (i, w1) \<and> i \<noteq> 0
     \<and> iroh_prep_cb 1 i w1 = Inr (Some (5, 0), w2)"
  using one_shot_roundtrip[of "one_ctx IROH_OBJ_DOCS (\<lambda>c. c) (\<lambda>r. r)" 1 "zero_ctx 0 IROH_OBJ_DOCS None 0" 5]
  by (auto simp: one_ctx_def zero_ctx_def)

section \<open>Keys of the stash\<close>

fun digits_val :: "string \<Rightarrow> nat" where
  "digits_val [] = 0"
| "digits_val (c # cs) = (of_char c - 48) * 10 ^ length cs + digits_val cs"

lemma digits_val_append: "digits_val (xs @ ys) = digits_val xs * 10 ^ length ys + digits_val ys"
  by (induction xs) (simp_all add: algebra_simps power_add)

lemma digits_val_digits: "digits_val (digits n) = n"
proof (induction n rule: digits.induct)
  case (1 n)
  show ?case
  proof (cases "n < 10")
    case True
    then show ?thesis by (subst digits.simps) (simp add: of_char_of)
  next
    case False
    with 1 have "digits_val (digits n) = (n div 10) * 10 + (48 + n mod 10 - 48)"
      by (subst digits.simps) (simp add: digits_val_append of_char_of)
    then show ?thesis by simp
  qed
qed

lemma digits_no_sign: "CHR ''-'' \<notin> set (digits n)"
proof (induction n rule: digits.induct)
  case (1 n)
  have "CHR ''-'' \<noteq> char_of (48 + m)" if "m < 10" for m :: nat
  proof
    assume "CHR ''-'' = char_of (48 + m)"
    then have "(of_char CHR ''-'' :: nat) = of_char (char_of (48 + m) :: char)" by simp
    with that show False by simp
  qed
  with 1 show ?case by (subst digits.simps) auto
qed

lemma length_digits: "0 < k \<Longrightarrow> n < 10 ^ k \<Longrightarrow> length (digits n) \<le> k"
proof (induction k arbitrary: n)
  case (Suc k)
  show ?case
  proof (cases "n < 10")
    case True
    then show ?thesis by (subst digits.simps) simp
  next
    case False
    with Suc.prems have "0 < k" by (cases k) auto
    moreover have "n div 10 < 10 ^ k" using Suc.prems by (simp add: less_mult_imp_div_less mult.commute)
    ultimately show ?thesis using Suc.IH[of "n div 10"] False by (subst digits.simps) simp
  qed
qed simp

lemma keystr_inj: "keystr k = keystr l \<longleftrightarrow> k = l"
proof -
  have inj: "digits m = digits n \<longleftrightarrow> m = n" for m n using digits_val_digits by metis
  have neg: "digits m \<noteq> CHR ''-'' # xs" "CHR ''-'' # xs \<noteq> digits m" for m xs using digits_no_sign[of m] by (metis list.set_intros(1))+
  have "sint k = sint l" if "keystr k = keystr l"
    using that by (auto simp: keystr_def sprintf_d_def inj neg split: if_splits)
  then show ?thesis by (auto dest: signed_word_eqI)
qed


text \<open>
  C24: Protecting an object from collection and releasing it: after \<open>iroh_put_gs_object\<close> the object is
  found under its key, \<open>iroh_del_gs_object\<close> answers 1 and the key is free again, a second delete
  answers 0, and no other key is affected at any point.
\<close>

theorem stash_roundtrip:
  assumes "\<forall>j. w_stash w ''iroh_connkeymap'' \<noteq> Some (GsObj j)"
  shows "let w1 = gc_protect this key w in
     gs_lookup w1 key = Some this \<and> (\<forall>l. l \<noteq> key \<longrightarrow> gs_lookup w1 l = gs_lookup w l)
     \<and> (\<exists>w2. iroh_del_gs_object ''iroh_connkeymap'' (Some (keystr key)) w1 = (1, w2)
          \<and> gs_lookup w2 key = None \<and> (\<forall>l. l \<noteq> key \<longrightarrow> gs_lookup w2 l = gs_lookup w l)
          \<and> iroh_del_gs_object ''iroh_connkeymap'' (Some (keystr key)) w2 = (0, w2))"
proof -
  let ?n = "''iroh_connkeymap''"
  obtain m where m: "\<And>l. gs_lookup w l = m (keystr l)"
    "gc_protect this key w = w\<lparr>w_stash := (w_stash w)(?n \<mapsto> GsMap (m(keystr key \<mapsto> this)))\<rparr>"
  proof (cases "w_stash w ?n")
    case None
    then show ?thesis
      by (intro that[of Map.empty]) (simp_all add: gs_lookup_def gc_protect_def iroh_put_gs_object_def)
  next
    case (Some g)
    then obtain m where "w_stash w ?n = Some (GsMap m)" using assms by (cases g) auto
    then show ?thesis by (intro that[of m]) (simp_all add: gs_lookup_def gc_protect_def iroh_put_gs_object_def)
  qed
  let ?w2 = "w\<lparr>w_stash := (w_stash w)(?n \<mapsto> GsMap (m(keystr key := None)))\<rparr>"
  have "iroh_del_gs_object ?n (Some (keystr key)) (gc_protect this key w) = (1, ?w2)"
    "iroh_del_gs_object ?n (Some (keystr key)) ?w2 = (0, ?w2)"
    by (simp_all add: m(2) iroh_del_gs_object_def)
  moreover have "gs_lookup (gc_protect this key w) l = (if l = key then Some this else gs_lookup w l)"
    "gs_lookup ?w2 l = (if l = key then None else gs_lookup w l)" for l
    by (simp_all add: m(1)) (simp_all add: m(2) gs_lookup_def keystr_inj)
  ultimately show ?thesis by (simp add: Let_def)
qed

theorem stash_roundtrip_witness: "gs_lookup (gc_protect 3 9 boot) 9 = Some 3"
  using stash_roundtrip[of boot 3 9] by (simp add: Let_def boot_def)

end
