(* ===== verification/BridgeCorrect.thy ===== *)
theory BridgeCorrect
  imports Teardown Sample
begin

text \<open>
  Correctness of the async bridge: the pending table is a list, up to a bound that is computed
  here; releasing an operation takes out that operation and nothing else.
\<close>

section \<open>The pending table\<close>

text \<open>
  C6: The growable array behind \<open>pending_ops\<close>/\<open>npending\<close>/\<open>pending_alloc\<close> refines a list:
  appending an operation (\<open>iroh_start_async\<close>) appends to the list and leaves a well-formed array
  (or runs into the 16-bit bound), removing one (\<open>iroh_remove_pending\<close>, the search loop with its
  \<open>memmove\<close>) removes its first occurrence and keeps the array well-formed.
\<close>

theorem pending_table_refines_list:
  assumes "pending_ok c"
  shows "safe (push_pending p c) (\<lambda>c'. pending_ok c' \<and> pending c' = pending c @ [p])
     \<and> pending_ok (del_pending p c) \<and> pending (del_pending p c) = remove1 p (pending c)"
  using pt.add_safe[OF assms] pt.del_ok[OF assms] pt.tbl_del[OF assms] by simp

theorem pending_table_refines_list_witness:
  "let c = (zero_ctx 0 IROH_OBJ_ENDPOINT None 0)\<lparr>pending_ops := [5, 6, 7, 0], npending := 3, pending_alloc := 4\<rparr> in
   pending (del_pending 6 c) = [5, 7] \<and> safe (push_pending 8 c) (\<lambda>c'. pending c' = [5, 6, 7, 8])"
proof -
  let ?c = "(zero_ctx 0 IROH_OBJ_ENDPOINT None 0)\<lparr>pending_ops := [5, 6, 7, 0], npending := 3, pending_alloc := 4\<rparr>"
  have ok: "pending_ok ?c" and p: "pending ?c = [5, 6, 7]"
    by (simp_all add: pending_ok_def pending_def)
  show ?thesis
    using pending_table_refines_list[OF ok, of 6] pending_table_refines_list[OF ok, of 8] p
    by (auto simp: Let_def elim: safe_mono)
qed

text \<open>The capacity of a table that grew from empty while it held at most \<open>n\<close> operations.\<close>

definition grown :: "nat \<Rightarrow> RPIROH \<Rightarrow> bool" where
  "grown n c \<longleftrightarrow> pending_ok c \<and> unat (npending c) = n
     \<and> (unat (pending_alloc c) = 0 \<or> (\<exists>k \<le> 12. unat (pending_alloc c) = 8 * 2 ^ k))"

definition push_all :: "opaddr list \<Rightarrow> RPIROH \<Rightarrow> fault + RPIROH" where
  "push_all ps c = foldl (\<lambda>m p. bnd m (push_pending p)) (Inr c) ps"

lemma foldl_bnd_Inl: "foldl (\<lambda>m p. bnd m (f p)) (Inl e) ps = Inl e"
  by (induction ps) simp_all

lemma push_pending_alloc:
  "push_pending p c = Inr c' \<Longrightarrow> pending_alloc c' = pending_alloc (grow_pending c)"
  by (auto simp: push_pending_def Let_def split: if_splits)

lemma grown_push:
  assumes g: "grown n c" and n: "n < 32768"
  obtains c' where "push_pending p c = Inr c'" and "grown (Suc n) c'" and "pending c' = pending c @ [p]"
proof -
  have ok: "pending_ok c" using g by (simp add: grown_def)
  have no: "\<not> (npending c = pending_alloc c \<and> 32768 \<le> unat (npending c))" using g n by (simp add: grown_def)
  obtain xs m al where c': "push_pending p c = Inr (c\<lparr>pending_ops := xs, npending := m, pending_alloc := al\<rparr>)"
    "pending_ok (c\<lparr>pending_ops := xs, npending := m, pending_alloc := al\<rparr>)"
    "pending (c\<lparr>pending_ops := xs, npending := m, pending_alloc := al\<rparr>) = pending c @ [p]"
    by (rule push_pending_refines[OF ok no])
  let ?c = "c\<lparr>pending_ops := xs, npending := m, pending_alloc := al\<rparr>"
  have "unat (npending ?c) = Suc n"
    using length_pending[OF c'(2)] c'(3) length_pending[OF ok] g by (simp add: grown_def)
  moreover have "al = pending_alloc (grow_pending c)" using push_pending_alloc[OF c'(1)] by simp
  moreover have "unat (pending_alloc (grow_pending c)) = 0
      \<or> (\<exists>k \<le> 12. unat (pending_alloc (grow_pending c)) = 8 * 2 ^ k)"
  proof (cases "npending c \<ge> pending_alloc c")
    case False
    with g show ?thesis by (simp add: grow_pending_def grown_def)
  next
    case True
    with g have le: "unat (pending_alloc c) \<le> n" by (simp add: grown_def word_le_nat_alt)
    show ?thesis
    proof (cases "pending_alloc c = 0")
      case True
      with \<open>pending_alloc c \<le> npending c\<close> show ?thesis
        by (intro disjI2 exI[of _ 0]) (simp add: grow_pending_def unat_grow_alloc)
    next
      case False
      then obtain k where k: "k \<le> 12" "unat (pending_alloc c) = 8 * 2 ^ k"
        using g by (auto simp: grown_def unat_eq_zero)
      then have "(2::nat) ^ k < 2 ^ 12" using le n by simp
      then have "k < 12" by (rule power_less_imp_less_exp[rotated]) simp
      then show ?thesis
        using True False k le n by (intro disjI2 exI[of _ "Suc k"]) (simp add: grow_pending_def unat_grow_alloc)
    qed
  qed
  ultimately show ?thesis using c' by (intro that[OF c'(1)]) (simp_all add: grown_def)
qed

lemma grown_full:
  assumes "grown 32768 c"
  shows "push_pending p c = Inl PendingOverflow"
proof -
  have ok: "pending_ok c" "unat (npending c) = 32768" using assms by (simp_all add: grown_def)
  then have "32768 \<le> unat (pending_alloc c)" by (simp add: pending_ok_def)
  then obtain k where k: "k \<le> 12" "unat (pending_alloc c) = 8 * 2 ^ k" using assms by (auto simp: grown_def)
  moreover have "(2::nat) ^ k \<le> 2 ^ 12" using k(1) by (intro power_increasing) simp_all
  ultimately have "unat (pending_alloc c) = 32768" using \<open>32768 \<le> unat (pending_alloc c)\<close> by simp
  then show ?thesis using ok push_pending_overflow[OF ok(1), of p] by (simp add: word_unat_eq_iff)
qed

lemma push_all_grown_bound:
  assumes "grown n c"
  shows "n \<le> 32768"
proof -
  have "(2::nat) ^ k \<le> 2 ^ 12" if "k \<le> 12" for k :: nat using that by (intro power_increasing) simp_all
  with assms show ?thesis by (fastforce simp: grown_def pending_ok_def)
qed

lemma push_all_grown:
  assumes "grown n c"
  shows "if n + length ps \<le> 32768
    then \<exists>c'. push_all ps c = Inr c' \<and> grown (n + length ps) c' \<and> pending c' = pending c @ ps
    else push_all ps c = Inl PendingOverflow"
  using assms
proof (induction ps arbitrary: c n)
  case Nil
  with push_all_grown_bound[of n c] show ?case by (simp add: push_all_def)
next
  case (Cons p ps)
  show ?case
  proof (cases "n < 32768")
    case True
    obtain c' where c': "push_pending p c = Inr c'" "grown (Suc n) c'" "pending c' = pending c @ [p]"
      using grown_push[OF Cons.prems True] .
    have "push_all (p # ps) c = push_all ps c'" using c'(1) by (simp add: push_all_def)
    with Cons.IH[OF c'(2)] c'(3) show ?thesis by auto
  next
    case False
    have "n = 32768" using push_all_grown_bound[OF Cons.prems] False by simp
    then show ?thesis using grown_full Cons.prems by (simp add: push_all_def foldl_bnd_Inl)
  qed
qed

text \<open>
  C15: The bound of the pending table: filling the table of a fresh context succeeds, and holds exactly
  the operations in order, up to 32768 of them; with one more the doubled 16-bit capacity wraps to
  0 and the write goes past the end of the array.
\<close>

theorem pending_table_bound:
  "if length ps \<le> 32768
   then \<exists>c. push_all ps (zero_ctx this ty par key) = Inr c \<and> pending_ok c \<and> pending c = ps
   else push_all ps (zero_ctx this ty par key) = Inl PendingOverflow"
proof -
  have "grown 0 (zero_ctx this ty par key)" by (simp add: grown_def pending_ok_def zero_ctx_def)
  from push_all_grown[OF this, of ps] show ?thesis by (auto simp: grown_def pending_def zero_ctx_def split: if_splits)
qed

section \<open>Starting an operation\<close>

lemma start_async_event:
  assumes c: "w_ctxs w a = Some c" "pending_ok c" "length (pending c) < 32768"
    and h: "r_handles (w_rust w) h = Some ah" "h_cref ah" "0 \<le> h_read_fd ah" and ev: "env_event_new env (w_next w)"
  obtains w' c' where "iroh_start_async env a (Some h) op aux w = Inr (Some (w_next w), w')"
    and "w_ops w' = (w_ops w)(w_next w \<mapsto> \<lparr>aop_ictx = a, aop_handle = Some h, aop_op = op, aop_ev = Some (w_next w), aop_aux = aux\<rparr>)"
    and "w_evs w' = (w_evs w)(w_next w := True)" and "w_next w < w_next w'" and "w_ctxs w' = (w_ctxs w)(a \<mapsto> c')"
    and "pending_ok c'" and "pending c' = pending c @ [w_next w]" and "flags c' = flags c"
    and "w_rust w' = w_rust w" and "w_objs w' = w_objs w"
proof -
  have room: "\<not> (npending c = pending_alloc c \<and> 32768 \<le> unat (npending c))"
    using c(3) length_pending[OF c(2)] by simp
  obtain xs n al where c': "push_pending (w_next w) c = Inr (c\<lparr>pending_ops := xs, npending := n, pending_alloc := al\<rparr>)"
    "pending_ok (c\<lparr>pending_ops := xs, npending := n, pending_alloc := al\<rparr>)"
    "pending (c\<lparr>pending_ops := xs, npending := n, pending_alloc := al\<rparr>) = pending c @ [w_next w]"
    by (rule push_pending_refines[OF c(2) room])
  have fd: "iroh_async_get_fd (w_rust w) (Some h) = Inr (h_read_fd ah)"
    using h by (simp add: iroh_async_get_fd_def get_handle_def)
  obtain w' where w': "iroh_start_async env a (Some h) op aux w = Inr (Some (w_next w), w')"
    "w' = put_ctx a (c\<lparr>pending_ops := xs, npending := n, pending_alloc := al\<rparr>)
       (w\<lparr>w_next := Suc (w_next w), w_ops := (w_ops w)(w_next w \<mapsto> \<lparr>aop_ictx = a, aop_handle = Some h, aop_op = op,
          aop_ev = Some (w_next w), aop_aux = aux\<rparr>), w_evs := (w_evs w)(w_next w := True)\<rparr>)"
    using c(1) h(3) fd c'(1) ev by (simp add: iroh_start_async_def get_ctx_def Let_def)
  show ?thesis by (rule that[OF w'(1), where c' = "c\<lparr>pending_ops := xs, npending := n, pending_alloc := al\<rparr>"])
    (use c' in \<open>simp_all add: w'(2) put_ctx_def\<close>)
qed

lemma start_async_no_event:
  assumes c: "w_ctxs w a = Some c" and h: "r_handles (w_rust w) h = Some ah" "h_cref ah"
    and ev: "h_read_fd ah < 0 \<or> \<not> env_event_new env (w_next w)"
  obtains w' where "iroh_start_async env a (Some h) op aux w = Inr (None, w')"
    and "w_ops w' = w_ops w" and "w_evs w' = w_evs w" and "w_ctxs w' = w_ctxs w" and "w_objs w' = w_objs w"
    and "get_handle (w_rust w') h = Inl UseAfterFree"
proof -
  have fd: "iroh_async_get_fd (w_rust w) (Some h) = Inr (h_read_fd ah)"
    using h by (simp add: iroh_async_get_fd_def get_handle_def)
  then show ?thesis
    using c h ev that by (cases "h_read_fd ah < 0")
      (simp_all add: iroh_start_async_def get_ctx_def in_rust'_def iroh_async_free_def get_handle_def Let_def)
qed

text \<open>
  C17: Starting an operation on a handle with a usable descriptor and a table with room: if libevent
  gives an event, the new operation is recorded with that event, appended to the table of its
  context, and nothing else changes; if not, the handle is given back, so that it cannot be used
  again, and no operation, event or context changes. A NULL handle changes nothing.
\<close>

theorem start_async_outcome:
  assumes c: "w_ctxs w a = Some c" "pending_ok c" "length (pending c) < 32768"
    and h: "r_handles (w_rust w) h = Some ah" "h_cref ah" "0 \<le> h_read_fd ah"
  shows "iroh_start_async env a None op aux w = Inr (None, w)
     \<and> (if env_event_new env (w_next w) then
          \<exists>w' c'. iroh_start_async env a (Some h) op aux w = Inr (Some (w_next w), w')
            \<and> w_ops w' = (w_ops w)(w_next w \<mapsto> \<lparr>aop_ictx = a, aop_handle = Some h, aop_op = op,
                aop_ev = Some (w_next w), aop_aux = aux\<rparr>)
            \<and> w_evs w' = (w_evs w)(w_next w := True) \<and> w_next w < w_next w'
            \<and> w_ctxs w' = (w_ctxs w)(a \<mapsto> c') \<and> pending_ok c' \<and> pending c' = pending c @ [w_next w]
            \<and> w_rust w' = w_rust w \<and> w_objs w' = w_objs w
        else
          \<exists>w'. iroh_start_async env a (Some h) op aux w = Inr (None, w')
            \<and> w_ops w' = w_ops w \<and> w_evs w' = w_evs w \<and> w_ctxs w' = w_ctxs w \<and> w_objs w' = w_objs w
            \<and> get_handle (w_rust w') h = Inl UseAfterFree)"
proof (cases "env_event_new env (w_next w)")
  case True
  moreover obtain w' c' where "iroh_start_async env a (Some h) op aux w = Inr (Some (w_next w), w')"
    "w_ops w' = (w_ops w)(w_next w \<mapsto> \<lparr>aop_ictx = a, aop_handle = Some h, aop_op = op, aop_ev = Some (w_next w), aop_aux = aux\<rparr>)"
    "w_evs w' = (w_evs w)(w_next w := True)" "w_next w < w_next w'" "w_ctxs w' = (w_ctxs w)(a \<mapsto> c')"
    "pending_ok c'" "pending c' = pending c @ [w_next w]" "w_rust w' = w_rust w" "w_objs w' = w_objs w"
    using start_async_event[OF c h True] .
  moreover have "iroh_start_async env a None op aux w = Inr (None, w)" by (simp add: iroh_start_async_def)
  ultimately show ?thesis by auto
next
  case False
  then obtain w' where "iroh_start_async env a (Some h) op aux w = Inr (None, w')" "w_ops w' = w_ops w"
    "w_evs w' = w_evs w" "w_ctxs w' = w_ctxs w" "w_objs w' = w_objs w" "get_handle (w_rust w') h = Inl UseAfterFree"
    using start_async_no_event[OF c(1) h(1,2)] by blast
  moreover have "iroh_start_async env a None op aux w = Inr (None, w)" by (simp add: iroh_start_async_def)
  ultimately show ?thesis using False by auto
qed

section \<open>An example state\<close>

text \<open>A docs object with one operation in flight.\<close>

definition one_op :: world where
  "one_op = (one_ctx IROH_OBJ_DOCS
       (\<lambda>c. c\<lparr>docs_p := Some 0, pending_ops := [2, 0, 0, 0, 0, 0, 0, 0], npending := 1, pending_alloc := 8\<rparr>)
       (\<lambda>r. r\<lparr>r_handles := [1 \<mapsto> handle_new 1 (RqCreateAuthor 0)], r_res := [0 \<mapsto> KDocs], r_next := 2\<rparr>))
     \<lparr>w_ops := [2 \<mapsto> \<lparr>aop_ictx = 1, aop_handle = Some 1, aop_op = IROH_OP_DOCS_CREATE_AUTHOR, aop_ev = Some 2, aop_aux = 0\<rparr>],
      w_evs := (\<lambda>p. p = 2), w_next := 3\<rparr>"

lemma res_of_Some:
  "res_of c i = Some x \<longleftrightarrow>
     i = KEndpoint \<and> endpoint c = Some x \<or> i = KConnection \<and> conn_p c = Some x \<or> i = KSendStream \<and> send_p c = Some x
     \<or> i = KRecvStream \<and> recv_p c = Some x \<or> i = KGossip \<and> gossip_p c = Some x \<or> i = KGossipTopic \<and> topic_handle c = Some x
     \<or> i = KBlobStore \<and> blob_store c = Some x \<or> i = KBlobsProtocol \<and> blobs_proto c = Some x
     \<or> i = KDocs \<and> docs_p c = Some x \<or> i = KRouter \<and> router c = Some x"
  by (cases i) auto

lemma res_of_None:
  "res_of c i = None \<longleftrightarrow>
     (i = KEndpoint \<longrightarrow> endpoint c = None) \<and> (i = KConnection \<longrightarrow> conn_p c = None) \<and> (i = KSendStream \<longrightarrow> send_p c = None)
     \<and> (i = KRecvStream \<longrightarrow> recv_p c = None) \<and> (i = KGossip \<longrightarrow> gossip_p c = None) \<and> (i = KGossipTopic \<longrightarrow> topic_handle c = None)
     \<and> (i = KBlobStore \<longrightarrow> blob_store c = None) \<and> (i = KBlobsProtocol \<longrightarrow> blobs_proto c = None)
     \<and> (i = KDocs \<longrightarrow> docs_p c = None) \<and> (i = KRouter \<longrightarrow> router c = None)"
  by (cases i) auto

text \<open>What unfolds the invariant of a state written out in full.\<close>

lemmas Inv_concrete =
  one_ctx_def boot_def zero_ctx_def handle_new_def empty_obj_def Inv_def VInv_parts view_def oview_def core_def
  ctx_ok_def op_ok_def pending_def pending_ok_def RInv_def rfresh_def tasks_ok_def handle_live_def res_of_Some
  res_of_None has_flag_def stable_def works_on_def attended_def

lemma Inv_one_op: "Inv one_op"
  by (auto simp: one_op_def Inv_concrete split: if_splits)

lemma one_op_simps:
  "w_ops one_op 2 = Some \<lparr>aop_ictx = 1, aop_handle = Some 1, aop_op = IROH_OP_DOCS_CREATE_AUTHOR, aop_ev = Some 2, aop_aux = 0\<rparr>"
  "\<exists>c. w_ctxs one_op 1 = Some c \<and> pending_ok c \<and> pending c = [2] \<and> \<not> has_flag (flags c) RPIROH_FLAG_CLOSED \<and> docs_p c = Some 0
     \<and> obj_type c = IROH_OBJ_DOCS"
  "r_handles (w_rust one_op) 1 = Some (handle_new 1 (RqCreateAuthor 0))" "w_next one_op = 3"
  by (simp_all add: one_op_def one_ctx_def zero_ctx_def pending_ok_def pending_def boot_def)

theorem start_async_outcome_witness:
  "\<exists>w'. iroh_start_async sample_env 1 (Some 1) IROH_OP_DOCS_CREATE_DOC 0 one_op = Inr (Some 3, w') \<and> w_evs w' 3"
proof -
  obtain c where c: "w_ctxs one_op 1 = Some c" "pending_ok c" "pending c = [2]" using one_op_simps(2) by blast
  have "length (pending c) < 32768" by (simp add: c(3))
  from start_async_outcome[OF c(1,2) this one_op_simps(3), of sample_env IROH_OP_DOCS_CREATE_DOC 0] one_op_simps(4)
  show ?thesis by (auto simp: handle_new_def)
qed

section \<open>Releasing operations\<close>

text \<open>
  C16: Releasing an operation takes out exactly that operation: its struct, its event and its entry in
  the pending table of its context are gone, its handle is given back, the other tables, operations,
  events, Rust objects and JavaScript objects are as before; a second release would be a use after
  free.
\<close>

theorem free_async_op_exact:
  assumes inv: "Inv w" and x: "w_ops w p = Some x"
  shows "\<exists>w' h. iroh_free_async_op p w = Inr w' \<and> Inv w' \<and> aop_handle x = Some h
     \<and> w_ops w' = (w_ops w)(p := None) \<and> w_evs w' = (w_evs w)(p := False)
     \<and> (\<forall>a. map_option pending (w_ctxs w' a) =
          map_option (if a = aop_ictx x then remove1 p \<circ> pending else pending) (w_ctxs w a))
     \<and> get_handle (w_rust w') h = Inl UseAfterFree \<and> r_res (w_rust w') = r_res (w_rust w)
     \<and> r_tmp (w_rust w') = r_tmp (w_rust w) \<and> w_objs w' = w_objs w
     \<and> iroh_free_async_op p w' = Inl UseAfterFree"
proof (rule free_async_op_view[OF assms])
  fix w' c h ah
  assume f: "iroh_free_async_op p w = Inr w'" and c: "w_ctxs w (aop_ictx x) = Some c" and h: "aop_handle x = Some h"
    and ah: "r_handles (w_rust w) h = Some ah"
    and v: "view w' = (view w)\<lparr>vc := (vc (view w))(aop_ictx x \<mapsto> (core c)\<lparr>v_pend := remove1 p (pending c)\<rparr>),
      vo := (w_ops w)(p := None), ve := (w_evs w)(p := False), vr := put_handle h (ah\<lparr>h_cref := False\<rparr>) (w_rust w)\<rparr>"
    and o: "w_objs w' = w_objs w" and r: "w_rust w' = put_handle h (ah\<lparr>h_cref := False\<rparr>) (w_rust w)"
  have i: "Inv w'" using free_async_op_good[OF assms] f by simp
  have ops: "w_ops w' = (w_ops w)(p := None)" and evs: "w_evs w' = (w_evs w)(p := False)"
    using arg_cong[OF v, of vo] arg_cong[OF v, of ve] by simp_all
  have "map_option pending (w_ctxs w' a) = map_option (if a = aop_ictx x then remove1 p \<circ> pending else pending) (w_ctxs w a)" for a
  proof -
    have "map_option v_pend (vc (view w') a) =
        map_option v_pend (((vc (view w))(aop_ictx x \<mapsto> (core c)\<lparr>v_pend := remove1 p (pending c)\<rparr>)) a)"
      unfolding v by simp
    moreover have "map_option v_pend (map_option core y) = map_option pending y" for y
      by (simp add: option.map_comp comp_def core_def)
    ultimately show ?thesis using c by (auto split: if_splits)
  qed
  with f i h o r ops evs show ?thesis
    by (intro exI[of _ w'] exI[of _ h]) (simp add: get_handle_def iroh_free_async_op_def get_op_def)
qed

theorem free_async_op_exact_witness:
  "\<exists>w' h. iroh_free_async_op 2 one_op = Inr w' \<and> w_ops w' 2 = None \<and> get_handle (w_rust w') h = Inl UseAfterFree"
  using free_async_op_exact[OF Inv_one_op one_op_simps(1)] by auto

lemma del_stash:
  assumes "\<forall>j. w_stash w ''iroh_connkeymap'' \<noteq> Some (GsObj j)"
  obtains s where "snd (iroh_del_gs_object ''iroh_connkeymap'' (Some (keystr k)) w) = w\<lparr>w_stash := s\<rparr>"
    and "gs_lookup (w\<lparr>w_stash := s\<rparr>) k = None"
proof (cases "w_stash w ''iroh_connkeymap''")
  case None
  then show ?thesis by (intro that[of "w_stash w"]) (simp_all add: iroh_del_gs_object_def gs_lookup_def)
next
  case (Some g)
  then obtain m where m: "w_stash w ''iroh_connkeymap'' = Some (GsMap m)" using assms by (cases g) auto
  show ?thesis
  proof (cases "m (keystr k)")
    case None
    with m show ?thesis by (intro that[of "w_stash w"]) (simp_all add: iroh_del_gs_object_def gs_lookup_def)
  next
    case (Some i)
    with m show ?thesis
      by (intro that[of "(w_stash w)(''iroh_connkeymap'' := Some (GsMap (m(keystr k := None))))"])
        (simp_all add: iroh_del_gs_object_def gs_lookup_def)
  qed
qed

text \<open>\<open>iroh_cleanup\<close> without its \<open>close\<close> event.\<close>

lemma cleanup_quiet:
  fixes env :: "'e env_scheme"
  assumes inv: "Inv w" and c: "w_ctxs w a = Some c" "\<not> has_flag (flags c) RPIROH_FLAG_CLOSED"
    and st: "\<forall>j. w_stash w ''iroh_connkeymap'' \<noteq> Some (GsObj j)"
  shows "\<exists>w'. iroh_cleanup env js (Some a) False w = Inr (Ret JUndefined, w') \<and> w_ctxs w' = (w_ctxs w)(a := None)
     \<and> w_ops w' = (\<lambda>p. if p \<in> set (pending c) then None else w_ops w p)
     \<and> w_evs w' = (\<lambda>p. p \<notin> set (pending c) \<and> w_evs w p)
     \<and> r_res (w_rust w') = (\<lambda>x. if Some x \<in> snd ` set (owned c) then None else r_res (w_rust w) x)
     \<and> this_ictx w' (thisptr c) = None \<and> get_prop w' (JObj (thisptr c)) ''closed'' = Some (JBool True)
     \<and> gs_lookup w' (thiskey c) = None"
proof -
  have can: "cancellable (pending c) w" by (rule cancellable_pending[OF inv c(1)])
  have res: "\<And>i x. res_of c i = Some x \<Longrightarrow> i \<in> kinds (obj_type c) \<Longrightarrow> r_res (w_rust w) x = Some i"
    using Inv_res_kind[OF inv c(1)] by blast
  obtain r where r: "cancelled (pending c) w r"
    and eq: "\<And>(env :: 'e env_scheme) js docb. iroh_cleanup env js (Some a) docb w = cleanup_end env js a (thisptr c) docb
        (cleaned a c (r\<lparr>r_res := (\<lambda>x. if Some x \<in> snd ` set (owned c) then None else r_res r x)\<rparr>) w)"
    by (rule cleanup_eq[OF c can res]) blast+
  let ?r = "r\<lparr>r_res := (\<lambda>x. if Some x \<in> snd ` set (owned c) then None else r_res r x)\<rparr>"
  let ?w0 = "put_ctx a (closed_ctx c) ((upd_obj (thisptr c) (\<lambda>ob. ob\<lparr>o_ictx := None\<rparr>)
        (put_prop (thisptr c) ''closed'' (JBool True) w))
      \<lparr>w_evs := (\<lambda>p. p \<notin> set (pending c) \<and> w_evs w p),
       w_ops := (\<lambda>p. if p \<in> set (pending c) then None else w_ops w p), w_rust := ?r\<rparr>)"
  have "\<forall>j. w_stash ?w0 ''iroh_connkeymap'' \<noteq> Some (GsObj j)"
    using st by (simp add: put_ctx_def upd_obj_def put_prop_def)
  then obtain s where s: "cleaned a c ?r w = ?w0\<lparr>w_stash := s\<rparr>" "gs_lookup (?w0\<lparr>w_stash := s\<rparr>) (thiskey c) = None"
    unfolding cleaned_def by (rule del_stash)
  obtain ob where ob: "w_objs w (thisptr c) = Some ob"
    using Inv_ctx[OF inv c(1)] by (auto simp: ctx_ok_def core_def)
  let ?w' = "?w0\<lparr>w_stash := s, w_ctxs := (w_ctxs w)(a := None)\<rparr>"
  have "iroh_cleanup env js (Some a) False w = Inr (Ret JUndefined, ?w')"
    unfolding eq s(1) by (simp add: cleanup_end_def free_ctx_def put_ctx_def)
  moreover have "r_res r = r_res (w_rust w)" using r by (simp add: cancelled_def)
  ultimately show ?thesis
    using s(2) ob by (intro exI[of _ ?w']) (simp add: this_ictx_def get_prop_def upd_obj_def put_prop_def update_conv'
        gs_lookup_def put_ctx_def cong: if_cong)
qed



end
