(* ===== verification/ValueCorrect.thy ===== *)
theory ValueCorrect
  imports ServiceMethods Sample
begin

text \<open>
  Values that cross the boundary between JavaScript, C and Rust: endpoint addresses, results of
  tasks, the options of an endpoint, the entries of a document, the arguments of the exported
  functions, and the initialisation of the module.
\<close>

section \<open>Addresses\<close>



section \<open>Results of tasks\<close>

text \<open>
  C28: The combined result of creating docs is split over three getters, each of which hands out a new
  object of its kind, provided they are called in the order of the handler; called first, the
  router getter answers NULL and destroys the result, so that the other two answer NULL too.
\<close>

theorem docs_result_split:
  assumes "get_handle r h = Inr ah" and "h_state ah = Ready" and "h_result ah = Some ADocsWithRouter"
  shows "(\<exists>d s ro r1 r2 r3. iroh_docs_from_router_result r (Some h) = Inr (Some d, r1)
       \<and> iroh_blobs_store_from_docs_result r1 (Some h) = Inr (Some s, r2)
       \<and> iroh_router_from_docs_result r2 (Some h) = Inr (Some ro, r3)
       \<and> distinct [d, s, ro] \<and> r_res r3 = (r_res r)(d \<mapsto> KDocs, s \<mapsto> KBlobStore, ro \<mapsto> KRouter))
     \<and> (\<exists>r1 r2 r3. iroh_router_from_docs_result r (Some h) = Inr (None, r1)
       \<and> iroh_docs_from_router_result r1 (Some h) = Inr (None, r2)
       \<and> iroh_blobs_store_from_docs_result r2 (Some h) = Inr (None, r3) \<and> r_res r3 = r_res r)"
proof -
  have "r_handles r h = Some ah" "h_cref ah"
    using assms(1) by (auto simp: get_handle_def split: option.splits if_splits)
  with assms(2,3) show ?thesis
    by (simp add: iroh_docs_from_router_result_def iroh_blobs_store_from_docs_result_def iroh_router_from_docs_result_def
        split_boxed_def take_boxed_def take_result_def get_handle_def put_handle_def box_into_raw_def bnd_def)
qed

theorem docs_result_split_witness:
  "\<exists>d r1. iroh_docs_from_router_result ((w_rust boot)\<lparr>r_handles := [4 \<mapsto> complete_with_result ADocsWithRouter
       (handle_new 3 (RqDocsCreate 0 None))], r_next := 5\<rparr>) (Some 4) = Inr (Some d, r1)"
  using docs_result_split[of "(w_rust boot)\<lparr>r_handles := [4 \<mapsto> complete_with_result ADocsWithRouter
       (handle_new 3 (RqDocsCreate 0 None))], r_next := 5\<rparr>" 4]
  by (auto simp: get_handle_def complete_with_result_def handle_new_def)

text \<open>
  C33: A cancelled operation can still deliver: when the task finishes after \<open>iroh_async_cancel\<close>, the
  state C polls is that of the completion, not \<open>Cancelled\<close>, and the result is there to be taken.
\<close>

theorem cancel_is_overwritten:
  assumes "get_handle r h = Inr ah" and "\<forall>x \<in> set (task_borrows (h_req ah)). r_res r x \<noteq> None"
  shows "\<exists>r1 r2. iroh_async_cancel r (Some h) = Inr r1 \<and> iroh_async_poll r1 (Some h) = Inr Cancelled
     \<and> task_complete r1 h (Inr v) = Inr r2 \<and> iroh_async_poll r2 (Some h) = Inr Ready
     \<and> map_sum id fst (take_result Some r2 h) = Inr (Some v)"
proof -
  have "r_handles r h = Some ah" "h_cref ah"
    using assms(1) by (auto simp: get_handle_def split: option.splits if_splits)
  with assms(2) show ?thesis
    by (simp add: iroh_async_cancel_def iroh_async_poll_def task_complete_def take_result_def get_handle_def put_handle_def
        complete_with_result_def list_all_iff)
qed

theorem cancel_is_overwritten_witness:
  "\<exists>r1 r2. iroh_async_cancel ((w_rust boot)\<lparr>r_handles := [4 \<mapsto> handle_new 3 (RqEndpointCreate iroh_endpoint_config_default)]\<rparr>)
     (Some 4) = Inr r1 \<and> task_complete r1 4 (Inr AEndpoint) = Inr r2 \<and> iroh_async_poll r2 (Some 4) = Inr Ready"
  using cancel_is_overwritten[of "(w_rust boot)\<lparr>r_handles := [4 \<mapsto> handle_new 3 (RqEndpointCreate iroh_endpoint_config_default)]\<rparr>"
      4 _ AEndpoint] by (auto simp: get_handle_def handle_new_def)

section \<open>Options of an endpoint\<close>

definition key_of :: "bytes \<Rightarrow> bytes option" where
  "key_of b = (if length b = 32 then Some b else None)"

lemmas config_setters = iroh_endpoint_config_add_alpn_def iroh_endpoint_config_secret_key_bytes_def
  iroh_endpoint_config_relay_url_def iroh_endpoint_config_bind_port_def iroh_endpoint_config_max_idle_timeout_def

lemma add_alpns:
  "fold (\<lambda>s cf. iroh_endpoint_config_add_alpn cf s) ss cf = cf\<lparr>alpns := alpns cf @ ss\<rparr>"
  by (induction ss arbitrary: cf) (simp_all add: iroh_endpoint_config_add_alpn_def)

lemma opt_alpn_eq:
  "opt_alpn w opts cf = cf\<lparr>alpns := alpns cf @ (case get_prop w opts ''alpn'' of Some (JStr s) \<Rightarrow> [c_str s]
     | Some v \<Rightarrow> (case array_of w v of None \<Rightarrow> [] | Some vs \<Rightarrow> str_elems vs) | None \<Rightarrow> [])\<rparr>"
  using add_alpns by (auto simp: opt_alpn_def iroh_endpoint_config_add_alpn_def split: option.split jsval.split)

lemma opt_secret_key_eq:
  "opt_secret_key env w opts cf = Inr cf' \<Longrightarrow> secret_key cf = None \<Longrightarrow>
     cf' = cf\<lparr>secret_key := (case get_prop w opts ''secretKey'' of Some (JBuf b) \<Rightarrow> key_of b
        | Some (JStr s) \<Rightarrow> (case env_hex_to_buf env s of Inl _ \<Rightarrow> None | Inr b \<Rightarrow> key_of b) | _ \<Rightarrow> None)\<rparr>"
  by (auto simp: opt_secret_key_def config_setters key_of_def split: option.splits jsval.splits sum.splits if_splits)

lemma opt_port_eq:
  "opt_port env w opts cf = cf\<lparr>bind_port := (case get_prop w opts ''port'' of None \<Rightarrow> bind_port cf
     | Some v \<Rightarrow> (let p = ucast (env_get_uint env v) in if p = 0 then None else Some p))\<rparr>"
  by (simp add: opt_port_def config_setters Let_def split: option.split)

lemma uint_ucast_port: "uint (ucast (x :: u32) :: u16) = uint x mod 65536"
  by (simp add: unsigned_ucast_eq take_bit_eq_mod)



section \<open>Entries of a document\<close>

lemma map_of_fold_update:
  "map_of (fold (\<lambda>(k, d) ob. AList.update k (f d) ob) ps al) k =
     (case map_of (rev ps) k of None \<Rightarrow> map_of al k | Some d \<Rightarrow> Some (f d))"
  by (induction ps arbitrary: al) (auto simp: update_conv' map_add_def split: option.splits)


section \<open>Peers of a topic\<close>



section \<open>Exported functions\<close>

text \<open>
  C27: The number of arguments each exported function is registered with covers every argument its C
  function reads: cutting a call's arguments down to that number, as Duktape does, does not change
  what the call does.
\<close>

theorem declared_arity_suffices:
  assumes "(name, fn, Some n) \<in> set (module_table @ endpoint_proto @ conn_proto @ stream_proto @ topic_proto @ gossip_proto
      @ blobs_proto_tbl @ docs_proto)"
  shows "iroh_call env js fn ctor this (take n as) w = iroh_call env js fn ctor this as w"
proof -
  have a: "nth_arg (take m as) i = (if i < m then nth_arg as i else JUndefined)" for m i by (auto simp: nth_arg_def)
  show ?thesis
    using assms
    by (auto simp: module_table_def endpoint_proto_def conn_proto_def stream_proto_def topic_proto_def gossip_proto_def
        blobs_proto_tbl_def docs_proto_def iroh_add_emitter_methods_def a simp del: take.simps take_Suc_Cons)
qed

theorem declared_arity_suffices_witness:
  "iroh_call sample_env (\<lambda>w _ _ _. Inr (False, w)) F_stream_write False 0 (take 1 [JStr ''a'', JNull]) one_emitter
     = iroh_call sample_env (\<lambda>w _ _ _. Inr (False, w)) F_stream_write False 0 [JStr ''a'', JNull] one_emitter"
  by (rule declared_arity_suffices[of "''write''"]) (simp add: stream_proto_def iroh_add_emitter_methods_def)

section \<open>Loading the module\<close>

text \<open>
  C31: Loading the module: the runtime is created by the first load that succeeds; later loads return
  the same table of constructors and change nothing; a load that fails says why, leaves the module
  uninitialised, and a later load can still succeed.
\<close>

theorem module_load:
  assumes "\<not> w_is_init w" and "\<not> r_runtime (w_rust w)"
  shows "case env_runtime_new env of
       None \<Rightarrow> \<exists>w1. duk_open_module env w = (Inr module_table, w1) \<and> w_is_init w1 \<and> r_runtime (w_rust w1)
         \<and> (\<forall>env' :: 'e env_scheme. duk_open_module env' w1 = (Inr module_table, w1))
     | Some e \<Rightarrow> \<exists>w1. duk_open_module env w = (Inl (''Failed to initialize iroh: '' @
           or_default (cstring_new (''Failed to create runtime: '' @ e)) ''unknown error''), w1)
         \<and> \<not> w_is_init w1 \<and> \<not> r_runtime (w_rust w1)
         \<and> (\<forall>env' :: 'e env_scheme. env_runtime_new env' = None \<longrightarrow> fst (duk_open_module env' w1) = Inr module_table)"
  using assms
  by (auto simp: duk_open_module_def iroh_init_def set_last_error_def iroh_last_error_def split: option.split)

theorem module_load_witness: "\<exists>w1. duk_open_module sample_env boot = (Inr module_table, w1) \<and> w_is_init w1"
  using module_load[of boot sample_env] by (auto simp: boot_def)

end
