(* ===== verification/StreamCorrect.thy ===== *)
theory StreamCorrect
  imports System EmitterCorrect BridgeCorrect
begin

text \<open>
  What a stream does with data: bytes that arrive reach the listeners unchanged, \<open>finish\<close> waits for
  the write in flight and happens once. The callbacks are those of \<open>plain_js\<close>, which return or
  throw but do not call back into the module.
\<close>

section \<open>Frames\<close>

interpretation plain: js_program env "plain_js thr" for env :: "'e env_scheme" and thr
  by unfold_locales (simp add: plain_js_def)

text \<open>What the steps on contexts, operations and Rust objects leave alone.\<close>

definition same_js :: "world \<Rightarrow> world \<Rightarrow> bool" where
  "same_js w w' \<longleftrightarrow> w_objs w' = w_objs w \<and> w_fns w' = w_fns w \<and> w_evcb_id w' = w_evcb_id w \<and> w_log w' = w_log w"

lemma same_js_refl [simp]: "same_js w w"
  by (simp add: same_js_def)

lemma same_js_trans: "same_js u v \<Longrightarrow> same_js v w \<Longrightarrow> same_js u w"
  by (simp add: same_js_def)

lemma same_js_emitter:
  assumes "same_js w w'"
  shows "emitter_ok w' = emitter_ok w" and "listeners w' = listeners w" and "w_fns w' = w_fns w" and "w_log w' = w_log w"
proof -
  show l: "listeners w' = listeners w" using assms by (simp add: same_js_def listeners_def events_of_def fun_eq_iff)
  show "emitter_ok w' = emitter_ok w" using assms by (simp add: emitter_ok_def l) (simp add: same_js_def)
qed (use assms in \<open>simp_all add: same_js_def\<close>)

lemma in_rust_same: "in_rust w f = Inr (x, w') \<Longrightarrow> same_js w w' \<and> w_ops w' = w_ops w \<and> w_ctxs w' = w_ctxs w \<and> w_next w' = w_next w"
  by (auto simp: in_rust_def bnd_eq_Inr same_js_def)

lemma flags_same:
  "set_flags a m w = Inr w' \<Longrightarrow> same_js w w' \<and> w_ops w' = w_ops w \<and>
     (\<exists>c. w_ctxs w a = Some c \<and> w_ctxs w' = (w_ctxs w)(a \<mapsto> c\<lparr>flags := set_flag (flags c) m\<rparr>))"
  "clr_flags a m w = Inr w' \<Longrightarrow> same_js w w' \<and> w_ops w' = w_ops w \<and>
     (\<exists>c. w_ctxs w a = Some c \<and> w_ctxs w' = (w_ctxs w)(a \<mapsto> c\<lparr>flags := clr_flag (flags c) m\<rparr>))"
  by (auto simp: set_flags_def clr_flags_def upd_ctx_def put_ctx_def get_ctx_def bnd_eq_Inr same_js_def split: option.splits)

lemma remove_pending_same:
  assumes "iroh_remove_pending a p w = Inr w'"
  shows "same_js w w' \<and> w_ops w' = w_ops w \<and> w_next w' = w_next w
     \<and> (\<forall>b c. w_ctxs w b = Some c \<longrightarrow> (\<exists>xs n. w_ctxs w' b = Some (c\<lparr>pending_ops := xs, npending := n\<rparr>)))"
proof -
  have same: "\<exists>xs n. c = c\<lparr>pending_ops := xs, npending := n\<rparr>" for c :: RPIROH
    by (intro exI[of _ "pending_ops c"] exI[of _ "npending c"]) simp
  have del: "\<exists>xs n. del_pending p c = c\<lparr>pending_ops := xs, npending := n\<rparr>" for c
  proof (cases "scan_index p (pending c) 0")
    case None
    then have "del_pending p c = c" by (simp add: del_pending_def)
    with same[of c] show ?thesis by simp
  next
    case (Some i)
    then show ?thesis unfolding del_pending_def Let_def by auto
  qed
  obtain c where c: "w_ctxs w a = Some c" using assms by (auto simp: iroh_remove_pending_def bnd_eq_Inr get_ctx_def split: option.splits)
  with assms have "w' = w \<or> w' = put_ctx a (del_pending p c) w" by (auto simp: iroh_remove_pending_def split: if_splits)
  then show ?thesis
  proof
    assume "w' = w"
    with same show ?thesis by auto
  next
    assume "w' = put_ctx a (del_pending p c) w"
    with c same del[of c] show ?thesis by (auto simp: same_js_def put_ctx_def)
  qed
qed

lemma free_async_op_same:
  assumes "iroh_free_async_op p w = Inr w'"
  shows "same_js w w' \<and> w_ops w' = (w_ops w)(p := None) \<and> w_next w' = w_next w
     \<and> (\<forall>a c. w_ctxs w a = Some c \<longrightarrow> (\<exists>xs n. w_ctxs w' a = Some (c\<lparr>pending_ops := xs, npending := n\<rparr>)))"
proof -
  obtain x :: RPIROH_ASYNC and w1 w2 w3 where s: "iroh_remove_pending (aop_ictx x) p w = Inr w1" "event_free (aop_ev x) w1 = Inr w2"
    "in_rust' w2 (\<lambda>r. iroh_async_free r (aop_handle x)) = Inr w3" "free_op p w3 = Inr w'"
    using assms unfolding iroh_free_async_op_def bnd_eq_Inr by blast
  have 2: "same_js w1 w2" "w_ops w2 = w_ops w1" "w_next w2 = w_next w1" "w_ctxs w2 = w_ctxs w1"
    using s(2) by (auto simp: event_free_def same_js_def split: option.splits if_splits)
  have 3: "same_js w2 w3" "w_ops w3 = w_ops w2" "w_next w3 = w_next w2" "w_ctxs w3 = w_ctxs w2"
    using s(3) by (auto simp: in_rust'_def bnd_eq_Inr same_js_def)
  have 4: "same_js w3 w'" "w_ops w' = (w_ops w3)(p := None)" "w_next w' = w_next w3" "w_ctxs w' = w_ctxs w3"
    using s(4) by (auto simp: free_op_def same_js_def split: option.splits)
  show ?thesis using remove_pending_same[OF s(1)] 2 3 4 by (auto intro: same_js_trans)
qed

lemma start_async_same:
  "iroh_start_async env a h op aux w = Inr (x, w') \<Longrightarrow> same_js w w' \<and> (\<forall>p. p \<noteq> w_next w \<longrightarrow> w_ops w' p = w_ops w p)"
  by (auto simp: iroh_start_async_def put_ctx_def in_rust'_def Let_def bnd_eq_Inr same_js_def split: if_splits option.splits)

lemma arm_loop_same:
  assumes "arm_loop env a op fl start w = Inr w'"
  shows "same_js w w' \<and> (\<forall>p. p \<noteq> w_next w \<longrightarrow> w_ops w' p = w_ops w p)"
proof -
  obtain h w1 where h: "in_rust w start = Inr (h, w1)"
    using assms by (auto simp: arm_loop_def bnd_eq_Inr)
  then have 1: "same_js w w1" "w_ops w1 = w_ops w" "w_next w1 = w_next w"
    using in_rust_same[OF h] by (auto simp: in_rust_def bnd_eq_Inr)
  show ?thesis
  proof (cases h)
    case None
    with assms h have "clr_flags a fl w1 = Inr w'" by (simp add: arm_loop_def)
    with flags_same(2)[of a fl w1 w'] 1 show ?thesis by (auto intro: same_js_trans)
  next
    case (Some n)
    with assms h obtain x where "iroh_start_async env a h op 0 w1 = Inr (x, w')" by (auto simp: arm_loop_def bnd_eq_Inr)
    with start_async_same[of env a h op 0 w1 x w'] 1 show ?thesis by (auto intro: same_js_trans)
  qed
qed

lemma rearm_loop_same:
  assumes "rearm_loop env a op fl sel start w = Inr w'"
  shows "same_js w w' \<and> (\<forall>p. p \<noteq> w_next w \<longrightarrow> w_ops w' p = w_ops w p)"
proof -
  obtain c where "get_ctx w a = Inr c" using assms by (auto simp: rearm_loop_def bnd_eq_Inr)
  with assms have "arm_loop env a op fl (\<lambda>r. start r (sel c)) w = Inr w' \<or> clr_flags a fl w = Inr w'"
    by (auto simp: rearm_loop_def split: if_splits)
  then show ?thesis using arm_loop_same[of env a op fl "\<lambda>r. start r (sel c)" w w'] flags_same(2)[of a fl w w'] by auto
qed

section \<open>Events on an open context\<close>

text \<open>An enumerator that lists every key once.\<close>

definition enum_ok :: "'e env_scheme \<Rightarrow> bool" where
  "enum_ok env \<longleftrightarrow> (\<forall>ks. distinct ks \<longrightarrow> distinct (env_enum_int env ks) \<and> set (env_enum_int env ks) = set ks)"

text \<open>The functions called for an event, in order; none for an event without a table.\<close>

definition called :: "'e env_scheme \<Rightarrow> world \<Rightarrow> objid \<Rightarrow> string \<Rightarrow> fnid list" where
  "called env w this ev = (let t = table_of w this ev in map (\<lambda>k. the (map_of t k)) (env_enum_int env (map fst t)))"

lemma run_listeners_plain_frame:
  "run_listeners (plain_js thr) this ev args ks w = Inr (n, w') \<Longrightarrow>
     w_ctxs w' = w_ctxs w \<and> w_ops w' = w_ops w \<and> w_next w' = w_next w \<and> w_rust w' = w_rust w"
proof (induction ks arbitrary: w n)
  case (Cons k ks)
  have p: "w_ctxs (put_listeners this ev t w) = w_ctxs w \<and> w_ops (put_listeners this ev t w) = w_ops w
      \<and> w_next (put_listeners this ev t w) = w_next w \<and> w_rust (put_listeners this ev t w) = w_rust w" for t w
    by (simp add: put_listeners_def upd_obj_def)
  have u: "w_ctxs (upd_fn f g w) = w_ctxs w \<and> w_ops (upd_fn f g w) = w_ops w \<and> w_next (upd_fn f g w) = w_next w
      \<and> w_rust (upd_fn f g w) = w_rust w" for f g w by (simp add: upd_fn_def)
  have l: "w_ctxs (log x w) = w_ctxs w \<and> w_ops (log x w) = w_ops w \<and> w_next (log x w) = w_next w
      \<and> w_rust (log x w) = w_rust w" for x w by (simp add: log_def)
  show ?case
  proof (cases "Option.bind (listeners w this ev) (\<lambda>t. map_of t k)")
    case None
    with Cons show ?thesis by auto
  next
    case (Some f)
    then obtain t where t: "listeners w this ev = Some t" "map_of t k = Some f" by (auto split: bind_splits)
    obtain m where "run_listeners (plain_js thr) this ev args ks (after_call thr this ev args k f t w) = Inr (m, w')"
      using Cons.prems unfolding run_listeners_plain_Cons[OF t] by (auto simp: bnd_eq_Inr)
    from Cons.IH[OF this] show ?thesis by (simp add: after_call_def Let_def p u l)
  qed
qed simp

lemma called_None: "enum_ok env \<Longrightarrow> listeners w this ev = None \<Longrightarrow> called env w this ev = []"
  by (simp add: called_def table_of_def enum_ok_def) (metis distinct.simps(1) set_empty)

lemma called_cong: "listeners w this ev = listeners w' this ev \<Longrightarrow> called env w this ev = called env w' this ev"
  by (simp add: called_def table_of_def)

lemma do_callback_plain_frame:
  "iroh_do_callback env (plain_js thr) this ev arg w = Inr (res, w') \<Longrightarrow>
     w_ctxs w' = w_ctxs w \<and> w_ops w' = w_ops w \<and> w_next w' = w_next w \<and> w_rust w' = w_rust w"
  by (auto simp: iroh_do_callback_def Let_def bnd_eq_Inr log_def dest: run_listeners_plain_frame split: if_splits option.splits)

text \<open>Firing an event other than \<open>error\<close> on a context whose object is an emitter.\<close>

definition rang :: "'e env_scheme \<Rightarrow> (fnid \<Rightarrow> bool) \<Rightarrow> objid \<Rightarrow> string \<Rightarrow> jsval list \<Rightarrow> world \<Rightarrow> world \<Rightarrow> bool" where
  "rang env thr this ev args w w' \<longleftrightarrow>
     emitter_ok w' \<and> w_ctxs w' = w_ctxs w \<and> w_ops w' = w_ops w \<and> w_next w' = w_next w \<and> w_rust w' = w_rust w
     \<and> w_log w' = fired this ev args thr (called env w this ev) @ w_log w
     \<and> (\<forall>e. e \<noteq> ev \<longrightarrow> listeners w' this e = listeners w this e) \<and> events_of w' this \<noteq> None"

lemma emit_plain:
  assumes ok: "emitter_ok w" and en: "enum_ok env" and c: "w_ctxs w a = Some c"
    and es: "events_of w (thisptr c) \<noteq> None" and ev: "ev \<noteq> ''error''"
  obtains w' where "emit env (plain_js thr) a ev arg w = Inr w'"
    and "rang env thr (thisptr c) ev (case arg of None \<Rightarrow> [] | Some v \<Rightarrow> [v]) w w'"
proof (cases "listeners w (thisptr c) ev")
  case None
  moreover obtain es where "events_of w (thisptr c) = Some es" using es by auto
  ultimately have "emit env (plain_js thr) a ev arg w = Inr w"
    using c ev by (simp add: emit_def get_ctx_def unprotected_def iroh_do_callback_def listeners_def)
  then show ?thesis
    using None ok es by (intro that[of w]) (simp_all add: rang_def called_None[OF en None] fired_def)
next
  case (Some t)
  have enum: "distinct (env_enum_int env (map fst t))" "set (env_enum_int env (map fst t)) = fst ` set t"
    using en emitter_ok_table(1)[OF ok Some] by (simp_all add: enum_ok_def)
  have ne: "ev = ''error'' \<Longrightarrow> arg \<noteq> None" using ev by simp
  obtain w' where w': "iroh_do_callback env (plain_js thr) (thisptr c) ev arg w = Inr (Ret JUndefined, w')"
    "w_log w' = fired (thisptr c) ev (case arg of None \<Rightarrow> [] | Some v \<Rightarrow> [v]) thr (called env w (thisptr c) ev) @ w_log w"
    "listeners w' (thisptr c) ev = Some (filter (\<lambda>(i, f). \<not> fn_once (w_fns w f)) t)"
    "\<forall>e. e \<noteq> ev \<longrightarrow> listeners w' (thisptr c) e = listeners w (thisptr c) e"
    using do_callback_plain[where env = env, OF ok Some ne enum, of thr] ev Some
    by (auto simp: called_def table_of_def Let_def cong: option.case_cong)
  have "emit env (plain_js thr) a ev arg w = Inr w'"
    using c w'(1) by (simp add: emit_def get_ctx_def unprotected_def)
  moreover have "events_of w' (thisptr c) \<noteq> None" using w'(3) by (auto simp: listeners_def split: bind_splits)
  ultimately show ?thesis
    using w' do_callback_plain_frame[OF w'(1)] do_callback_plain_ok[OF ok w'(1)]
    by (intro that[of w']) (simp_all add: rang_def)
qed

section \<open>Reading\<close>

lemma Inv_emitter: "Inv w \<Longrightarrow> w_ctxs w a = Some c \<Longrightarrow> events_of w (thisptr c) \<noteq> None"
  using Inv_ctx[of w a c] by (auto simp: ctx_ok_def events_of_def oview_def)

lemma Inv_op_old: "Inv w \<Longrightarrow> w_ops w p = Some x \<Longrightarrow> p \<noteq> w_next w"
  unfolding Inv_def VInv_def fresh_ok_def by (metis view_sel(2,4) option.distinct(1) order_refl)

text \<open>Taking a read result and releasing the operation.\<close>

lemma read_then:
  assumes inv: "Inv w" and x: "w_ops w p = Some x" and c: "w_ctxs w (aop_ictx x) = Some c"
    and h: "aop_handle x = Some h" "r_handles (w_rust w) h = Some ah" "h_result ah = Some (ARead d fin)"
  obtains w1 w2 c2 where
    "in_rust w (\<lambda>r. iroh_recv_stream_read_result r (aop_handle x)) =
       Inr (\<lparr>rr_data = if d = [] then None else Some d, rr_len = length d, rr_finished = fin\<rparr>, w1)"
    and "iroh_free_async_op p w1 = Inr w2" and "same_js w w2" and "w_ops w2 = (w_ops w)(p := None)" and "w_next w2 = w_next w"
    and "w_ctxs w2 (aop_ictx x) = Some c2" and "thisptr c2 = thisptr c"
proof -
  let ?w1 = "w\<lparr>w_rust := put_handle h (ah\<lparr>h_result := None\<rparr>) (w_rust w)\<rparr>"
  have "handle_live (w_rust w) h" using Inv_op[OF inv x] h(1) by (simp add: op_ok_def)
  then have "get_handle (w_rust w) h = Inr ah" using h(2) by (auto simp: handle_live_def get_handle_def)
  then have r: "in_rust w (\<lambda>r. iroh_recv_stream_read_result r (aop_handle x)) =
       Inr (\<lparr>rr_data = if d = [] then None else Some d, rr_len = length d, rr_finished = fin\<rparr>, ?w1)"
    using h by (simp add: in_rust_def iroh_recv_stream_read_result_def take_result_def)
  have "Inv ?w1" by (intro Inv_rust[OF inv] rstep_put_handle[OF h(2)]) simp_all
  then obtain w2 where f: "iroh_free_async_op p ?w1 = Inr w2"
    using free_async_op_view[of ?w1 p x] x by auto
  have j: "same_js w ?w1" by (simp add: same_js_def)
  from free_async_op_same[OF f] c that[OF r f] same_js_trans[OF j] show ?thesis by fastforce
qed

text \<open>The end of a stream: the read flag is cleared and \<open>end\<close> is fired.\<close>

lemma end_plain:
  assumes ok: "emitter_ok w" and en: "enum_ok env" and c: "w_ctxs w a = Some c" and es: "events_of w (thisptr c) \<noteq> None"
  obtains w' where "bnd (clr_flags a m w) (\<lambda>w. iroh_fire_event env (plain_js thr) a ''end'' w) = Inr w'"
    and "w_log w' = fired (thisptr c) ''end'' [] thr (called env w (thisptr c) ''end'') @ w_log w" and "w_ops w' = w_ops w"
proof -
  let ?c = "c\<lparr>flags := clr_flag (flags c) m\<rparr>"
  let ?w = "put_ctx a ?c w"
  have j: "same_js w ?w" by (simp add: same_js_def put_ctx_def)
  have "clr_flags a m w = Inr ?w" using c by (simp add: clr_flags_def upd_ctx_def)
  moreover obtain w' where "emit env (plain_js thr) a ''end'' None ?w = Inr w'" "rang env thr (thisptr ?c) ''end'' [] ?w w'"
    using emit_plain[where env = env and thr = thr and ev = "''end''" and arg = None and w = ?w and a = a and c = ?c, OF _ en]
      ok es same_js_emitter[OF j] by (auto simp: events_of_def put_ctx_def)
  ultimately show ?thesis
    using same_js_emitter[OF j] called_cong[of ?w "thisptr c" "''end''" w env]
    by (intro that[of w']) (simp_all add: iroh_fire_event_def rang_def put_ctx_def)
qed

text \<open>
  C7: What a stream read delivers: when a read task has stored the bytes it read, the handler passes
  exactly those bytes, unchanged and as one buffer, to every \<open>data\<close> listener of the stream object,
  once each; no event is fired for an empty chunk; at the end of the stream \<open>end\<close> follows the last
  data; the operation is released. Nothing else is observable.
\<close>

theorem stream_data_delivered:
  assumes inv: "Inv w" and ok: "emitter_ok w" and en: "enum_ok env"
    and x: "w_ops w p = Some x" "aop_op x = IROH_OP_STREAM_READ" and c: "w_ctxs w (aop_ictx x) = Some c"
    and h: "aop_handle x = Some h" "r_handles (w_rust w) h = Some ah" "h_result ah = Some (ARead d fin)"
  shows "safe (iroh_on_stream_data env (plain_js thr) p Ready w) (\<lambda>w'.
      w_log w' = (if fin then fired (thisptr c) ''end'' [] thr (called env w (thisptr c) ''end'') else [])
        @ (if d = [] then [] else fired (thisptr c) ''data'' [JBuf d] thr (called env w (thisptr c) ''data'')) @ w_log w
      \<and> w_ops w' p = None)"
proof -
  let ?t = "thisptr c" and ?a = "aop_ictx x"
  obtain w1 w2 c2 where r: "in_rust w (\<lambda>r. iroh_recv_stream_read_result r (aop_handle x)) =
       Inr (\<lparr>rr_data = if d = [] then None else Some d, rr_len = length d, rr_finished = fin\<rparr>, w1)"
    "iroh_free_async_op p w1 = Inr w2" and 2: "same_js w w2" "w_ops w2 = (w_ops w)(p := None)" "w_next w2 = w_next w"
    "w_ctxs w2 ?a = Some c2" "thisptr c2 = ?t"
    by (rule read_then[OF inv x(1) c h])
  note em = same_js_emitter[OF 2(1)]
  have es: "events_of w2 ?t \<noteq> None" using Inv_emitter[OF inv c] 2(1) by (simp add: same_js_def events_of_def)
  obtain w3 where 3: "(if d = [] then Inr w2 else emit env (plain_js thr) ?a ''data'' (Some (JBuf d)) w2) = Inr w3"
    "emitter_ok w3" "w_ctxs w3 ?a = Some c2" "w_ops w3 = w_ops w2" "w_next w3 = w_next w2" "events_of w3 ?t \<noteq> None"
    "w_log w3 = (if d = [] then [] else fired ?t ''data'' [JBuf d] thr (called env w ?t ''data'')) @ w_log w"
    "listeners w3 ?t ''end'' = listeners w ?t ''end''"
  proof (cases "d = []")
    case True
    with that[of w2] ok es 2 em show ?thesis by simp
  next
    case False
    obtain w3 where "emit env (plain_js thr) ?a ''data'' (Some (JBuf d)) w2 = Inr w3"
      "rang env thr (thisptr c2) ''data'' [JBuf d] w2 w3"
      using emit_plain[where env = env and thr = thr and ev = "''data''" and arg = "Some (JBuf d)", OF _ en 2(4)] ok es 2(5) em(1) by auto
    with that[of w3] False 2 em called_cong[of w2 ?t "''data''" w env] show ?thesis by (simp add: rang_def)
  qed
  have tail: "iroh_on_stream_data env (plain_js thr) p Ready w =
      (if fin then bnd (clr_flags ?a RPIROH_FLAG_READING w3) (\<lambda>w. iroh_fire_event env (plain_js thr) ?a ''end'' w)
       else rearm_loop env ?a IROH_OP_STREAM_READ RPIROH_FLAG_READING recv_p (\<lambda>r p. iroh_recv_stream_read env r p 65536) w3)"
    using x(1) r 3(1) by (auto simp: iroh_on_stream_data_def Let_def split: if_splits)
  have old: "p \<noteq> w_next w3" using Inv_op_old[OF inv x(1)] 3(5) 2(3) by simp
  show ?thesis
  proof (cases fin)
    case True
    obtain w4 where "bnd (clr_flags ?a RPIROH_FLAG_READING w3) (\<lambda>w. iroh_fire_event env (plain_js thr) ?a ''end'' w) = Inr w4"
      "w_log w4 = fired ?t ''end'' [] thr (called env w3 ?t ''end'') @ w_log w3" "w_ops w4 = w_ops w3"
      using end_plain[OF 3(2) en 3(3)] 3(6) 2(5) by metis
    then show ?thesis
      unfolding tail using True 2(2) 3(4,7) called_cong[OF 3(8), of env] by simp
  next
    case False
    have "safe (iroh_on_stream_data env (plain_js thr) p Ready w) (\<lambda>w'. True)"
      using plain.on_stream_data_good[OF inv x] by (rule safe_mono) simp
    then show ?thesis
      unfolding tail using False 2(2) 3(4,7) old
      by (auto simp: safe_def same_js_def split: sum.splits dest!: rearm_loop_same)
  qed
qed

text \<open>A stream with one \<open>data\<close> listener whose last read has completed.\<close>

definition read_done :: world where
  "read_done = (one_ctx IROH_OBJ_STREAM
       (\<lambda>c. c\<lparr>recv_p := Some 0, flags := 4, pending_ops := [2, 0, 0, 0, 0, 0, 0, 0], npending := 1, pending_alloc := 8\<rparr>)
       (\<lambda>r. r\<lparr>r_handles := [1 \<mapsto> complete_with_result (ARead [104, 105] True) (handle_new 1 (RqRead 0 65536))],
          r_res := [0 \<mapsto> KRecvStream], r_next := 2\<rparr>))
     \<lparr>w_ops := [2 \<mapsto> \<lparr>aop_ictx = 1, aop_handle = Some 1, aop_op = IROH_OP_STREAM_READ, aop_ev = Some 2, aop_aux = 0\<rparr>],
      w_evs := (\<lambda>p. p = 2), w_next := 3,
      w_objs := [0 \<mapsto> empty_obj\<lparr>o_events := Some [(''data'', [(0, 7)])], o_ictx := Some 1\<rparr>],
      w_fns := (w_fns boot)(7 := \<lparr>fn_evcb_id = Some 0, fn_once = False\<rparr>), w_evcb_id := 1\<rparr>"

lemma Inv_read_done: "Inv read_done"
  by (auto simp: read_done_def complete_with_result_def Inv_concrete split: if_splits)

lemma read_done_simps:
  "emitter_ok read_done" "called sample_env read_done 0 ''data'' = [7]" "w_log read_done = []"
  "called sample_env read_done 0 ''end'' = []"
  "w_ops read_done 2 = Some \<lparr>aop_ictx = 1, aop_handle = Some 1, aop_op = IROH_OP_STREAM_READ, aop_ev = Some 2, aop_aux = 0\<rparr>"
  "\<exists>c. w_ctxs read_done 1 = Some c \<and> thisptr c = 0"
  "\<exists>ah. r_handles (w_rust read_done) 1 = Some ah \<and> h_result ah = Some (ARead [104, 105] True)"
  by (auto simp: read_done_def one_ctx_def zero_ctx_def emitter_ok_def events_of_def listeners_def boot_def called_def table_of_def
      handle_new_def complete_with_result_def split: if_splits option.splits bind_splits)

lemma enum_ok_sample: "enum_ok sample_env"
  by (simp add: enum_ok_def)

theorem stream_data_delivered_witness:
  "safe (iroh_on_stream_data sample_env (plain_js (\<lambda>_. False)) 2 Ready read_done)
     (\<lambda>w'. w_log w' = [Invoke 7 0 ''data'' [JBuf [104, 105]]])"
proof -
  obtain c where c: "w_ctxs read_done 1 = Some c" "thisptr c = 0" using read_done_simps(6) by blast
  obtain ah where ah: "r_handles (w_rust read_done) 1 = Some ah" "h_result ah = Some (ARead [104, 105] True)"
    using read_done_simps(7) by blast
  show ?thesis
    using stream_data_delivered[OF Inv_read_done read_done_simps(1) enum_ok_sample read_done_simps(5) _ _ _ ah, of c "\<lambda>_. False"] c
    by (auto simp: read_done_simps fired_def elim: safe_mono)
qed

section \<open>Finishing\<close>

lemma in_rust'_same: "in_rust' w f = Inr w' \<Longrightarrow> same_js w w' \<and> w_ops w' = w_ops w \<and> w_ctxs w' = w_ctxs w \<and> w_next w' = w_next w"
  by (auto simp: in_rust'_def bnd_eq_Inr same_js_def)

lemma do_finish_plain:
  assumes "iroh_do_finish a w = Inr w'" and c: "w_ctxs w a = Some c" "send_p c = Some s" "\<not> has_flag (flags c) RPIROH_FLAG_FINISHED"
  shows "w_log w' = Finish s # w_log w \<and> w_ops w' = w_ops w
     \<and> w_ctxs w' a = Some (c\<lparr>flags := set_flag (flags c) RPIROH_FLAG_FINISHED\<rparr>)"
proof -
  obtain w1 w2 where 1: "in_rust' w (\<lambda>r. iroh_send_stream_finish r (Some s)) = Inr w1"
    "set_flags a RPIROH_FLAG_FINISHED (log (Finish s) w1) = Inr w2" "w' = put_prop (thisptr c) ''finished'' (JBool True) w2"
    using assms by (auto simp: iroh_do_finish_def bnd_eq_Inr)
  from in_rust'_same[OF 1(1)] flags_same(1)[OF 1(2)] c 1(3) show ?thesis
    by (auto simp: same_js_def put_prop_def upd_obj_def log_def)
qed

text \<open>The completion of a write on a stream that is to be finished.\<close>

lemma written_plain:
  assumes inv: "Inv w" and ok: "emitter_ok w" and en: "enum_ok env" and x: "w_ops w p = Some x"
    and c: "w_ctxs w (aop_ictx x) = Some c" "send_p c = Some s"
    and fl: "has_flag (flags c) RPIROH_FLAG_FINISH_PENDING" "\<not> has_flag (flags c) RPIROH_FLAG_FINISHED"
    and run: "iroh_on_stream_written env (plain_js thr) p Ready w = Inr w'"
  shows "w_log w' = Finish s # fired (thisptr c) ''drain'' [] thr (called env w (thisptr c) ''drain'') @ w_log w"
    and "w_ops w' = (w_ops w)(p := None)"
    and "\<exists>c'. w_ctxs w' (aop_ictx x) = Some c' \<and> has_flag (flags c') RPIROH_FLAG_FINISHED
       \<and> \<not> has_flag (flags c') RPIROH_FLAG_FINISH_PENDING \<and> \<not> has_flag (flags c') RPIROH_FLAG_WRITING"
proof -
  let ?a = "aop_ictx x"
  obtain w2 w3 w4 c4 where s: "clr_flags ?a RPIROH_FLAG_WRITING w = Inr w2" "iroh_free_async_op p w2 = Inr w3"
    "emit env (plain_js thr) ?a ''drain'' None w3 = Inr w4" "w_ctxs w4 ?a = Some c4"
    "(if has_flag (flags c4) RPIROH_FLAG_FINISH_PENDING
       then bnd (clr_flags ?a RPIROH_FLAG_FINISH_PENDING w4) (iroh_do_finish ?a) else Inr w4) = Inr w'"
    using run x by (auto simp: iroh_on_stream_written_def Let_def bnd_eq_Inr iroh_fire_event_def get_ctx_def split: option.splits)
  have 2: "same_js w w2" "w_ops w2 = w_ops w" "w_ctxs w2 ?a = Some (c\<lparr>flags := clr_flag (flags c) RPIROH_FLAG_WRITING\<rparr>)"
    using flags_same(2)[OF s(1)] c(1) by auto
  obtain xs n where 3: "same_js w w3" "w_ops w3 = (w_ops w)(p := None)"
    "w_ctxs w3 ?a = Some (c\<lparr>flags := clr_flag (flags c) RPIROH_FLAG_WRITING, pending_ops := xs, npending := n\<rparr>)"
    using free_async_op_same[OF s(2)] 2 by (fastforce intro: same_js_trans)
  let ?c3 = "c\<lparr>flags := clr_flag (flags c) RPIROH_FLAG_WRITING, pending_ops := xs, npending := n\<rparr>"
  have es: "events_of w3 (thisptr c) \<noteq> None" using Inv_emitter[OF inv c(1)] 3(1) by (simp add: same_js_def events_of_def)
  have 4: "rang env thr (thisptr c) ''drain'' [] w3 w4"
    using emit_plain[where env = env and thr = thr and ev = "''drain''" and arg = None and w = w3 and a = ?a and c = ?c3, OF _ en 3(3)]
      s(3) es ok same_js_emitter(1)[OF 3(1)] by auto
  then have c4: "c4 = ?c3" using s(4) 3(3) by (simp add: rang_def)
  obtain w5 where 5: "clr_flags ?a RPIROH_FLAG_FINISH_PENDING w4 = Inr w5" "iroh_do_finish ?a w5 = Inr w'"
    using s(5) fl c4 by (auto simp: bnd_eq_Inr)
  have "w_ctxs w5 ?a = Some (?c3\<lparr>flags := clr_flag (flags ?c3) RPIROH_FLAG_FINISH_PENDING\<rparr>)"
    using flags_same(2)[OF 5(1)] s(4) c4 by auto
  note fin = do_finish_plain[OF 5(2) this] flags_same(2)[OF 5(1)]
  show "w_log w' = Finish s # fired (thisptr c) ''drain'' [] thr (called env w (thisptr c) ''drain'') @ w_log w"
    "w_ops w' = (w_ops w)(p := None)"
    "\<exists>c'. w_ctxs w' (aop_ictx x) = Some c' \<and> has_flag (flags c') RPIROH_FLAG_FINISHED
       \<and> \<not> has_flag (flags c') RPIROH_FLAG_FINISH_PENDING \<and> \<not> has_flag (flags c') RPIROH_FLAG_WRITING"
    using fin fl c(2) 4 3 same_js_emitter[OF 3(1)] called_cong[of w3 "thisptr c" "''drain''" w env]
    by (auto simp: rang_def same_js_def)
qed

text \<open>
  C14: \<open>finish()\<close> while a write is in flight waits for it: the call itself only notes the request,
  and when the write has completed the handler fires \<open>drain\<close> and then finishes the Rust stream,
  once, and marks the stream finished. The request is forgotten, the operation is released, and
  no other operation is waited for or touched.
\<close>

theorem finish_waits_for_write:
  assumes inv: "Inv w" and ok: "emitter_ok w" and en: "enum_ok env"
    and x: "w_ops w p = Some x" "aop_op x = IROH_OP_STREAM_WRITE" and t: "this_ictx w this = Some (aop_ictx x)"
    and c: "w_ctxs w (aop_ictx x) = Some c" "send_p c = Some s"
    and fl: "has_flag (flags c) RPIROH_FLAG_WRITING" "\<not> has_flag (flags c) RPIROH_FLAG_FINISHED"
  shows "\<exists>w1. duk_rp_iroh_stream_finish this w = Inr (Ret JUndefined, w1) \<and> w_log w1 = w_log w \<and> w_ops w1 = w_ops w
     \<and> safe (iroh_on_stream_written env (plain_js thr) p Ready w1) (\<lambda>w'.
         w_log w' = Finish s # fired this ''drain'' [] thr (called env w this ''drain'') @ w_log w
         \<and> w_ops w' = (w_ops w)(p := None)
         \<and> (\<exists>c'. w_ctxs w' (aop_ictx x) = Some c' \<and> has_flag (flags c') RPIROH_FLAG_FINISHED
              \<and> \<not> has_flag (flags c') RPIROH_FLAG_FINISH_PENDING \<and> \<not> has_flag (flags c') RPIROH_FLAG_WRITING))"
proof -
  let ?a = "aop_ictx x"
  have tp: "thisptr c = this" using this_ictx_open[OF inv t] c(1) by fastforce
  let ?c1 = "c\<lparr>flags := set_flag (flags c) RPIROH_FLAG_FINISH_PENDING\<rparr>"
  let ?w1 = "put_ctx ?a ?c1 w"
  have fin: "duk_rp_iroh_stream_finish this w = Inr (Ret JUndefined, ?w1)"
    using t c fl by (simp add: duk_rp_iroh_stream_finish_def GET_ICTX_def set_flags_def upd_ctx_def)
  have inv1: "Inv ?w1" using good_flags(1)[OF inv, of ?a RPIROH_FLAG_FINISH_PENDING] c(1) by (simp add: set_flags_def upd_ctx_def)
  have x1: "w_ops ?w1 p = Some x" by (simp add: put_ctx_def x(1))
  have j1: "same_js w ?w1" by (simp add: same_js_def put_ctx_def)
  have c1: "w_ctxs ?w1 ?a = Some ?c1" by (simp add: put_ctx_def)
  have fl1: "send_p ?c1 = Some s" "has_flag (flags ?c1) RPIROH_FLAG_FINISH_PENDING" "\<not> has_flag (flags ?c1) RPIROH_FLAG_FINISHED"
    using c(2) fl by simp_all
  have ok1: "emitter_ok ?w1" using ok same_js_emitter(1)[OF j1] by simp
  note wr = written_plain[OF inv1 ok1 en x1 c1 fl1, of thr]
  have "safe (iroh_on_stream_written env (plain_js thr) p Ready ?w1) (\<lambda>w'. True)"
    using plain.on_stream_written_good[OF inv1 x1 x(2)] by (rule safe_mono) simp
  then show ?thesis
    using fin wr tp called_cong[of ?w1 this "''drain''" w env] same_js_emitter[OF j1]
    by (intro exI[of _ ?w1]) (cases "iroh_on_stream_written env (plain_js thr) p Ready ?w1"; simp add: put_ctx_def)
qed

text \<open>A stream with a write in flight.\<close>

definition writing :: world where
  "writing = (one_ctx IROH_OBJ_STREAM
       (\<lambda>c. c\<lparr>send_p := Some 0, flags := 128, pending_ops := [2, 0, 0, 0, 0, 0, 0, 0], npending := 1, pending_alloc := 8\<rparr>)
       (\<lambda>r. r\<lparr>r_handles := [1 \<mapsto> complete_with_result (AUsize 2) (handle_new 1 (RqWrite 0 [104, 105]))],
          r_res := [0 \<mapsto> KSendStream], r_next := 2\<rparr>))
     \<lparr>w_ops := [2 \<mapsto> \<lparr>aop_ictx = 1, aop_handle = Some 1, aop_op = IROH_OP_STREAM_WRITE, aop_ev = Some 2, aop_aux = 0\<rparr>],
      w_evs := (\<lambda>p. p = 2), w_next := 3\<rparr>"

lemma Inv_writing: "Inv writing"
  by (auto simp: writing_def complete_with_result_def Inv_concrete split: if_splits)

lemma writing_simps:
  "emitter_ok writing" "called sample_env writing 0 ev = []" "w_log writing = []" "this_ictx writing 0 = Some 1"
  "w_ops writing 2 = Some \<lparr>aop_ictx = 1, aop_handle = Some 1, aop_op = IROH_OP_STREAM_WRITE, aop_ev = Some 2, aop_aux = 0\<rparr>"
  "\<exists>c. w_ctxs writing 1 = Some c \<and> send_p c = Some 0 \<and> has_flag (flags c) RPIROH_FLAG_WRITING
     \<and> \<not> has_flag (flags c) RPIROH_FLAG_FINISHED"
  by (auto simp: writing_def one_ctx_def zero_ctx_def emitter_ok_def events_of_def listeners_def boot_def called_def table_of_def
      this_ictx_def has_flag_def split: if_splits option.splits bind_splits)

theorem finish_waits_for_write_witness:
  "\<exists>w1. duk_rp_iroh_stream_finish 0 writing = Inr (Ret JUndefined, w1) \<and> w_log w1 = []
     \<and> safe (iroh_on_stream_written sample_env (plain_js (\<lambda>_. False)) 2 Ready w1) (\<lambda>w'. w_log w' = [Finish 0])"
proof -
  obtain c where c: "w_ctxs writing 1 = Some c" "send_p c = Some 0" "has_flag (flags c) RPIROH_FLAG_WRITING"
    "\<not> has_flag (flags c) RPIROH_FLAG_FINISHED" using writing_simps(6) by blast
  from finish_waits_for_write[OF Inv_writing writing_simps(1) enum_ok_sample writing_simps(5) _ _ _ c(2-4), of 0 "\<lambda>_. False"] c(1)
  show ?thesis by (auto simp: writing_simps fired_def elim!: safe_mono)
qed



end
