(* ===== verification/Defects.thy ===== *)
theory Defects
  imports StreamCorrect
begin

text \<open>
  What the safety theorem leaves out, and why: the functions that tear objects down. Each theorem
  here shows a run of the code as it stands that ends in a memory error or in a state the
  interface does not promise. They are stated for every state of the kind described, or on one
  concrete well-formed state.
\<close>

section \<open>Closing a connection\<close>

text \<open>
  C34: Closing a connection frees it twice: on every open connection object that has its Rust
  connection, \<open>conn.close()\<close> hands the connection to \<open>iroh_connection_close\<close>, which takes the box,
  and then frees the same pointer again in \<open>iroh_cleanup\<close>, whatever the arguments and the pending
  operations.
\<close>

theorem conn_close_frees_twice:
  assumes inv: "Inv w" and t: "this_ictx w this = Some a" and c: "w_ctxs w a = Some c" "conn_p c = Some cn"
  shows "duk_rp_iroh_conn_close env js this a0 a1 w = Inl DoubleFree"
proof -
  have ty: "r_res (w_rust w) cn = Some KConnection" "obj_type c = IROH_OBJ_CONNECTION"
    using Inv_res(2)[OF inv c] by simp_all
  have open': "\<not> has_flag (flags c) RPIROH_FLAG_CLOSED" using this_ictx_open[OF inv t] c(1) by (fastforce simp: open_at_def)
  let ?w1 = "\<lambda>code reason. (log (ConnClose cn code reason) w)\<lparr>w_rust := (w_rust w)\<lparr>r_res := (r_res (w_rust w))(cn := None)\<rparr>\<rparr>"
  have clean: "iroh_cleanup env js (Some a) True (?w1 code reason) = Inl DoubleFree" for code reason
  proof -
    let ?w = "upd_obj (thisptr c) (\<lambda>ob. ob\<lparr>o_ictx := None\<rparr>) (put_prop (thisptr c) ''closed'' (JBool True)
        (put_ctx a (c\<lparr>flags := set_flag (flags c) 1\<rparr>) (?w1 code reason)))"
    have "cancellable (pending c) ?w"
      using cancellable_pending[OF inv c(1)] by (simp add: cancellable_def handle_live_def log_def)
    from cancel_ops_ok[OF this] obtain r w2 where r: "cancel_ops (pending c) ?w = Inr w2" "w_rust w2 = r" "r_res r cn = None"
      "w_ctxs w2 = w_ctxs ?w" by (auto simp: cancelled_def)
    then show ?thesis
      using c open' ty(2)
      by (simp add: iroh_cleanup_def set_flags_def upd_ctx_def get_ctx_def log_def Let_def owned_def in_rust'_def
          iroh_free_def box_from_raw_def put_ctx_def)
  qed
  show ?thesis
    using t c open' ty clean
    by (simp add: duk_rp_iroh_conn_close_def GET_ICTX_def Let_def in_rust'_def iroh_connection_close_def iroh_free_def
        box_from_raw_def log_def)
qed

text \<open>An open connection.\<close>

definition one_conn :: world where
  "one_conn = one_ctx IROH_OBJ_CONNECTION (\<lambda>c. c\<lparr>conn_p := Some 0\<rparr>) (\<lambda>r. r\<lparr>r_res := [0 \<mapsto> KConnection], r_next := 1\<rparr>)"

theorem conn_close_frees_twice_witness:
  "Inv one_conn \<and> duk_rp_iroh_conn_close sample_env (plain_js (\<lambda>_. False)) 0 JUndefined JUndefined one_conn = Inl DoubleFree"
proof
  show inv: "Inv one_conn" by (auto simp: one_conn_def Inv_concrete split: if_splits)
  show "duk_rp_iroh_conn_close sample_env (plain_js (\<lambda>_. False)) 0 JUndefined JUndefined one_conn = Inl DoubleFree"
    by (rule conn_close_frees_twice[OF inv, where a = 1 and cn = 0 and c = "(zero_ctx 0 IROH_OBJ_CONNECTION None 0)\<lparr>conn_p := Some 0\<rparr>"])
      (simp_all add: one_conn_def one_ctx_def this_ictx_def)
qed

section \<open>Closing an endpoint that is not there yet\<close>

text \<open>
  C36: Closing an endpoint before it has been created (the creation task is still running): the call
  cancels the pending operations and sets the closed flag first, so that \<open>iroh_cleanup\<close> takes the
  context for closed already and returns at once. No \<open>close\<close> event is fired, the object is not
  marked closed, the context is never freed, and calling \<open>close()\<close> again changes nothing.
\<close>

theorem ep_close_before_created_leaks:
  assumes inv: "Inv w" and t: "this_ictx w this = Some a" and c: "w_ctxs w a = Some c" "endpoint c = None"
  shows "\<exists>w' c'. duk_rp_iroh_ep_close env js this w = Inr (Ret JUndefined, w') \<and> w_ctxs w' a = Some c'
     \<and> pending c' = [] \<and> has_flag (flags c') RPIROH_FLAG_CLOSED
     \<and> w_log w' = w_log w \<and> w_objs w' = w_objs w \<and> w_stash w' = w_stash w
     \<and> duk_rp_iroh_ep_close env js this w' = Inr (Ret JUndefined, w')"
proof -
  have open': "\<not> has_flag (flags c) RPIROH_FLAG_CLOSED" using this_ictx_open[OF inv t] c(1) by (fastforce simp: open_at_def)
  let ?c = "c\<lparr>flags := set_flag (flags c) 1\<rparr>"
  have "cancellable (rev (pending c)) (put_ctx a ?c w)"
    using cancellable_pending[OF inv c(1)] by (simp add: cancellable_def)
  from cancel_ops_ok[OF this] obtain w2 where w2: "cancel_ops (rev (pending c)) (put_ctx a ?c w) = Inr w2"
    "w_ctxs w2 = (w_ctxs w)(a \<mapsto> ?c)" "w_objs w2 = w_objs w" "w_log w2 = w_log w" "w_stash w2 = w_stash w"
    by (auto simp: put_ctx_def)
  let ?c' = "?c\<lparr>npending := 0\<rparr>"
  have "duk_rp_iroh_ep_close env js this w = Inr (Ret JUndefined, put_ctx a ?c' w2)"
    using t c open' w2(1,2)
    by (simp add: duk_rp_iroh_ep_close_def GET_ICTX_def set_flags_def upd_ctx_def get_ctx_def iroh_cleanup_def put_ctx_def)
  moreover have "duk_rp_iroh_ep_close env js this (put_ctx a ?c' w2) = Inr (Ret JUndefined, put_ctx a ?c' w2)"
    using t w2(3) by (simp add: duk_rp_iroh_ep_close_def GET_ICTX_def this_ictx_def)
  ultimately show ?thesis
    using w2 by (intro exI[of _ "put_ctx a ?c' w2"] exI[of _ ?c']) (simp add: put_ctx_def pending_def)
qed

theorem ep_close_before_created_leaks_witness:
  "let w = one_ctx IROH_OBJ_ENDPOINT (\<lambda>c. c) (\<lambda>r. r) in
   \<exists>w' c'. duk_rp_iroh_ep_close sample_env (plain_js (\<lambda>_. False)) 0 w = Inr (Ret JUndefined, w') \<and> w_ctxs w' 1 = Some c'"
proof -
  let ?w = "one_ctx IROH_OBJ_ENDPOINT (\<lambda>c. c) (\<lambda>r. r)"
  have inv: "Inv ?w" by (auto simp: Inv_concrete split: if_splits)
  have t: "this_ictx ?w 0 = Some 1" "w_ctxs ?w 1 = Some (zero_ctx 0 IROH_OBJ_ENDPOINT None 0)"
    by (simp_all add: one_ctx_def this_ictx_def)
  show ?thesis
    using ep_close_before_created_leaks[OF inv t, of sample_env "plain_js (\<lambda>_. False)"] by (auto simp: zero_ctx_def Let_def)
qed

section \<open>Tearing down under a running task\<close>

lemma cancel_ops_tasks: "cancel_ops ps w = Inr w' \<Longrightarrow> same_tasks (w_rust w) (w_rust w')"
proof (induction ps arbitrary: w)
  case (Cons p ps)
  obtain x :: RPIROH_ASYNC and w1 w2 w3 w4 where s: "event_free (aop_ev x) w = Inr w1"
    "in_rust' w1 (\<lambda>r. iroh_async_cancel r (aop_handle x)) = Inr w2"
    "in_rust' w2 (\<lambda>r. iroh_async_free r (aop_handle x)) = Inr w3" "free_op p w3 = Inr w4" "cancel_ops ps w4 = Inr w'"
    using Cons.prems unfolding cancel_ops.simps bnd_eq_Inr by blast
  have "w_rust w1 = w_rust w" using s(1) by (auto simp: event_free_def split: option.splits if_splits)
  moreover have "same_tasks (w_rust w1) (w_rust w2)"
    using s(2) by (auto simp: in_rust'_def iroh_async_cancel_def get_handle_def bnd_eq_Inr
        split: option.splits if_splits intro!: same_tasks_put_handle)
  moreover have "same_tasks (w_rust w2) (w_rust w3)"
    using s(3) by (auto simp: in_rust'_def iroh_async_free_def bnd_eq_Inr
        split: option.splits if_splits intro!: same_tasks_put_handle)
  moreover have "w_rust w4 = w_rust w3" using s(4) by (auto simp: free_op_def split: option.splits)
  ultimately show ?case using Cons.IH[OF s(5)] by (metis same_tasks_trans)
qed simp

lemma free_all_handles: "free_all xs r = Inr r' \<Longrightarrow> r_handles r' = r_handles r"
  by (induction xs r rule: free_all.induct)
    (auto simp: bnd_eq_Inr iroh_free_def box_from_raw_def split: option.splits if_splits)

lemma upd_ctx_rust: "upd_ctx a f w = Inr w' \<Longrightarrow> w_rust w' = w_rust w"
  by (auto simp: upd_ctx_def bnd_eq_Inr)

lemma del_gs_rust: "w_rust (snd (iroh_del_gs_object s k w)) = w_rust w"
  by (rule view_rustD[OF view_gs(2)])

lemma cleanup_tasks:
  assumes c: "w_ctxs w a = Some c" "\<not> has_flag (flags c) RPIROH_FLAG_CLOSED"
    and run: "iroh_cleanup env js (Some a) False w = Inr (res, w')"
  shows "same_tasks (w_rust w) (w_rust w')"
proof -
  obtain w1 w2 w3 w4 w5 where s: "set_flags a RPIROH_FLAG_CLOSED w = Inr w1"
    "cancel_ops (pending c) (upd_obj (thisptr c) (\<lambda>ob. ob\<lparr>o_ictx := None\<rparr>) (put_prop (thisptr c) ''closed'' (JBool True) w1)) = Inr w2"
    "upd_ctx a (\<lambda>c. c\<lparr>pending_ops := [], npending := 0, pending_alloc := 0\<rparr>) w2 = Inr w3"
    "in_rust' w3 (free_all (owned c)) = Inr w4" "upd_ctx a clear_owned w4 = Inr w5"
    "bnd (free_ctx a (snd (iroh_del_gs_object ''iroh_connkeymap'' (Some (keystr (thiskey c))) w5))) (\<lambda>w. Inr (Ret JUndefined, w)) = Inr (res, w')"
    using run c unfolding iroh_cleanup_def by (simp add: bnd_eq_Inr Let_def) blast
  have "w_rust w1 = w_rust w" using s(1) by (auto simp: set_flags_def dest: upd_ctx_rust)
  moreover have "same_tasks (w_rust w1) (w_rust w2)" using cancel_ops_tasks[OF s(2)] by simp
  moreover have "same_tasks (w_rust w3) (w_rust w4)"
    using s(4) by (auto simp: in_rust'_def bnd_eq_Inr same_tasks_def dest: free_all_handles)
  moreover have "w_rust w' = w_rust w5"
    using s(6) del_gs_rust[of "''iroh_connkeymap''" "Some (keystr (thiskey c))" w5]
    by (auto simp: bnd_eq_Inr free_ctx_def split: option.splits)
  ultimately show ?thesis using upd_ctx_rust[OF s(3)] upd_ctx_rust[OF s(5)] by (metis same_tasks_trans)
qed


text \<open>A stream whose read task is still running.\<close>

definition read_running :: world where
  "read_running = read_done\<lparr>w_rust := (w_rust read_done)\<lparr>r_handles := [1 \<mapsto> handle_new 1 (RqRead 0 65536)]\<rparr>\<rparr>"

lemma Inv_read_running: "Inv read_running"
  by (auto simp: read_running_def read_done_def borrowable_def Inv_concrete split: if_splits)


section \<open>Tearing down from a listener\<close>

text \<open>A program whose function 7 destroys the object it is called on.\<close>

definition destroyer :: strategy where
  "destroyer f this args rs w = (if f = 7 \<and> rs = [] then Call F_stream_destroy False this [] else Done False)"


section \<open>The mark of a one-time listener\<close>

lemma start_loop_same:
  "bnd (set_flags a fl w) (arm_loop env a op fl start) = Inr w' \<Longrightarrow> same_js w w'"
  by (auto simp: bnd_eq_Inr dest!: flags_same(1) arm_loop_same intro: same_js_trans)

lemmas start_loop_defs =
  iroh_start_accept_loop_def iroh_start_stream_accept_loop_def iroh_start_read_loop_def iroh_start_datagram_loop_def

lemma auto_start_same:
  assumes "auto_start env this ev w = Inr w'"
  shows "same_js w w'"
proof (cases "this_ictx w this")
  case None
  with assms show ?thesis by (simp add: auto_start_def)
next
  case (Some a)
  then obtain c where "get_ctx w a = Inr c" using assms by (auto simp: auto_start_def bnd_eq_Inr)
  with Some assms show ?thesis by (auto simp: auto_start_def start_loop_defs split: if_splits dest: start_loop_same)
qed

text \<open>
  C38: The mark that makes a listener a one-time listener sits on the function, not on the registration:
  when a function that listens to one event with \<open>on\<close> is also registered for another event with
  \<open>once\<close>, the first event calls it one last time and drops it, although it was never registered
  as one-time for that event.
\<close>

theorem once_mark_is_shared:
  assumes ok: "emitter_ok w" and t: "listeners w this ev = Some t" and f: "f \<in> snd ` set t"
    and s: "c_str s \<noteq> ev" and ev: "ev \<noteq> ''error''" and n: "uint (w_evcb_id w) < 2147483647" and en: "enum_ok env"
    and once: "duk_rp_iroh_once env this (JStr s) (JFun f) w = Inr (r, w1)"
  shows "\<exists>w2 t2. iroh_do_callback env (plain_js thr) this ev arg w1 = Inr (Ret JUndefined, w2)
     \<and> listeners w2 this ev = Some t2 \<and> f \<notin> snd ` set t2"
proof -
  let ?w = "upd_fn f (\<lambda>x. x\<lparr>fn_once := True\<rparr>) w"
  have ids: "fn_evcb_id (w_fns ?w g) = fn_evcb_id (w_fns w g)" for g by simp
  have ok': "emitter_ok ?w" using ok unfolding emitter_ok_def ids listeners_simps upd_fn_simps(2) .
  obtain es where es: "events_of ?w this = Some es" using t by (auto simp: listeners_def split: bind_splits)
  have n': "uint (w_evcb_id ?w) < 2147483647" using n by simp
  obtain w' where w': "iroh_ev_on ''iroh.once'' (c_str s) (JFun f) this ?w = (Ret JUndefined, w')"
    "listeners w' this ev = Some t" "fn_once (w_fns w' f)"
  proof (rule ev_on_cases[OF ok' es n', of "''iroh.once''" "c_str s" f])
    fix w'
    assume 1: "iroh_ev_on ''iroh.once'' (c_str s) (JFun f) this ?w = (Ret JUndefined, w')"
      "\<And>o' e. listeners w' o' e = (if o' = this \<and> e = c_str s
        then Some (AList.update (id_of ?w f) f (table_of ?w this (c_str s))) else listeners ?w o' e)"
      "w_fns w' = (w_fns ?w)(f := (w_fns ?w f)\<lparr>fn_evcb_id := Some (id_of ?w f)\<rparr>)"
    show thesis by (rule that[OF 1(1)]) (use s t in \<open>simp_all add: 1(2,3)\<close>)
  qed
  have same: "same_js w' w1"
    using once w'(1) by (auto simp: duk_rp_iroh_once_def require_string_def bnd_eq_Inr dest: auto_start_same)
  note sj = same_js_emitter[OF same]
  have ok1: "emitter_ok w1" using ev_on_keeps[OF ok' es n' w'(1)] sj(1) by simp
  have t1: "listeners w1 this ev = Some t" "fn_once (w_fns w1 f)" using w' sj by simp_all
  have ne: "ev = ''error'' \<Longrightarrow> arg \<noteq> None" using ev by simp
  have enum: "distinct (env_enum_int env (map fst t))" "set (env_enum_int env (map fst t)) = fst ` set t"
    using en emitter_ok_table(1)[OF ok1 t1(1)] by (simp_all add: enum_ok_def)
  have "f \<notin> snd ` set (filter (\<lambda>(i, f). \<not> fn_once (w_fns w1 f)) t)" using t1(2) by auto
  with do_callback_plain[where env = env, OF ok1 t1(1) ne enum, of thr] show ?thesis by blast
qed

theorem once_mark_is_shared_witness:
  "\<exists>r w1 w2 t2. duk_rp_iroh_once sample_env 0 (JStr ''end'') (JFun 8) two_listeners = Inr (r, w1)
     \<and> iroh_do_callback sample_env (plain_js (\<lambda>_. False)) 0 ''data'' None w1 = Inr (Ret JUndefined, w2)
     \<and> listeners w2 0 ''data'' = Some t2 \<and> 8 \<notin> snd ` set t2"
proof -
  have "this_ictx two_listeners 0 = None" by (simp add: two_listeners_def this_ictx_def empty_obj_def)
  then obtain r w1 where on: "duk_rp_iroh_once sample_env 0 (JStr ''end'') (JFun 8) two_listeners = Inr (r, w1)"
    by (simp add: duk_rp_iroh_once_def require_string_def c_str_def iroh_ev_on_def Let_def two_listeners_def events_of_def
        auto_start_def this_ictx_def empty_obj_def put_listeners_def upd_obj_def upd_fn_def)
  have "\<exists>w2 t2. iroh_do_callback sample_env (plain_js (\<lambda>_. False)) 0 ''data'' None w1 = Inr (Ret JUndefined, w2)
     \<and> listeners w2 0 ''data'' = Some t2 \<and> 8 \<notin> snd ` set t2"
    by (rule once_mark_is_shared[OF two_listeners_simps(1,2) _ _ _ _ enum_ok_sample on])
      (simp_all add: c_str_def two_listeners_def)
  with on show ?thesis by blast
qed

end
