(* ===== verification/ApiCorrect.thy ===== *)
theory ApiCorrect
  imports Defects
begin

text \<open>
  What the constructors and methods of the JavaScript interface do when they succeed.
\<close>

lemma gc_protect_stash:
  "\<forall>j. w_stash w ''iroh_connkeymap'' \<noteq> Some (GsObj j) \<Longrightarrow> \<exists>s. gc_protect i k w = w\<lparr>w_stash := s\<rparr>"
  by (auto simp: gc_protect_def iroh_put_gs_object_def split: option.splits gsval.splits)

lemma push_zero_ctx:
  "push_pending p (zero_ctx i ty par k) =
     Inr ((zero_ctx i ty par k)\<lparr>pending_ops := p # replicate 7 0, npending := 1, pending_alloc := 8\<rparr>)"
proof -
  have "replicate 8 (0 :: nat) = 0 # replicate 7 0" by (simp add: numeral_eq_Suc)
  then show ?thesis by (simp add: push_pending_def grow_pending_def grow_alloc_def realloc_ops_def zero_ctx_def Let_def)
qed

lemma endpoint_runs:
  assumes ob: "w_objs w this \<noteq> None" and rt: "r_runtime (w_rust w)" and ev: "env_event_new env (Suc (w_next w))"
    and st: "\<forall>j. w_stash w ''iroh_connkeymap'' \<noteq> Some (GsObj j)" and fd: "env_pipe env (r_next (w_rust w)) = Some fd" "0 \<le> fd"
  shows "\<exists>w' c h. duk_rp_iroh_endpoint env True this JUndefined w = Inr (Ret JUndefined, w')
     \<and> this_ictx w' this = Some (w_next w) \<and> events_of w' this = Some []
     \<and> w_ctxs w' = (w_ctxs w)(w_next w \<mapsto> c) \<and> obj_type c = IROH_OBJ_ENDPOINT \<and> pending c = [Suc (w_next w)]
     \<and> w_ops w' = (w_ops w)(Suc (w_next w) \<mapsto> \<lparr>aop_ictx = w_next w, aop_handle = Some h,
          aop_op = IROH_OP_ENDPOINT_CREATE, aop_ev = Some (Suc (w_next w)), aop_aux = 0\<rparr>)
     \<and> w_evs w' = (w_evs w)(Suc (w_next w) := True)
     \<and> r_handles (w_rust w') = (r_handles (w_rust w))(h \<mapsto> handle_new fd (RqEndpointCreate iroh_endpoint_config_default))"
proof -
  define w1 where "w1 = put_prop this ''online'' (JBool False) (put_prop this ''closed'' (JBool False) (init_emitter this w))"
  have w1: "w_ctxs w1 = w_ctxs w" "w_ops w1 = w_ops w" "w_evs w1 = w_evs w" "w_next w1 = w_next w" "w_rust w1 = w_rust w" "w_stash w1 = w_stash w"
    by (simp_all add: w1_def init_emitter_def put_prop_def upd_obj_def)
  let ?c = "zero_ctx this IROH_OBJ_ENDPOINT None (w_this_id w1)"
  obtain a w2 where w2: "new_ctx this IROH_OBJ_ENDPOINT None w1 = (a, w2)" by force
  have "w_stash w2 = w_stash w" using w2 w1 by (auto simp: new_ctx_def put_ctx_def upd_obj_def)
  then obtain s where s: "gc_protect this (w_this_id w1) w2 = w2\<lparr>w_stash := s\<rparr>" using gc_protect_stash[of w2 this "w_this_id w1"] st by auto
  let ?h = "r_next (w_rust w)"
  let ?r = "(put_handle ?h (handle_new fd (RqEndpointCreate iroh_endpoint_config_default)) (w_rust w))\<lparr>r_next := Suc ?h\<rparr>"
  let ?w3 = "w2\<lparr>w_stash := s, w_rust := ?r\<rparr>"
  have 2: "a = w_next w" "w_ctxs w2 = (w_ctxs w)(w_next w \<mapsto> ?c)" "w_ops w2 = w_ops w" "w_evs w2 = w_evs w"
    "w_next w2 = Suc (w_next w)" "w_rust w2 = w_rust w"
    using w2 w1 by (auto simp: new_ctx_def put_ctx_def upd_obj_def)
  have "in_rust (w2\<lparr>w_stash := s\<rparr>) (\<lambda>r. iroh_endpoint_create env r iroh_endpoint_config_default) = Inr (Some ?h, ?w3)"
    using 2 rt fd by (simp add: in_rust_def iroh_endpoint_create_def ffi_start_def spawn_def)
  moreover have "endpoint_config env (w2\<lparr>w_stash := s\<rparr>) JUndefined = Inr iroh_endpoint_config_default"
    by (simp add: endpoint_config_def is_object_def)
  moreover have "iroh_async_get_fd ?r (Some ?h) = Inr fd" by (simp add: iroh_async_get_fd_def get_handle_def handle_new_def)
  ultimately have run: "duk_rp_iroh_endpoint env True this JUndefined w = Inr (Ret JUndefined,
      put_ctx (w_next w) (?c\<lparr>pending_ops := Suc (w_next w) # replicate 7 0, npending := 1, pending_alloc := 8\<rparr>)
        (?w3\<lparr>w_next := Suc (Suc (w_next w)), w_ops := (w_ops w)(Suc (w_next w) \<mapsto> \<lparr>aop_ictx = w_next w, aop_handle = Some ?h,
          aop_op = IROH_OP_ENDPOINT_CREATE, aop_ev = Some (Suc (w_next w)), aop_aux = 0\<rparr>),
          w_evs := (w_evs w)(Suc (w_next w) := True)\<rparr>))"
    using w2 s 2 ev fd by (simp add: duk_rp_iroh_endpoint_def w1_def[symmetric] Let_def iroh_start_async_def get_ctx_def push_zero_ctx)
  have "w_objs w2 this = map_option (\<lambda>ob. ob\<lparr>o_ictx := Some (w_next w)\<rparr>) (w_objs w1 this)"
    using w2 w1 by (auto simp: new_ctx_def put_ctx_def upd_obj_def)
  moreover have "\<exists>ob. w_objs w1 this = Some ob \<and> o_events ob = Some []"
    using ob by (auto simp: w1_def init_emitter_def upd_obj_def put_prop_def)
  ultimately show ?thesis
    using 2 run by (auto simp: this_ictx_def events_of_def put_ctx_def pending_def zero_ctx_def)
qed

text \<open>
  C18: The \<open>Endpoint\<close> constructor: with the runtime up and a pipe and an event to be had, it makes the
  object an emitter with a context of its own that nothing else points to, protects it from
  collection, and starts exactly one operation, the creation, whose task works on the
  configuration read from the options.
\<close>

theorem endpoint_constructor_starts:
  assumes ob: "w_objs w this \<noteq> None" and rt: "r_runtime (w_rust w)" and ev: "env_event_new env (Suc (w_next w))"
    and st: "\<forall>j. w_stash w ''iroh_connkeymap'' \<noteq> Some (GsObj j)" and fd: "env_pipe env (r_next (w_rust w)) = Some fd" "0 \<le> fd"
  shows "\<exists>w' c h. duk_rp_iroh_endpoint env True this JUndefined w = Inr (Ret JUndefined, w')
     \<and> this_ictx w' this = Some (w_next w) \<and> events_of w' this = Some []
     \<and> w_ctxs w' = (w_ctxs w)(w_next w \<mapsto> c) \<and> obj_type c = IROH_OBJ_ENDPOINT \<and> pending c = [Suc (w_next w)]
     \<and> w_ops w' = (w_ops w)(Suc (w_next w) \<mapsto> \<lparr>aop_ictx = w_next w, aop_handle = Some h,
          aop_op = IROH_OP_ENDPOINT_CREATE, aop_ev = Some (Suc (w_next w)), aop_aux = 0\<rparr>)
     \<and> w_evs w' = (w_evs w)(Suc (w_next w) := True)
     \<and> r_handles (w_rust w') = (r_handles (w_rust w))(h \<mapsto> handle_new fd (RqEndpointCreate iroh_endpoint_config_default))"
  by (rule endpoint_runs[OF assms])

theorem endpoint_constructor_starts_witness:
  "\<exists>w'. duk_rp_iroh_endpoint sample_env True 0 JUndefined (one_emitter\<lparr>w_rust := (w_rust boot)\<lparr>r_runtime := True\<rparr>\<rparr>) = Inr (Ret JUndefined, w')
     \<and> w_evs w' 2"
proof -
  let ?w = "one_emitter\<lparr>w_rust := (w_rust boot)\<lparr>r_runtime := True\<rparr>\<rparr>"
  have "w_objs ?w 0 \<noteq> None" "r_runtime (w_rust ?w)" "env_event_new sample_env (Suc (w_next ?w))"
    "\<forall>j. w_stash ?w ''iroh_connkeymap'' \<noteq> Some (GsObj j)" "env_pipe sample_env (r_next (w_rust ?w)) = Some 0" "(0 :: int) \<le> 0"
    by (simp_all add: one_emitter_def boot_def)
  from endpoint_constructor_starts[OF this] show ?thesis by (auto simp: one_emitter_def boot_def numeral_2_eq_2)
qed

end
