(* ===== verification/Progress.thy ===== *)
theory Progress
  imports System
begin

text \<open>
  What the system does with an operation until the end: a finished one is dispatched once and
  released for good, a pending one has a task that can still finish, and the result its task
  stores is of the type the operation's handler asks for.
\<close>

section \<open>Dispatch releases\<close>

context js_program
begin

lemma async_cb_frees:
  assumes inv: "Inv w" and p: "w_ops w p = Some x"
    and h: "aop_handle x = Some h" "r_handles (w_rust w) h = Some ah" "h_cref ah" "h_state ah \<noteq> Pending"
  shows "frees p w (iroh_async_cb env js p w)"
  using dispatch_good[OF inv p] p h by (simp add: iroh_async_cb_def iroh_async_poll_def get_handle_def)

end

lemma steps_good:
  assumes "disciplined prog" and "(sys_step env prog)\<^sup>*\<^sup>* w w'" and "Inv w"
  shows "Inv w' \<and> ext w w'"
  using assms(2)
proof (induction rule: rtranclp_induct)
  case base
  with assms(3) show ?case by simp
next
  case (step u v)
  with sys_step_good[OF assms(1) step.hyps(2)] show ?case by (metis ext_trans)
qed

lemma freed_for_good:
  assumes "disciplined prog" and "(sys_step env prog)\<^sup>*\<^sup>* w w'" and "Inv w" and "w_ops w p = None" and "p < w_next w"
  shows "w_ops w' p = None \<and> \<not> w_evs w' p"
proof -
  have w': "Inv w'" "ext w w'" using steps_good[OF assms(1-3)] by simp_all
  then have "w_ops w' p = None" using ext_freed[OF _ assms(4,5)] by blast
  with w'(1) show ?thesis by (auto simp: Inv_def VInv_def)
qed

text \<open>
  Firing the event of \<open>p\<close> releases the operation: its struct and its event are gone when the
  callback returns and at every later time.
\<close>

definition released_by_event :: "'e env_scheme \<Rightarrow> strategy \<Rightarrow> opaddr \<Rightarrow> world \<Rightarrow> bool" where
  "released_by_event env prog p w \<longleftrightarrow> (\<forall>n. case iroh_async_cb env (script env prog n) p w of
       Inl e \<Rightarrow> e = PendingOverflow
     | Inr w' \<Rightarrow> (\<forall>w''. (sys_step env prog)\<^sup>*\<^sup>* w' w'' \<longrightarrow> w_ops w'' p = None \<and> \<not> w_evs w'' p))"

lemma finished_released:
  assumes "disciplined prog" and "Inv w" and "w_ops w p = Some x"
    and "aop_handle x = Some h" "r_handles (w_rust w) h = Some ah" "h_cref ah" "h_state ah \<noteq> Pending"
  shows "released_by_event env prog p w"
  unfolding released_by_event_def
proof
  fix n
  have "frees p w (iroh_async_cb env (script env prog n) p w)"
    by (rule js_program.async_cb_frees[OF disciplined_js_program[OF assms(1)] assms(2-7)])
  then show "case iroh_async_cb env (script env prog n) p w of
       Inl e \<Rightarrow> e = PendingOverflow
     | Inr w' \<Rightarrow> (\<forall>w''. (sys_step env prog)\<^sup>*\<^sup>* w' w'' \<longrightarrow> w_ops w'' p = None \<and> \<not> w_evs w'' p)"
    using freed_for_good[OF assms(1)] by (auto simp: safe_def split: sum.splits)
qed

lemma completed_handle:
  assumes "task_complete r h out = Inr r'" and "r_handles r h = Some ah"
  obtains ah' where "r_handles r' h = Some ah'" and "h_state ah' \<noteq> Pending" and "h_cref ah' = h_cref ah"
    and "h_req ah' = h_req ah" and "\<forall>v. out = Inr v \<longrightarrow> h_state ah' = Ready \<and> h_result ah' = Some v"
  using assms
  by (cases out) (auto simp: task_complete_def complete_with_error_def complete_with_result_def split: if_splits)

section \<open>Results have the type their handler asks for\<close>

text \<open>
  What the handler of each operation takes from a handle whose task stored \<open>v\<close>: the getters find
  the value, and hand out objects of the right kind, or \<open>v\<close>'s own data.
\<close>

abbreviation nonempty :: "'a list \<Rightarrow> 'a list option" where
  "nonempty d \<equiv> if d = [] then None else Some d"

definition takes_box :: "rkind \<Rightarrow> (rust \<Rightarrow> hid option \<Rightarrow> fault + rid option \<times> rust) \<Rightarrow> rust \<Rightarrow> hid \<Rightarrow> (rust \<Rightarrow> bool) \<Rightarrow> bool"
where
  "takes_box k get r h rest \<longleftrightarrow> (\<exists>n r'. get r (Some h) = Inr (Some n, r') \<and> r_res r' n = Some k \<and> rest r')"

definition takes_id :: "tkind \<Rightarrow> (rust \<Rightarrow> hid option \<Rightarrow> fault + rid option \<times> rust) \<Rightarrow> rust \<Rightarrow> hid \<Rightarrow> string \<Rightarrow> bool" where
  "takes_id k get r h s \<longleftrightarrow> (\<exists>n r'. get r (Some h) = Inr (Some n, r') \<and> r_tmp r' n = Some (k, s))"

fun handler_takes :: "iroh_op_type \<Rightarrow> rust_any \<Rightarrow> rust \<Rightarrow> hid \<Rightarrow> bool" where
  "handler_takes IROH_OP_ENDPOINT_CREATE v r h = takes_box KEndpoint iroh_endpoint_create_result r h (\<lambda>_. True)"
| "handler_takes IROH_OP_ENDPOINT_ACCEPT v r h = takes_box KConnection iroh_connection_accept_result r h (\<lambda>_. True)"
| "handler_takes IROH_OP_CONNECT v r h = takes_box KConnection iroh_connection_connect_result r h (\<lambda>_. True)"
| "handler_takes IROH_OP_OPEN_BI v r h =
     takes_box KSendStream iroh_stream_open_bi_send_result r h (\<lambda>r.
     takes_box KRecvStream iroh_stream_open_bi_recv_result r h (\<lambda>_. True))"
| "handler_takes IROH_OP_ACCEPT_BI v r h =
     takes_box KSendStream iroh_stream_open_bi_send_result r h (\<lambda>r.
     takes_box KRecvStream iroh_stream_open_bi_recv_result r h (\<lambda>_. True))"
| "handler_takes IROH_OP_GOSSIP_CREATE v r h =
     takes_box KGossip iroh_gossip_from_router_result r h (\<lambda>r.
     takes_box KRouter iroh_router_from_gossip_result r h (\<lambda>_. True))"
| "handler_takes IROH_OP_GOSSIP_SUBSCRIBE v r h = takes_box KGossipTopic iroh_gossip_subscribe_result r h (\<lambda>_. True)"
| "handler_takes IROH_OP_BLOBS_CREATE v r h =
     takes_box KBlobStore iroh_blobs_store_from_router_result r h (\<lambda>r.
     takes_box KBlobsProtocol iroh_blobs_protocol_from_router_result r h (\<lambda>r.
     takes_box KRouter iroh_router_from_blobs_result r h (\<lambda>_. True)))"
| "handler_takes IROH_OP_DOCS_CREATE v r h =
     takes_box KDocs iroh_docs_from_router_result r h (\<lambda>r.
     takes_box KBlobStore iroh_blobs_store_from_docs_result r h (\<lambda>r.
     takes_box KRouter iroh_router_from_docs_result r h (\<lambda>_. True)))"
| "handler_takes IROH_OP_STREAM_READ v r h = (\<exists>d fin r'. v = ARead d fin \<and>
     iroh_recv_stream_read_result r (Some h) =
       Inr (\<lparr>rr_data = nonempty d, rr_len = length d, rr_finished = fin\<rparr>, r'))"
| "handler_takes IROH_OP_STREAM_WRITE v r h = (\<exists>n. v = AUsize n)"
| "handler_takes IROH_OP_RECV_DATAGRAM v r h = (\<exists>d r'. v = ABytes d \<and>
     iroh_connection_recv_datagram_result r (Some h) = Inr (nonempty d, r'))"
| "handler_takes IROH_OP_GOSSIP_RECV v r h = (\<exists>t d s ev r'. v = AGossipEvent t d s \<and>
     iroh_gossip_recv_result r (Some h) = Inr (ev, r') \<and> ge_type ev = event_type_of t \<and> ge_data ev = nonempty d \<and>
     Option.bind (ge_peer ev) (r_tmp r') = map_option (Pair TPublicKey) s)"
| "handler_takes IROH_OP_BLOBS_ADD_BYTES v r h = (\<exists>s. v = ABlobHash s \<and> takes_id TBlobHash iroh_blobs_add_result r h s)"
| "handler_takes IROH_OP_BLOBS_ADD_FILE v r h = (\<exists>s. v = ABlobHash s \<and> takes_id TBlobHash iroh_blobs_add_result r h s)"
| "handler_takes IROH_OP_BLOBS_READ v r h = (\<exists>d r'. v = ABytes d \<and>
     iroh_blobs_read_result r (Some h) = Inr (nonempty d, r'))"
| "handler_takes IROH_OP_BLOBS_DOWNLOAD v r h = (\<exists>s. v = ABlobHash s \<and> takes_id TBlobHash iroh_blobs_download_result r h s)"
| "handler_takes IROH_OP_DOCS_CREATE_AUTHOR v r h =
     (\<exists>s. v = AAuthorId s \<and> takes_id TAuthorId iroh_docs_create_author_result r h s)"
| "handler_takes IROH_OP_DOCS_CREATE_DOC v r h =
     (\<exists>s. v = ANamespaceId s \<and> takes_id TNamespaceId iroh_docs_create_doc_result r h s)"
| "handler_takes IROH_OP_DOCS_JOIN v r h = (\<exists>s. v = ANamespaceId s \<and> takes_id TNamespaceId iroh_docs_join_result r h s)"
| "handler_takes IROH_OP_DOCS_CREATE_TICKET v r h =
     (\<exists>s. v = ADocTicket s \<and> takes_id TDocTicket iroh_docs_create_ticket_result r h s)"
| "handler_takes IROH_OP_DOCS_GET v r h = (\<exists>d r'. v = ABytes d \<and> iroh_docs_get_result r (Some h) = Inr (nonempty d, r'))"
| "handler_takes IROH_OP_DOCS_GET_LATEST v r h =
     (\<exists>d r'. v = ABytes d \<and> iroh_docs_get_latest_result r (Some h) = Inr (nonempty d, r'))"
| "handler_takes IROH_OP_DOCS_GET_ALL v r h =
     (\<exists>ps r'. v = APairs ps \<and> iroh_docs_get_all_result r (Some h) = Inr (map c_pair ps, r'))"
| "handler_takes _ v r h = (v = AUnit)"

definition holds_result :: "rust \<Rightarrow> hid \<Rightarrow> rust_any \<Rightarrow> bool" where
  "holds_result r h v \<longleftrightarrow> (\<exists>ah. r_handles r h = Some ah \<and> h_cref ah \<and> h_state ah = Ready \<and> h_result ah = Some v)"

lemma takes_take_boxed:
  assumes "holds_result r h v" and "\<And>r'. rest r'"
  shows "takes_box k (take_boxed v k) r h rest"
  using assms
  by (auto simp: holds_result_def takes_box_def take_boxed_def take_result_def get_handle_def box_into_raw_def)

lemma takes_split_boxed:
  assumes "holds_result r h v" and "\<And>r'. holds_result r' h w \<Longrightarrow> rest r'"
  shows "takes_box k (split_boxed b v w k) r h rest"
  using assms by (auto simp: holds_result_def takes_box_def split_boxed_def get_handle_def box_into_raw_def)

lemma takes_take_tmp:
  assumes "holds_result r h v" and "f v = Some s"
  shows "takes_id k (take_tmp f k) r h s"
  using assms by (auto simp: holds_result_def takes_id_def take_tmp_def take_result_def get_handle_def tmp_into_raw_def)

lemmas getter_defs =
  iroh_endpoint_create_result_def iroh_connection_connect_result_def iroh_connection_accept_result_def
  iroh_stream_open_bi_send_result_def iroh_stream_open_bi_recv_result_def iroh_gossip_from_router_result_def
  iroh_router_from_gossip_result_def iroh_gossip_subscribe_result_def iroh_blobs_store_from_router_result_def
  iroh_blobs_protocol_from_router_result_def iroh_router_from_blobs_result_def iroh_docs_from_router_result_def
  iroh_blobs_store_from_docs_result_def iroh_router_from_docs_result_def iroh_blobs_add_result_def
  iroh_blobs_download_result_def iroh_docs_create_author_result_def iroh_docs_create_doc_result_def
  iroh_docs_join_result_def iroh_docs_create_ticket_result_def

lemmas value_getter_defs =
  iroh_docs_get_result_def iroh_docs_get_latest_result_def iroh_blobs_read_result_def iroh_docs_get_all_result_def
  iroh_connection_recv_datagram_result_def iroh_recv_stream_read_result_def take_result_def get_handle_def

lemma gossip_takes:
  assumes "holds_result r h (AGossipEvent t d s)"
  shows "handler_takes IROH_OP_GOSSIP_RECV (AGossipEvent t d s) r h"
  using assms
  by (cases s) (auto simp: holds_result_def iroh_gossip_recv_result_def take_result_def get_handle_def tmp_into_raw_def)

lemma boxes_taken:
  assumes "holds_result r h v"
  shows "v = AEndpoint \<Longrightarrow> handler_takes IROH_OP_ENDPOINT_CREATE v r h"
    and "v = AConnection \<Longrightarrow> handler_takes IROH_OP_CONNECT v r h"
    and "v = AConnection \<Longrightarrow> handler_takes IROH_OP_ENDPOINT_ACCEPT v r h"
    and "v = ABiStream \<Longrightarrow> handler_takes IROH_OP_OPEN_BI v r h"
    and "v = ABiStream \<Longrightarrow> handler_takes IROH_OP_ACCEPT_BI v r h"
    and "v = AGossipWithRouter \<Longrightarrow> handler_takes IROH_OP_GOSSIP_CREATE v r h"
    and "v = AGossipTopic \<Longrightarrow> handler_takes IROH_OP_GOSSIP_SUBSCRIBE v r h"
    and "v = ABlobsWithRouter \<Longrightarrow> handler_takes IROH_OP_BLOBS_CREATE v r h"
    and "v = ADocsWithRouter \<Longrightarrow> handler_takes IROH_OP_DOCS_CREATE v r h"
  using assms by (auto simp: getter_defs intro!: takes_split_boxed takes_take_boxed)

lemma ids_taken:
  assumes "holds_result r h v"
  shows "v = ABlobHash s \<Longrightarrow> handler_takes IROH_OP_BLOBS_ADD_BYTES v r h"
    and "v = ABlobHash s \<Longrightarrow> handler_takes IROH_OP_BLOBS_ADD_FILE v r h"
    and "v = ABlobHash s \<Longrightarrow> handler_takes IROH_OP_BLOBS_DOWNLOAD v r h"
    and "v = AAuthorId s \<Longrightarrow> handler_takes IROH_OP_DOCS_CREATE_AUTHOR v r h"
    and "v = ANamespaceId s \<Longrightarrow> handler_takes IROH_OP_DOCS_CREATE_DOC v r h"
    and "v = ANamespaceId s \<Longrightarrow> handler_takes IROH_OP_DOCS_JOIN v r h"
    and "v = ADocTicket s \<Longrightarrow> handler_takes IROH_OP_DOCS_CREATE_TICKET v r h"
  using takes_take_tmp[OF assms] by (simp_all add: getter_defs)

lemma values_taken:
  assumes "holds_result r h v"
  shows "v = ARead d fin \<Longrightarrow> handler_takes IROH_OP_STREAM_READ v r h"
    and "v = ABytes d \<Longrightarrow> handler_takes IROH_OP_RECV_DATAGRAM v r h"
    and "v = ABytes d \<Longrightarrow> handler_takes IROH_OP_BLOBS_READ v r h"
    and "v = ABytes d \<Longrightarrow> handler_takes IROH_OP_DOCS_GET v r h"
    and "v = ABytes d \<Longrightarrow> handler_takes IROH_OP_DOCS_GET_LATEST v r h"
    and "v = APairs ps \<Longrightarrow> handler_takes IROH_OP_DOCS_GET_ALL v r h"
  using assms by (auto simp: holds_result_def value_getter_defs)

lemma units_taken:
  "handler_takes IROH_OP_ENDPOINT_WAIT_ONLINE AUnit r h" "handler_takes IROH_OP_ENDPOINT_CLOSE AUnit r h"
  "handler_takes IROH_OP_GOSSIP_BROADCAST AUnit r h" "handler_takes IROH_OP_DOCS_SET AUnit r h"
  "handler_takes IROH_OP_DOCS_DELETE AUnit r h" "handler_takes IROH_OP_STREAM_WRITE (AUsize n) r h"
  by simp_all

lemma typed_result_taken:
  assumes h: "holds_result r h v" and v: "task_result rq v"
  shows "handler_takes (op_of rq) v r h"
proof (cases rq)
  case (RqGossipRecv t)
  with v obtain t d s where "v = AGossipEvent t d s" by (cases v) auto
  with gossip_takes h RqGossipRecv show ?thesis by (simp del: handler_takes.simps)
next
  case (RqRead s m)
  with v obtain d fin where "v = ARead d fin" by (cases v) auto
  with values_taken(1)[OF h] RqRead show ?thesis by (simp del: handler_takes.simps)
qed (use v boxes_taken[OF h] ids_taken[OF h] values_taken(2-)[OF h] in \<open>auto simp: units_taken simp del: handler_takes.simps\<close>)

end
