(* ===== verification/Delivery.thy ===== *)
theory Delivery
  imports StreamCorrect Progress
begin

text \<open>
  What reaches JavaScript: failures as \<open>error\<close> events, answers through the one-shot callbacks; and
  how the five loops go on.
\<close>

section \<open>Failures\<close>

text \<open>The one-shot callbacks stored for an object.\<close>

definition cbs_of :: "world \<Rightarrow> objid \<Rightarrow> (u32 \<Rightarrow> fnid option) option" where
  "cbs_of w i = map_option o_cbs (w_objs w i)"

lemma cbs_of_simps [simp]:
  "cbs_of (log x w) = cbs_of w" "cbs_of (upd_fn f g w) = cbs_of w" "cbs_of (put_listeners this ev t w) = cbs_of w"
  by (auto simp: cbs_of_def log_def upd_fn_def put_listeners_def upd_obj_def fun_eq_iff option.map_comp comp_def)

lemma same_js_cbs: "same_js w w' \<Longrightarrow> cbs_of w' = cbs_of w"
  by (simp add: same_js_def cbs_of_def fun_eq_iff)

lemma run_listeners_plain_cbs:
  "run_listeners (plain_js thr) this ev args ks w = Inr (n, w') \<Longrightarrow> cbs_of w' = cbs_of w"
proof (induction ks arbitrary: w n)
  case (Cons k ks)
  show ?case
  proof (cases "Option.bind (listeners w this ev) (\<lambda>t. map_of t k)")
    case None
    with Cons show ?thesis by auto
  next
    case (Some f)
    then obtain t where t: "listeners w this ev = Some t" "map_of t k = Some f" by (auto split: bind_splits)
    obtain m where "run_listeners (plain_js thr) this ev args ks (after_call thr this ev args k f t w) = Inr (m, w')"
      using Cons.prems unfolding run_listeners_plain_Cons[OF t] by (auto simp: bnd_eq_Inr)
    from Cons.IH[OF this] show ?thesis by (simp add: after_call_def Let_def)
  qed
qed simp

lemma do_callback_plain_cbs:
  "iroh_do_callback env (plain_js thr) this ev arg w = Inr (res, w') \<Longrightarrow> cbs_of w' = cbs_of w"
  by (auto simp: iroh_do_callback_def Let_def bnd_eq_Inr dest: run_listeners_plain_cbs split: if_splits option.splits)

text \<open>What an \<open>error\<close> event with message \<open>m\<close> leaves in the log.\<close>

definition reported :: "'e env_scheme \<Rightarrow> (fnid \<Rightarrow> bool) \<Rightarrow> objid \<Rightarrow> string \<Rightarrow> world \<Rightarrow> obs list" where
  "reported env thr this m w =
     (case called env w this ''error'' of
        [] \<Rightarrow> [Uncaught (c_str m)]
      | fs \<Rightarrow> fired this ''error'' [JErr (c_str m)] thr fs)"

lemma fire_error_plain:
  assumes ok: "emitter_ok w" and en: "enum_ok env" and c: "w_ctxs w a = Some c" and es: "events_of w (thisptr c) \<noteq> None"
  obtains w' where "iroh_fire_error env (plain_js thr) a (Some m) w = Inr w'"
    and "w_log w' = reported env thr (thisptr c) m w @ w_log w" and "w_ops w' = w_ops w" and "cbs_of w' = cbs_of w"
proof (cases "listeners w (thisptr c) ''error''")
  case None
  moreover obtain ev where "events_of w (thisptr c) = Some ev" using es by auto
  ultimately have "iroh_fire_error env (plain_js thr) a (Some m) w = Inr (log (Uncaught (c_str m)) w)"
    using c by (simp add: iroh_fire_error_def emit_def get_ctx_def unprotected_def iroh_do_callback_def listeners_def error_text_def)
  then show ?thesis
    by (rule that) (simp_all add: reported_def called_None[OF en None], simp add: log_def)
next
  case (Some t)
  have enum: "distinct (env_enum_int env (map fst t))" "set (env_enum_int env (map fst t)) = fst ` set t"
    using en emitter_ok_table(1)[OF ok Some] by (simp_all add: enum_ok_def)
  obtain w' where w': "iroh_do_callback env (plain_js thr) (thisptr c) ''error'' (Some (JStr m)) w = Inr (Ret JUndefined, w')"
    "w_log w' = (if t = [] then [Uncaught (c_str m)] else [])
       @ fired (thisptr c) ''error'' [JErr (c_str m)] thr (called env w (thisptr c) ''error'') @ w_log w"
    using do_callback_plain[where env = env and arg = "Some (JStr m)", OF ok Some _ enum, of thr] Some
    by (auto simp: called_def table_of_def Let_def error_text_def)
  have "iroh_fire_error env (plain_js thr) a (Some m) w = Inr w'"
    using c w'(1) by (simp add: iroh_fire_error_def emit_def get_ctx_def unprotected_def)
  moreover have "called env w (thisptr c) ''error'' = [] \<longleftrightarrow> t = []"
    using enum(2) Some by (auto simp: called_def table_of_def Let_def)
  ultimately show ?thesis
    using w'(2) do_callback_plain_frame[OF w'(1)] do_callback_plain_cbs[OF w'(1)]
    by (intro that[of w']) (auto simp: reported_def split: list.splits)
qed

lemma fail_op_plain:
  assumes inv: "Inv w" and ok: "emitter_ok w" and en: "enum_ok env" and x: "w_ops w p = Some x"
    and c: "w_ctxs w (aop_ictx x) = Some c" and h: "aop_handle x = Some h" "r_handles (w_rust w) h = Some ah"
  obtains w' where "fail_op env (plain_js thr) p dflt w = Inr w'" and "w_ops w' = (w_ops w)(p := None)" and "cbs_of w' = cbs_of w"
    and "w_log w' = reported env thr (thisptr c) (or_default (Option.bind (h_error ah) cstring_new) dflt) w @ w_log w"
proof -
  let ?m = "or_default (Option.bind (h_error ah) cstring_new) dflt"
  have "h_cref ah" using Inv_op[OF inv x] h by (auto simp: op_ok_def handle_live_def)
  then have e: "iroh_async_get_error (w_rust w) (aop_handle x) = Inr (Option.bind (h_error ah) cstring_new)"
    using h by (simp add: iroh_async_get_error_def get_handle_def)
  obtain w2 where f: "iroh_free_async_op p w = Inr w2" using free_async_op_view[OF inv x] by blast
  obtain xs n where c2: "w_ctxs w2 (aop_ictx x) = Some (c\<lparr>pending_ops := xs, npending := n\<rparr>)"
    and 2: "same_js w w2" "w_ops w2 = (w_ops w)(p := None)"
    using free_async_op_same[OF f] c by blast
  have es: "events_of w2 (thisptr c) \<noteq> None" using Inv_emitter[OF inv c] 2(1) by (simp add: same_js_def events_of_def)
  obtain w' where "iroh_fire_error env (plain_js thr) (aop_ictx x) (Some ?m) w2 = Inr w'"
    "w_log w' = reported env thr (thisptr c) ?m w2 @ w_log w2" "w_ops w' = w_ops w2" "cbs_of w' = cbs_of w2"
    using fire_error_plain[where thr = thr and m = ?m and w = w2, OF _ en c2] ok es same_js_emitter(1)[OF 2(1)] by auto
  moreover have "reported env thr (thisptr c) ?m w2 = reported env thr (thisptr c) ?m w"
    using called_cong[of w2 "thisptr c" "''error''" w env] same_js_emitter(2)[OF 2(1)] by (simp add: reported_def)
  ultimately show ?thesis
    using x e f 2 same_js_emitter(4)[OF 2(1)] same_js_cbs[OF 2(1)] by (intro that[of w']) (simp_all add: fail_op_def)
qed

text \<open>The operations whose handler answers a failure with \<open>error\<close> alone, and the message used when the task left none.\<close>

fun fail_text :: "iroh_op_type \<Rightarrow> string option" where
  "fail_text IROH_OP_ENDPOINT_CREATE = Some ''endpoint creation failed''"
| "fail_text IROH_OP_CONNECT = Some ''connect failed''"
| "fail_text IROH_OP_GOSSIP_CREATE = Some ''gossip creation failed''"
| "fail_text IROH_OP_GOSSIP_SUBSCRIBE = Some ''gossip subscribe failed''"
| "fail_text IROH_OP_GOSSIP_BROADCAST = Some ''broadcast failed''"
| "fail_text IROH_OP_BLOBS_CREATE = Some ''blobs creation failed''"
| "fail_text IROH_OP_BLOBS_ADD_BYTES = Some ''blob add failed''"
| "fail_text IROH_OP_BLOBS_ADD_FILE = Some ''blob add failed''"
| "fail_text IROH_OP_BLOBS_READ = Some ''blob read failed''"
| "fail_text IROH_OP_BLOBS_DOWNLOAD = Some ''blob download failed''"
| "fail_text IROH_OP_DOCS_CREATE = Some ''docs creation failed''"
| "fail_text IROH_OP_DOCS_CREATE_AUTHOR = Some ''docs operation failed''"
| "fail_text IROH_OP_DOCS_CREATE_DOC = Some ''docs operation failed''"
| "fail_text IROH_OP_DOCS_JOIN = Some ''docs operation failed''"
| "fail_text IROH_OP_DOCS_SET = Some ''docs set failed''"
| "fail_text IROH_OP_DOCS_DELETE = Some ''docs set failed''"
| "fail_text IROH_OP_DOCS_GET = Some ''docs get failed''"
| "fail_text IROH_OP_DOCS_GET_LATEST = Some ''docs getAttr failed''"
| "fail_text IROH_OP_DOCS_GET_ALL = Some ''docs getAll failed''"
| "fail_text IROH_OP_DOCS_CREATE_TICKET = Some ''docs createTicket failed''"
| "fail_text _ = None"

lemmas failing_handler_defs =
  iroh_on_endpoint_created_def iroh_on_connected_def iroh_on_gossip_created_def iroh_on_gossip_subscribed_def
  iroh_on_gossip_broadcast_def
  iroh_on_blobs_created_def iroh_on_blobs_added_def iroh_on_blobs_read_def iroh_on_blobs_downloaded_def
  iroh_on_docs_created_def iroh_on_docs_id_result_def iroh_on_docs_author_created_def iroh_on_docs_doc_created_def
  iroh_on_docs_joined_def iroh_on_docs_set_done_def iroh_on_docs_delete_done_def iroh_on_docs_get_done_def
  iroh_on_docs_get_latest_done_def iroh_on_docs_get_all_done_def iroh_on_docs_ticket_created_def

lemma dispatch_failed:
  assumes "w_ops w p = Some x" and "fail_text (aop_op x) = Some dflt" and "state \<noteq> Ready"
  shows "iroh_dispatch_result env js p state w = fail_op env js p dflt w"
  using assms by (cases "aop_op x") (auto simp: iroh_dispatch_result_def failing_handler_defs Let_def)


text \<open>The docs object of \<open>one_op\<close> after its operation has failed.\<close>

definition failed_op :: world where
  "failed_op = one_op\<lparr>w_rust := (w_rust one_op)\<lparr>r_handles := [1 \<mapsto> complete_with_error ''disk full'' (handle_new 1 (RqCreateAuthor 0))]\<rparr>\<rparr>"

lemma failed_op_simps:
  "Inv failed_op" "emitter_ok failed_op" "listeners failed_op 0 ev = None" "w_log failed_op = []"
  by (auto simp: failed_op_def one_op_def complete_with_error_def emitter_ok_def listeners_def events_of_def Inv_concrete
      split: if_splits)


section \<open>Loops\<close>

text \<open>The five loops: operation, flag, the object the loop works on, the start function and the request it makes.\<close>

definition loop_ops :: "'e env_scheme \<Rightarrow>
    (iroh_op_type \<times> u16 \<times> (RPIROH \<Rightarrow> rid option) \<times> (rust \<Rightarrow> rid option \<Rightarrow> fault + hid option \<times> rust) \<times> (rid \<Rightarrow> req)) list" where
  "loop_ops env =
     [(IROH_OP_ENDPOINT_ACCEPT, RPIROH_FLAG_ACCEPTING, endpoint, iroh_endpoint_accept env, RqAccept),
      (IROH_OP_ACCEPT_BI, RPIROH_FLAG_STREAM_ACCEPT, conn_p, iroh_connection_accept_bi env, RqAcceptBi),
      (IROH_OP_STREAM_READ, RPIROH_FLAG_READING, recv_p, \<lambda>r s. iroh_recv_stream_read env r s 65536, \<lambda>s. RqRead s 65536),
      (IROH_OP_RECV_DATAGRAM, RPIROH_FLAG_DATAGRAM_RECV, conn_p, iroh_connection_recv_datagram env, RqRecvDatagram),
      (IROH_OP_GOSSIP_RECV, RPIROH_FLAG_READING, topic_handle, iroh_gossip_recv env, RqGossipRecv)]"

lemma loop_start:
  assumes inv: "Inv w" and c: "w_ctxs w a = Some c" and l: "(op, fl, sel, start, rq) \<in> set (loop_ops env)" and s: "sel c = Some n"
    and rt: "r_runtime (w_rust w)"
  shows "start (w_rust w) (sel c) = Inr (spawn env (w_rust w) (rq n))"
  using l s rt Inv_res[OF inv c] unfolding loop_ops_def
  by (auto simp: iroh_endpoint_accept_def iroh_connection_accept_bi_def iroh_recv_stream_read_def
      iroh_connection_recv_datagram_def iroh_gossip_recv_def ffi_start_def spawn_def split: option.splits)

lemma spawn_cases:
  assumes "r_runtime r"
  shows "env_pipe env (r_next r) = None \<Longrightarrow> spawn env r rq = (None, set_last_error ''Failed to create async handle'' r)"
    and "env_pipe env (r_next r) = Some fd \<Longrightarrow>
      spawn env r rq = (Some (r_next r), (put_handle (r_next r) (handle_new fd rq) r)\<lparr>r_next := Suc (r_next r)\<rparr>)"
  using assms by (simp_all add: spawn_def)

text \<open>One more round of a loop, with a handle to be had.\<close>

lemma arm_loop_runs:
  assumes c: "w_ctxs w a = Some c" "pending_ok c" "length (pending c) < 32768"
    and s: "in_rust w start = Inr (Some h, w1)" "w1 = w\<lparr>w_rust := r\<rparr>" "r_handles r h = Some (handle_new fd rq)"
  obtains w' c' where "arm_loop env a op fl start w = Inr w'" and "w_ctxs w' = (w_ctxs w)(a \<mapsto> c')" and "flags c' = flags c"
    and "if 0 \<le> fd \<and> env_event_new env (w_next w)
         then w_ops w' = (w_ops w)(w_next w \<mapsto> \<lparr>aop_ictx = a, aop_handle = Some h, aop_op = op, aop_ev = Some (w_next w), aop_aux = 0\<rparr>)
           \<and> w_evs w' = (w_evs w)(w_next w := True) \<and> pending c' = pending c @ [w_next w] \<and> r_handles (w_rust w') h = Some (handle_new fd rq)
         else w_ops w' = w_ops w \<and> w_evs w' = w_evs w \<and> pending c' = pending c"
proof (cases "0 \<le> fd \<and> env_event_new env (w_next w)")
  case True
  obtain w' c' where "iroh_start_async env a (Some h) op 0 w1 = Inr (Some (w_next w1), w')"
    "w_ops w' = (w_ops w1)(w_next w1 \<mapsto> \<lparr>aop_ictx = a, aop_handle = Some h, aop_op = op, aop_ev = Some (w_next w1), aop_aux = 0\<rparr>)"
    "w_evs w' = (w_evs w1)(w_next w1 := True)" "w_ctxs w' = (w_ctxs w1)(a \<mapsto> c')" "pending c' = pending c @ [w_next w1]"
    "flags c' = flags c" "w_rust w' = w_rust w1"
    by (rule start_async_event[of w1 a c h "handle_new fd rq" env op 0]) (use c s True in \<open>simp_all add: handle_new_def\<close>)
  with s True show ?thesis by (intro that[of w' c']) (simp_all add: arm_loop_def)
next
  case False
  obtain w' where "iroh_start_async env a (Some h) op 0 w1 = Inr (None, w')" "w_ops w' = w_ops w1" "w_evs w' = w_evs w1" "w_ctxs w' = w_ctxs w1"
    by (rule start_async_no_event[of w1 a c h "handle_new fd rq" env op 0]) (use c s False in \<open>auto simp: handle_new_def\<close>)
  with s c False show ?thesis by (intro that[of w' c]) (auto simp: arm_loop_def)
qed



end
