(* ===== verification/Answers.thy ===== *)
theory Answers
  imports Delivery
begin

text \<open>
  The one-shot callbacks given with a method call: what they are called with when the operation
  has succeeded.
\<close>

section \<open>Handing an answer over\<close>

definition answered ::
  "(fnid \<Rightarrow> bool) \<Rightarrow> opaddr \<Rightarrow> u32 \<Rightarrow> objid \<Rightarrow> string \<Rightarrow> jsval list \<Rightarrow> world \<Rightarrow> world \<Rightarrow> bool" where
  "answered thr p i this what args w w' \<longleftrightarrow>
     w_ops w' = (w_ops w)(p := None) \<and> r_tmp (w_rust w') = r_tmp (w_rust w)
     \<and> cbs_of w' = (cbs_of w)(this := map_option (\<lambda>m. m(i := None)) (cbs_of w this))
     \<and> w_log w' = (case Option.bind (cbs_of w this) (\<lambda>m. m i) of
          None \<Rightarrow> []
        | Some f \<Rightarrow> (if thr f then [CallbackError what f] else []) @ [Invoke f this what args]) @ w_log w"

lemma oneshot_plain:
  assumes "w_ctxs w a = Some c" and "thisptr c = this"
  obtains w' where "oneshot (plain_js thr) a i what args w = Inr w'" and "w_ops w' = w_ops w" and "w_rust w' = w_rust w"
    and "cbs_of w' = (cbs_of w)(this := map_option (\<lambda>m. m(i := None)) (cbs_of w (this)))"
    and "w_log w' = (case Option.bind (cbs_of w (this)) (\<lambda>m. m i) of
          None \<Rightarrow> []
        | Some f \<Rightarrow> (if thr f then [CallbackError what f] else []) @ [Invoke f (this) what args]) @ w_log w"
proof (cases "Option.bind (w_objs w (this)) (\<lambda>ob. o_cbs ob i)")
  case None
  have "oneshot (plain_js thr) a i what args w = Inr w"
    using assms None by (simp add: oneshot_def iroh_prep_cb_def get_ctx_def)
  moreover have "cbs_of w = (cbs_of w)(this := map_option (\<lambda>m. m(i := None)) (cbs_of w (this)))"
    using None by (cases "w_objs w (this)") (auto simp: cbs_of_def fun_eq_iff)
  moreover have "Option.bind (cbs_of w (this)) (\<lambda>m. m i) = None"
    using None by (cases "w_objs w (this)") (simp_all add: cbs_of_def)
  ultimately show ?thesis by (intro that[of w]) simp_all
next
  case (Some f)
  then obtain ob where ob: "w_objs w (this) = Some ob" "o_cbs ob i = Some f" by (auto split: bind_splits)
  let ?w = "log (Invoke f (this) what args) (upd_obj (this) (\<lambda>ob. ob\<lparr>o_cbs := (o_cbs ob)(i := None)\<rparr>) w)"
  let ?w' = "if thr f then log (CallbackError what f) ?w else ?w"
  have run: "oneshot (plain_js thr) a i what args w = Inr ?w'"
    using assms Some by (simp add: oneshot_def iroh_prep_cb_def get_ctx_def pcall_cb_def plain_js_def)
  have cb: "cbs_of ?w' = (cbs_of w)(this := map_option (\<lambda>m. m(i := None)) (cbs_of w (this)))"
    using ob by (auto simp: cbs_of_def upd_obj_def fun_eq_iff log_def)
  show ?thesis
    by (rule that[OF run _ _ cb]) (use ob in \<open>simp_all add: cbs_of_def log_def upd_obj_def\<close>)
qed

text \<open>Taking a result and releasing the operation.\<close>

lemma take_then_free:
  assumes inv: "Inv w" and x: "w_ops w p = Some x" and c: "w_ctxs w (aop_ictx x) = Some c" and s: "rstep (w_rust w) r"
  obtains w2 c2 where "iroh_free_async_op p (w\<lparr>w_rust := r\<rparr>) = Inr w2" and "same_js w w2" and "w_ops w2 = (w_ops w)(p := None)"
    and "w_ctxs w2 (aop_ictx x) = Some c2" and "thisptr c2 = thisptr c" and "r_tmp (w_rust w2) = r_tmp r"
proof -
  let ?w = "w\<lparr>w_rust := r\<rparr>"
  obtain w2 where f: "iroh_free_async_op p ?w = Inr w2" "r_tmp (w_rust w2) = r_tmp r"
    by (rule free_async_op_view[OF Inv_rust[OF inv s], of p x]) (use x in \<open>simp_all\<close>)
  have j: "same_js w ?w" by (simp add: same_js_def)
  obtain xs n where c2: "w_ctxs w2 (aop_ictx x) = Some (c\<lparr>pending_ops := xs, npending := n\<rparr>)"
    using free_async_op_same[OF f(1)] c by (simp, blast)
  show ?thesis
    by (rule that[OF f(1) _ _ c2 _ f(2)]) (use free_async_op_same[OF f(1)] same_js_trans[OF j] in simp_all)
qed

lemma free_and_answer:
  assumes inv: "Inv w" and x: "w_ops w p = Some x" and c: "w_ctxs w (aop_ictx x) = Some c" and s: "rstep (w_rust w) r"
    and t: "r_tmp r = r_tmp (w_rust w)"
  shows "\<exists>w'. bnd (iroh_free_async_op p (w\<lparr>w_rust := r\<rparr>)) (oneshot (plain_js thr) (aop_ictx x) i what args) = Inr w'
     \<and> answered thr p i (thisptr c) what args w w'"
proof -
  obtain w2 c2 where 2: "iroh_free_async_op p (w\<lparr>w_rust := r\<rparr>) = Inr w2" "same_js w w2" "w_ops w2 = (w_ops w)(p := None)"
    "w_ctxs w2 (aop_ictx x) = Some c2" "thisptr c2 = thisptr c" "r_tmp (w_rust w2) = r_tmp r"
    by (rule take_then_free[OF inv x c s])
  obtain w' where "oneshot (plain_js thr) (aop_ictx x) i what args w2 = Inr w'" "w_ops w' = w_ops w2" "w_rust w' = w_rust w2"
    "cbs_of w' = (cbs_of w2)(thisptr c := map_option (\<lambda>m. m(i := None)) (cbs_of w2 (thisptr c)))"
    "w_log w' = (case Option.bind (cbs_of w2 (thisptr c)) (\<lambda>m. m i) of
          None \<Rightarrow> []
        | Some f \<Rightarrow> (if thr f then [CallbackError what f] else []) @ [Invoke f (thisptr c) what args]) @ w_log w2"
    by (rule oneshot_plain[OF 2(4,5)])
  with 2 t same_js_cbs[OF 2(2)] same_js_emitter(4)[OF 2(2)] show ?thesis by (simp add: answered_def)
qed

lemma free_answer_id:
  assumes inv: "Inv w" and x: "w_ops w p = Some x" and c: "w_ctxs w (aop_ictx x) = Some c"
    and g: "tmp_added k (Some n) (w_rust w) r" "r_tmp r n = Some (k, s)"
  shows "\<exists>w'. bnd (iroh_free_async_op p (w\<lparr>w_rust := r\<rparr>)) (\<lambda>w. bnd (id_val k (Some n) (w_rust w)) (\<lambda>v.
       bnd (oneshot (plain_js thr) (aop_ictx x) i what [v] w) (\<lambda>w. in_rust' w (tmp_free k (Some n))))) = Inr w'
     \<and> answered thr p i (thisptr c) what [JStr (or_default (cstring_new s) [])] w w'"
proof -
  let ?args = "[JStr (or_default (cstring_new s) [])]"
  have st: "rstep (w_rust w) r" using g(1) by (simp add: tmp_added_def)
  obtain w2 c2 where 2: "iroh_free_async_op p (w\<lparr>w_rust := r\<rparr>) = Inr w2" "same_js w w2" "w_ops w2 = (w_ops w)(p := None)"
    "w_ctxs w2 (aop_ictx x) = Some c2" "thisptr c2 = thisptr c" "r_tmp (w_rust w2) = r_tmp r"
    by (rule take_then_free[OF inv x c st])
  have v: "id_val k (Some n) (w_rust w2) = Inr (hd ?args)"
    using g(2) 2(6) by (simp add: id_val_def tmp_to_string_def tmp_val_def)
  obtain w' where w': "oneshot (plain_js thr) (aop_ictx x) i what ?args w2 = Inr w'" "w_ops w' = w_ops w2" "w_rust w' = w_rust w2"
    "cbs_of w' = (cbs_of w2)(thisptr c := map_option (\<lambda>m. m(i := None)) (cbs_of w2 (thisptr c)))"
    "w_log w' = (case Option.bind (cbs_of w2 (thisptr c)) (\<lambda>m. m i) of
          None \<Rightarrow> []
        | Some f \<Rightarrow> (if thr f then [CallbackError what f] else []) @ [Invoke f (thisptr c) what ?args]) @ w_log w2"
    by (rule oneshot_plain[OF 2(4,5)])
  have "r_next (w_rust w) \<le> n" using g(1) by (simp add: tmp_added_def)
  then have "r_tmp (w_rust w) n = None" using RInv_fresh(3)[OF Inv_RInv[OF inv]] by simp
  moreover obtain t where "r_tmp r = (r_tmp (w_rust w))(n \<mapsto> (k, t))" using g(1) by (auto simp: tmp_added_def)
  ultimately have orig: "(r_tmp r)(n := None) = r_tmp (w_rust w)" by auto
  let ?w = "w'\<lparr>w_rust := (w_rust w')\<lparr>r_tmp := (r_tmp r)(n := None)\<rparr>\<rparr>"
  have "in_rust' w' (tmp_free k (Some n)) = Inr ?w" using g(2) w'(3) 2(6) by (simp add: in_rust'_def tmp_free_def)
  moreover have "cbs_of ?w = cbs_of w'" by (simp add: cbs_of_def fun_eq_iff)
  ultimately show ?thesis
    using v 2 w' orig same_js_cbs[OF 2(2)] same_js_emitter(4)[OF 2(2)] by (simp add: answered_def)
qed

section \<open>The operations with a one-shot callback\<close>

text \<open>The name used in messages and the arguments the callback of an operation gets for a result \<open>v\<close>.\<close>

definition bytes_arg :: "bytes \<Rightarrow> jsval list" where
  "bytes_arg d = [if d = [] then JNull else JBuf d]"

definition id_arg :: "string \<Rightarrow> jsval list" where
  "id_arg s = [JStr (or_default (cstring_new s) [])]"

definition answer :: "iroh_op_type \<Rightarrow> rust_any \<Rightarrow> (string \<times> jsval list) option" where
  "answer op v =
     (case op of
        IROH_OP_BLOBS_READ \<Rightarrow> map_option (\<lambda>d. (''blobs.read'', bytes_arg d)) (as_bytes v)
      | IROH_OP_DOCS_GET \<Rightarrow> map_option (\<lambda>d. (''docs.get'', bytes_arg d)) (as_bytes v)
      | IROH_OP_DOCS_GET_LATEST \<Rightarrow> map_option (\<lambda>d. (''docs.getAttr'', bytes_arg d)) (as_bytes v)
      | IROH_OP_BLOBS_DOWNLOAD \<Rightarrow> map_option (\<lambda>s. (''download'', id_arg s)) (as_hash v)
      | IROH_OP_DOCS_CREATE_AUTHOR \<Rightarrow> map_option (\<lambda>s. (''docs'', id_arg s)) (as_author v)
      | IROH_OP_DOCS_CREATE_DOC \<Rightarrow> map_option (\<lambda>s. (''docs'', id_arg s)) (as_namespace v)
      | IROH_OP_DOCS_JOIN \<Rightarrow> map_option (\<lambda>s. (''docs'', id_arg s)) (as_namespace v)
      | IROH_OP_DOCS_CREATE_TICKET \<Rightarrow> map_option (\<lambda>s. (''docs.createTicket'', id_arg s)) (as_ticket v)
      | IROH_OP_DOCS_SET \<Rightarrow> Some (''docs.set'', [])
      | IROH_OP_DOCS_DELETE \<Rightarrow> Some (''docs.set'', [])
      | _ \<Rightarrow> None)"

lemma as_bytes_SomeD: "as_bytes v = Some d \<Longrightarrow> v = ABytes d"
  by (cases v) simp_all

lemma take_tmp_runs:
  assumes "RInv r" and "r_handles r h = Some ah" "h_cref ah" "h_result ah = Some v" and "f v = Some s"
  obtains n r' where "take_tmp f k r (Some h) = Inr (Some n, r')" and "tmp_added k (Some n) r r'" and "r_tmp r' n = Some (k, s)"
proof -
  have live: "handle_live r h" using assms(2,3) by (simp add: handle_live_def)
  obtain n r' where t: "take_tmp f k r (Some h) = Inr (Some n, r')" "r_tmp r' n = Some (k, s)"
    using assms(2-5) by (simp add: take_tmp_def take_result_def get_handle_def tmp_into_raw_def)
  with gets_take_tmp[OF assms(1) live, of f k] show ?thesis by (intro that[of n r']) simp_all
qed

text \<open>The three shapes of handler: bytes, an id, nothing.\<close>

lemma bytes_answered:
  assumes inv: "Inv w" and x: "w_ops w p = Some x" and c: "w_ctxs w (aop_ictx x) = Some c"
    and h: "aop_handle x = Some h" "r_handles (w_rust w) h = Some ah" "h_cref ah" "h_result ah = Some v" and v: "as_bytes v = Some d"
    and get: "get \<in> {iroh_docs_get_result, iroh_docs_get_latest_result, iroh_blobs_read_result}"
  shows "\<exists>w'. bnd (in_rust w (\<lambda>r. get r (aop_handle x))) (\<lambda>(d, w).
       bnd (iroh_free_async_op p w) (oneshot (plain_js thr) (aop_ictx x) i what [bytes_val d])) = Inr w'
     \<and> answered thr p i (thisptr c) what (bytes_arg d) w w'"
proof -
  let ?r = "put_handle h (ah\<lparr>h_result := None\<rparr>) (w_rust w)"
  have "get (w_rust w) (aop_handle x) = Inr (if d = [] then None else Some d, ?r)"
    using get h v by (auto simp: iroh_docs_get_result_def iroh_docs_get_latest_result_def iroh_blobs_read_result_def
        take_result_def get_handle_def)
  then have g: "in_rust w (\<lambda>r. get r (aop_handle x)) = Inr (if d = [] then None else Some d, w\<lparr>w_rust := ?r\<rparr>)"
    by (simp add: in_rust_def)
  have "rstep (w_rust w) ?r" by (rule rstep_put_handle[OF h(2)]) simp_all
  from free_and_answer[OF inv x c this, of thr i what "[bytes_val (if d = [] then None else Some d)]"] g
  show ?thesis by (cases "d = []") (simp_all add: bytes_val_def bytes_arg_def)
qed

lemma id_answered:
  assumes inv: "Inv w" and x: "w_ops w p = Some x" and c: "w_ctxs w (aop_ictx x) = Some c"
    and h: "aop_handle x = Some h" "r_handles (w_rust w) h = Some ah" "h_cref ah" "h_result ah = Some v"
    and f: "f v = Some s"
  shows "\<exists>w'. bnd (in_rust w (\<lambda>r. take_tmp f k r (aop_handle x))) (\<lambda>(y, w).
       bnd (iroh_free_async_op p w) (\<lambda>w. bnd (id_val k y (w_rust w)) (\<lambda>v.
       bnd (oneshot (plain_js thr) (aop_ictx x) i what [v] w) (\<lambda>w. in_rust' w (tmp_free k y))))) = Inr w'
     \<and> answered thr p i (thisptr c) what (id_arg s) w w'"
proof -
  obtain n r where r: "take_tmp f k (w_rust w) (Some h) = Inr (Some n, r)" "tmp_added k (Some n) (w_rust w) r" "r_tmp r n = Some (k, s)"
    by (rule take_tmp_runs[where k = k and f = f, OF Inv_RInv[OF inv] h(2-4) f])
  from free_answer_id[OF inv x c r(2,3), of thr i what] r(1) h(1) show ?thesis by (simp add: in_rust_def id_arg_def)
qed

lemmas id_handler_defs = iroh_on_blobs_downloaded_def iroh_on_docs_author_created_def iroh_on_docs_doc_created_def
  iroh_on_docs_joined_def iroh_on_docs_id_result_def iroh_on_docs_ticket_created_def

lemmas id_getter_defs = iroh_blobs_download_result_def iroh_docs_create_author_result_def iroh_docs_create_doc_result_def
  iroh_docs_join_result_def iroh_docs_create_ticket_result_def


text \<open>A docs object whose \<open>get\<close> has found two bytes; the callback is function 9.\<close>

definition get_done :: world where
  "get_done = (one_ctx IROH_OBJ_DOCS
       (\<lambda>c. c\<lparr>docs_p := Some 0, next_cb_id := 1, pending_ops := [2, 0, 0, 0, 0, 0, 0, 0], npending := 1, pending_alloc := 8\<rparr>)
       (\<lambda>r. r\<lparr>r_handles := [1 \<mapsto> complete_with_result (ABytes [7, 8]) (handle_new 1 (RqDocsGet 0 ''ns'' ''author'' ''key''))],
          r_res := [0 \<mapsto> KDocs], r_next := 2\<rparr>))
     \<lparr>w_ops := [2 \<mapsto> \<lparr>aop_ictx = 1, aop_handle = Some 1, aop_op = IROH_OP_DOCS_GET, aop_ev = Some 2, aop_aux = 1\<rparr>],
      w_evs := (\<lambda>p. p = 2), w_next := 3,
      w_objs := [0 \<mapsto> empty_obj\<lparr>o_events := Some [], o_ictx := Some 1, o_cbs := [1 \<mapsto> 9]\<rparr>]\<rparr>"

lemma Inv_get_done: "Inv get_done"
  by (auto simp: get_done_def complete_with_result_def Inv_concrete split: if_splits)

lemma get_done_simps:
  "w_ops get_done 2 = Some \<lparr>aop_ictx = 1, aop_handle = Some 1, aop_op = IROH_OP_DOCS_GET, aop_ev = Some 2, aop_aux = 1\<rparr>"
  "\<exists>c. w_ctxs get_done 1 = Some c \<and> thisptr c = 0" "cbs_of get_done 0 = Some [1 \<mapsto> 9]" "w_log get_done = []"
  "\<exists>ah. r_handles (w_rust get_done) 1 = Some ah \<and> h_state ah = Ready \<and> h_result ah = Some (ABytes [7, 8])"
  by (simp_all add: get_done_def one_ctx_def zero_ctx_def boot_def cbs_of_def complete_with_result_def)


end
