(* ===== verification/Arrivals.thy ===== *)
theory Arrivals
  imports Answers
begin

text \<open>
  What arrives unasked: gossip events on a topic and connections on an endpoint.
\<close>

section \<open>Emitting with a result\<close>

lemma run_listeners_plain_objs:
  "run_listeners (plain_js thr) this ev args ks w = Inr (n, w') \<Longrightarrow> i \<noteq> this \<Longrightarrow> w_objs w' i = w_objs w i"
proof (induction ks arbitrary: w n)
  case (Cons k ks)
  have put: "w_objs (put_listeners this ev t w) i = w_objs w i" "w_objs (log y w) = w_objs w" for t w y
    using Cons.prems(2) by (simp_all add: put_listeners_def upd_obj_def log_def)
  show ?case
  proof (cases "Option.bind (listeners w this ev) (\<lambda>t. map_of t k)")
    case None
    with Cons show ?thesis by auto
  next
    case (Some f)
    then obtain t where t: "listeners w this ev = Some t" "map_of t k = Some f" by (auto split: bind_splits)
    obtain m where "run_listeners (plain_js thr) this ev args ks (after_call thr this ev args k f t w) = Inr (m, w')"
      using Cons.prems(1) unfolding run_listeners_plain_Cons[OF t] by (auto simp: bnd_eq_Inr)
    from Cons.IH[OF this Cons.prems(2)] show ?thesis by (simp add: after_call_def Let_def put)
  qed
qed simp

lemma emit_plain_result:
  assumes "emitter_ok w" and "enum_ok env" and c: "w_ctxs w a = Some c"
    and "events_of w (thisptr c) \<noteq> None" and "ev \<noteq> ''error''" and e: "emit env (plain_js thr) a ev (Some v) w = Inr w'"
  shows "w_log w' = fired (thisptr c) ev [v] thr (called env w (thisptr c) ev) @ w_log w"
    and "i \<noteq> thisptr c \<Longrightarrow> w_objs w' i = w_objs w i"
proof -
  obtain u where "emit env (plain_js thr) a ev (Some v) w = Inr u" "rang env thr (thisptr c) ev [v] w u"
    using emit_plain[OF assms(1-5), of thr "Some v"] by auto
  with e show "w_log w' = fired (thisptr c) ev [v] thr (called env w (thisptr c) ev) @ w_log w" by (simp add: rang_def)
  obtain res where "iroh_do_callback env (plain_js thr) (thisptr c) ev (Some v) w = Inr (res, w')"
    using e c by (cases "iroh_do_callback env (plain_js thr) (thisptr c) ev (Some v) w")
      (auto simp: emit_def get_ctx_def unprotected_def split: jsres.splits)
  then show "w_objs w' i = w_objs w i" if "i \<noteq> thisptr c"
    using that assms(5) by (auto simp: iroh_do_callback_def Let_def bnd_eq_Inr dest: run_listeners_plain_objs split: if_splits option.splits)
qed

section \<open>Gossip events\<close>

abbreviation peer_str :: "string option \<Rightarrow> string" where
  "peer_str s \<equiv> or_default (Option.bind s cstring_new) []"

text \<open>What a gossip event shows to JavaScript: the event fired and its argument, \<open>i\<close> being the message object.\<close>

definition gossip_fired :: "'e env_scheme \<Rightarrow> (fnid \<Rightarrow> bool) \<Rightarrow> objid \<Rightarrow> objid \<Rightarrow> nat \<Rightarrow> string option \<Rightarrow> world \<Rightarrow> obs list" where
  "gossip_fired env thr i this t s w =
     (case event_type_of t of
        Received \<Rightarrow> fired this ''message'' [JObj i] thr (called env w this ''message'')
      | NeighborUp \<Rightarrow> fired this ''peerJoin'' [JStr (peer_str s)] thr (called env w this ''peerJoin'')
      | NeighborDown \<Rightarrow> fired this ''peerLeave'' [JStr (peer_str s)] thr (called env w this ''peerLeave'')
      | _ \<Rightarrow> [])"

definition message_object :: "bytes \<Rightarrow> string option \<Rightarrow> (string \<times> jsval) list" where
  "message_object d s = (if d = [] then [] else [(''data'', JBuf d)]) @ (case s of None \<Rightarrow> [] | Some _ \<Rightarrow> [(''sender'', JStr (peer_str s))])"

lemma gossip_result:
  assumes "RInv r" and "r_handles r h = Some ah" "h_cref ah" "h_result ah = Some (AGossipEvent t d s)"
  obtains ev r' where "iroh_gossip_recv_result r (Some h) = Inr (ev, r')" and "tmp_added TPublicKey (ge_peer ev) r r'"
    and "ge_type ev = event_type_of t" and "peer_text (ge_peer ev) r' = Inr (peer_str s)"
    and "message_props ev (peer_str s) = message_object d s"
proof -
  have live: "handle_live r h" using assms(2,3) by (simp add: handle_live_def)
  obtain ev r' where g: "iroh_gossip_recv_result r (Some h) = Inr (ev, r')" "ge_type ev = event_type_of t"
    "peer_text (ge_peer ev) r' = Inr (peer_str s)" "message_props ev (peer_str s) = message_object d s"
    using assms(2-4) by (cases s) (auto simp: iroh_gossip_recv_result_def take_result_def get_handle_def tmp_into_raw_def
        peer_text_def tmp_to_string_def tmp_val_def message_props_def message_object_def)
  with gets_gossip_recv[OF assms(1) live] show ?thesis by (intro that[of ev r']) simp_all
qed

lemma peer_text_cong: "r_tmp r = r_tmp r' \<Longrightarrow> peer_text p r = peer_text p r'"
  by (simp add: peer_text_def tmp_to_string_def tmp_val_def split: option.splits)

lemma new_obj_js:
  assumes "new_obj (empty_obj\<lparr>o_props := ps\<rparr>) w = (ob, w')" and "w_objs w (w_nextobj w) = None"
  shows "ob = w_nextobj w" "w_ctxs w' = w_ctxs w" "w_log w' = w_log w" "emitter_ok w' = emitter_ok w" "listeners w' = listeners w"
    and "w_objs w' ob = Some (empty_obj\<lparr>o_props := ps\<rparr>)" and "i \<noteq> ob \<Longrightarrow> w_objs w' i = w_objs w i"
proof -
  show l: "listeners w' = listeners w"
    using assms by (auto simp: new_obj_def listeners_def events_of_def empty_obj_def fun_eq_iff)
  show "emitter_ok w' = emitter_ok w" unfolding emitter_ok_def l using assms(1) by (simp add: new_obj_def, clarsimp)
qed (use assms in \<open>auto simp: new_obj_def\<close>)

lemma deliver_plain:
  assumes ok: "emitter_ok w" and en: "enum_ok env" and c: "w_ctxs w a = Some c" and es: "events_of w (thisptr c) \<noteq> None"
    and fr: "w_objs w (w_nextobj w) = None" and pt: "peer_text (ge_peer ev) (w_rust w) = Inr (peer_str s)"
    and ev: "ge_type ev = event_type_of t" "message_props ev (peer_str s) = message_object d s"
    and g: "gossip_deliver env (plain_js thr) a ev w = Inr w'"
  shows "w_log w' = gossip_fired env thr (w_nextobj w) (thisptr c) t s w @ w_log w"
    and "event_type_of t = Received \<Longrightarrow> map_option o_props (w_objs w' (w_nextobj w)) = Some (message_object d s)"
proof -
  have ne: "thisptr c \<noteq> w_nextobj w" using es fr by (auto simp: events_of_def)
  have msg: "w_log w' = gossip_fired env thr (w_nextobj w) (thisptr c) t s w @ w_log w
      \<and> map_option o_props (w_objs w' (w_nextobj w)) = Some (message_object d s)" if r: "event_type_of t = Received"
  proof -
    obtain ob w1 where n: "new_obj (empty_obj\<lparr>o_props := message_object d s\<rparr>) w = (ob, w1)" by force
    note o = new_obj_js[OF n fr]
    have e: "emit env (plain_js thr) a ''message'' (Some (JObj ob)) w1 = Inr w'"
      using g pt ev n r by (simp add: gossip_deliver_def)
    have "events_of w1 (thisptr c) \<noteq> None" using es o(1,7) ne by (simp add: events_of_def)
    from emit_plain_result[OF _ en _ this _ e] o ok c ne r called_cong[of w1 "thisptr c" "''message''" w env]
    show ?thesis by (simp add: gossip_fired_def)
  qed
  show "w_log w' = gossip_fired env thr (w_nextobj w) (thisptr c) t s w @ w_log w"
  proof (cases "event_type_of t")
    case Received
    with msg show ?thesis by blast
  next
    case NeighborUp
    with g pt ev have "emit env (plain_js thr) a ''peerJoin'' (Some (JStr (peer_str s))) w = Inr w'" by (simp add: gossip_deliver_def)
    from emit_plain_result(1)[OF ok en c es _ this] NeighborUp show ?thesis by (simp add: gossip_fired_def)
  next
    case NeighborDown
    with g pt ev have "emit env (plain_js thr) a ''peerLeave'' (Some (JStr (peer_str s))) w = Inr w'" by (simp add: gossip_deliver_def)
    from emit_plain_result(1)[OF ok en c es _ this] NeighborDown show ?thesis by (simp add: gossip_fired_def)
  qed (use g ev in \<open>simp_all add: gossip_deliver_def gossip_fired_def\<close>)
  show "map_option o_props (w_objs w' (w_nextobj w)) = Some (message_object d s)" if "event_type_of t = Received"
    using msg[OF that] by blast
qed


text \<open>A topic on which the message \<open>hi\<close> of \<open>peer\<close> has arrived; one \<open>message\<close> listener, function 7.\<close>

definition message_in :: world where
  "message_in = (one_ctx IROH_OBJ_GOSSIP_TOPIC
       (\<lambda>c. c\<lparr>topic_handle := Some 0, flags := 4, pending_ops := [2, 0, 0, 0, 0, 0, 0, 0], npending := 1, pending_alloc := 8\<rparr>)
       (\<lambda>r. r\<lparr>r_handles := [1 \<mapsto> complete_with_result (AGossipEvent 0 [104, 105] (Some ''peer'')) (handle_new 1 (RqGossipRecv 0))],
          r_res := [0 \<mapsto> KGossipTopic], r_next := 2\<rparr>))
     \<lparr>w_ops := [2 \<mapsto> \<lparr>aop_ictx = 1, aop_handle = Some 1, aop_op = IROH_OP_GOSSIP_RECV, aop_ev = Some 2, aop_aux = 0\<rparr>],
      w_evs := (\<lambda>p. p = 2), w_next := 3, w_evcb_id := 1,
      w_objs := [0 \<mapsto> empty_obj\<lparr>o_events := Some [(''message'', [(0, 7)])], o_ictx := Some 1\<rparr>],
      w_fns := (w_fns boot)(7 := \<lparr>fn_evcb_id = Some 0, fn_once = False\<rparr>)\<rparr>"

lemma Inv_message_in: "Inv message_in"
  by (auto simp: message_in_def complete_with_result_def Inv_concrete split: if_splits)

lemma message_in_simps:
  "emitter_ok message_in" "called sample_env message_in 0 ''message'' = [7]" "w_log message_in = []"
  "w_ops message_in 2 = Some \<lparr>aop_ictx = 1, aop_handle = Some 1, aop_op = IROH_OP_GOSSIP_RECV, aop_ev = Some 2, aop_aux = 0\<rparr>"
  "\<exists>c. w_ctxs message_in 1 = Some c \<and> thisptr c = 0"
  "\<exists>ah. r_handles (w_rust message_in) 1 = Some ah \<and> h_result ah = Some (AGossipEvent 0 [104, 105] (Some ''peer''))"
  by (auto simp: message_in_def one_ctx_def zero_ctx_def emitter_ok_def events_of_def listeners_def boot_def called_def table_of_def
      handle_new_def complete_with_result_def split: if_splits option.splits bind_splits)


end
