(* ===== verification/EchoServer.thy ===== *)
theory EchoServer
  imports Ownership
begin

text \<open>
  The echo server of \<open>examples/echo_server.c\<close>, a client of the C interface that does without
  JavaScript, and the libevent helpers of \<open>include/iroh_libevent.h\<close> it is built on
  (\<open>iroh_event_add\<close>, \<open>iroh_event_callback\<close>, \<open>IROH_EVENT_ADD\<close>). What is printed is left out; the objects that are
  created, read and released for printing are not.
\<close>

section \<open>State\<close>

record AppContext =
  app_endpoint :: "rid option"
  app_running :: bool

record StreamContext =
  sc_conn :: "rid option"
  sc_send :: "rid option"
  sc_recv :: "rid option"

text \<open>A callback together with the context it is registered with as user data; NULL callbacks do not occur.\<close>

datatype ev_callback =
    On_endpoint_created | On_endpoint_online | On_connection_accepted
  | On_stream_accepted addr | On_data_read addr | On_data_written addr

record iroh_event_ctx_t =
  ec_handle :: hid
  ec_callback :: ev_callback

text \<open>\<open>e_evs\<close> are the events added to the event base, by the address of their context; \<open>e_break\<close>: \<open>event_base_loopbreak\<close> was called.\<close>

record echo =
  e_rust :: rust
  e_app :: AppContext
  e_ctxs :: "addr \<Rightarrow> StreamContext option"
  e_evs :: "addr \<Rightarrow> iroh_event_ctx_t option"
  e_next :: addr
  e_break :: bool

section \<open>The helpers of the header\<close>

text \<open>On an error the answer is -1, which no caller looks at: the handle is kept by nobody.\<close>

definition iroh_event_add :: "'e env_scheme \<Rightarrow> hid \<Rightarrow> ev_callback \<Rightarrow> echo \<Rightarrow> fault + echo" where
  "iroh_event_add env handle callback e =
     bnd (iroh_async_get_fd (e_rust e) (Some handle)) (\<lambda>fd.
       if fd < 0 then Inr e
       else let i = e_next e; e = e\<lparr>e_next := Suc i\<rparr> in
         if \<not> env_event_new env i then Inr e
         else Inr (e\<lparr>e_evs := (e_evs e)(i \<mapsto> \<lparr>ec_handle = handle, ec_callback = callback\<rparr>)\<rparr>))"

definition IROH_EVENT_ADD ::
  "'e env_scheme \<Rightarrow> (rust \<Rightarrow> fault + hid option \<times> rust) \<Rightarrow> ev_callback \<Rightarrow> echo \<Rightarrow> fault + echo" where
  "IROH_EVENT_ADD env async_call callback e =
     bnd (async_call (e_rust e)) (\<lambda>(h, r).
       case h of None \<Rightarrow> Inr (e\<lparr>e_rust := r\<rparr>)
       | Some h \<Rightarrow> iroh_event_add env h callback (e\<lparr>e_rust := r\<rparr>))"

section \<open>Callbacks\<close>

definition rust_do :: "(rust \<Rightarrow> fault + rust) \<Rightarrow> echo \<Rightarrow> fault + echo" where
  "rust_do f e = bnd (f (e_rust e)) (\<lambda>r. Inr (e\<lparr>e_rust := r\<rparr>))"

definition rust_get :: "(rust \<Rightarrow> fault + 'a \<times> rust) \<Rightarrow> echo \<Rightarrow> fault + 'a \<times> echo" where
  "rust_get f e = bnd (f (e_rust e)) (\<lambda>(x, r). Inr (x, e\<lparr>e_rust := r\<rparr>))"

text \<open>Printing an id or an address and releasing it; printing the error of a handle.\<close>

definition print_id :: "tkind \<Rightarrow> rid option \<Rightarrow> rust \<Rightarrow> fault + rust" where
  "print_id k x r =
     (case x of None \<Rightarrow> Inr r
      | Some i \<Rightarrow> bnd (tmp_to_string k i r) (\<lambda>_. tmp_free k (Some i) r))"

definition print_error :: "hid \<Rightarrow> rust \<Rightarrow> fault + rust" where
  "print_error h r = bnd (iroh_async_get_error r (Some h)) (\<lambda>_. Inr r)"

definition get_stream_ctx :: "addr \<Rightarrow> echo \<Rightarrow> fault + StreamContext" where
  "get_stream_ctx a e = (case e_ctxs e a of None \<Rightarrow> Inl UseAfterFree | Some x \<Rightarrow> Inr x)"

definition free_stream_ctx :: "addr \<Rightarrow> echo \<Rightarrow> fault + echo" where
  "free_stream_ctx a e =
     (case e_ctxs e a of None \<Rightarrow> Inl DoubleFree | Some _ \<Rightarrow> Inr (e\<lparr>e_ctxs := (e_ctxs e)(a := None)\<rparr>))"

definition loopbreak :: "echo \<Rightarrow> fault + echo" where
  "loopbreak e = Inr (e\<lparr>e_break := True\<rparr>)"

definition accept_next :: "'e env_scheme \<Rightarrow> echo \<Rightarrow> fault + echo" where
  "accept_next env e =
     IROH_EVENT_ADD env (\<lambda>r. iroh_endpoint_accept env r (app_endpoint (e_app e))) On_connection_accepted e"

definition on_endpoint_created :: "'e env_scheme \<Rightarrow> hid \<Rightarrow> echo \<Rightarrow> fault + echo" where
  "on_endpoint_created env handle e =
     bnd (iroh_async_poll (e_rust e) (Some handle)) (\<lambda>state.
     if state \<noteq> Ready then
       bnd (rust_do (print_error handle) e) (\<lambda>e.
       bnd (rust_do (\<lambda>r. iroh_async_free r (Some handle)) e) loopbreak)
     else
       bnd (rust_get (\<lambda>r. iroh_endpoint_create_result r (Some handle)) e) (\<lambda>(ep, e).
       let e = e\<lparr>e_app := (e_app e)\<lparr>app_endpoint := ep\<rparr>\<rparr> in
       bnd (rust_do (\<lambda>r. iroh_async_free r (Some handle)) e) (\<lambda>e.
       if ep = None then loopbreak e
       else IROH_EVENT_ADD env (\<lambda>r. iroh_endpoint_wait_online env r ep) On_endpoint_online e)))"

definition on_endpoint_online :: "'e env_scheme \<Rightarrow> hid \<Rightarrow> echo \<Rightarrow> fault + echo" where
  "on_endpoint_online env handle e =
     bnd (iroh_async_poll (e_rust e) (Some handle)) (\<lambda>state.
     bnd (rust_do (\<lambda>r. iroh_async_free r (Some handle)) e) (\<lambda>e.
     if state \<noteq> Ready then loopbreak e
     else
       bnd (rust_get (\<lambda>r. iroh_endpoint_addr env r (app_endpoint (e_app e))) e) (\<lambda>(i, e).
       bnd (rust_do (print_id TEndpointAddr i) e) (\<lambda>e.
       bnd (rust_get (\<lambda>r. iroh_endpoint_id env r (app_endpoint (e_app e))) e) (\<lambda>(i, e).
       bnd (rust_do (print_id TPublicKey i) e) (accept_next env))))))"

definition on_connection_accepted :: "'e env_scheme \<Rightarrow> hid \<Rightarrow> echo \<Rightarrow> fault + echo" where
  "on_connection_accepted env handle e =
     bnd (iroh_async_poll (e_rust e) (Some handle)) (\<lambda>state.
     if state \<noteq> Ready then
       bnd (rust_do (print_error handle) e) (\<lambda>e.
       bnd (rust_do (\<lambda>r. iroh_async_free r (Some handle)) e) (accept_next env))
     else
       bnd (rust_get (\<lambda>r. iroh_connection_accept_result r (Some handle)) e) (\<lambda>(conn, e).
       bnd (rust_do (\<lambda>r. iroh_async_free r (Some handle)) e) (\<lambda>e.
       if conn = None then accept_next env e
       else
         bnd (rust_get (\<lambda>r. iroh_connection_remote_id env r conn) e) (\<lambda>(i, e).
         bnd (rust_do (print_id TPublicKey i) e) (\<lambda>e.
         let a = e_next e;
             e = e\<lparr>e_next := Suc a, e_ctxs := (e_ctxs e)(a \<mapsto> \<lparr>sc_conn = conn, sc_send = None, sc_recv = None\<rparr>)\<rparr> in
         bnd (IROH_EVENT_ADD env (\<lambda>r. iroh_connection_accept_bi env r conn) (On_stream_accepted a) e)
           (accept_next env))))))"

definition on_stream_accepted :: "'e env_scheme \<Rightarrow> hid \<Rightarrow> addr \<Rightarrow> echo \<Rightarrow> fault + echo" where
  "on_stream_accepted env handle a e =
     bnd (iroh_async_poll (e_rust e) (Some handle)) (\<lambda>state.
     bnd (get_stream_ctx a e) (\<lambda>ctx.
     if state \<noteq> Ready then
       bnd (rust_do (print_error handle) e) (\<lambda>e.
       bnd (rust_do (\<lambda>r. iroh_async_free r (Some handle)) e) (\<lambda>e.
       bnd (rust_do (iroh_free KConnection (sc_conn ctx)) e) (free_stream_ctx a)))
     else
       bnd (rust_get (\<lambda>r. iroh_stream_open_bi_send_result r (Some handle)) e) (\<lambda>(s, e).
       bnd (rust_get (\<lambda>r. iroh_stream_open_bi_recv_result r (Some handle)) e) (\<lambda>(t, e).
       let e = e\<lparr>e_ctxs := (e_ctxs e)(a \<mapsto> ctx\<lparr>sc_send := s, sc_recv := t\<rparr>)\<rparr> in
       bnd (rust_do (\<lambda>r. iroh_async_free r (Some handle)) e) (\<lambda>e.
       if s = None \<or> t = None then
         bnd (rust_do (iroh_free KSendStream s) e) (\<lambda>e.
         bnd (rust_do (iroh_free KRecvStream t) e) (\<lambda>e.
         bnd (rust_do (iroh_free KConnection (sc_conn ctx)) e) (free_stream_ctx a)))
       else IROH_EVENT_ADD env (\<lambda>r. iroh_recv_stream_read env r t 65536) (On_data_read a) e)))))"

text \<open>Releasing the two streams of a context and the context; the connection stays.\<close>

definition drop_streams :: "addr \<Rightarrow> StreamContext \<Rightarrow> echo \<Rightarrow> fault + echo" where
  "drop_streams a ctx e =
     bnd (rust_do (iroh_free KSendStream (sc_send ctx)) e) (\<lambda>e.
     bnd (rust_do (iroh_free KRecvStream (sc_recv ctx)) e) (free_stream_ctx a))"

definition on_data_read :: "'e env_scheme \<Rightarrow> hid \<Rightarrow> addr \<Rightarrow> echo \<Rightarrow> fault + echo" where
  "on_data_read env handle a e =
     bnd (iroh_async_poll (e_rust e) (Some handle)) (\<lambda>state.
     bnd (get_stream_ctx a e) (\<lambda>ctx.
     if state \<noteq> Ready then
       bnd (rust_do (print_error handle) e) (\<lambda>e.
       bnd (rust_do (\<lambda>r. iroh_async_free r (Some handle)) e) (drop_streams a ctx))
     else
       bnd (rust_get (\<lambda>r. iroh_recv_stream_read_result r (Some handle)) e) (\<lambda>(result, e).
       bnd (rust_do (\<lambda>r. iroh_async_free r (Some handle)) e) (\<lambda>e.
       if rr_finished result then
         bnd (rust_do (\<lambda>r. iroh_send_stream_finish r (sc_send ctx)) e) (drop_streams a ctx)
       else if rr_len result = 0 then
         IROH_EVENT_ADD env (\<lambda>r. iroh_recv_stream_read env r (sc_recv ctx) 65536) (On_data_read a) e
       else
         IROH_EVENT_ADD env (\<lambda>r. case rr_data result of
               None \<Rightarrow> null_arg ''NULL argument'' r
             | Some d \<Rightarrow> iroh_send_stream_write env r (sc_send ctx) d) (On_data_written a) e))))"

definition iroh_send_stream_write_result :: "rust \<Rightarrow> hid option \<Rightarrow> fault + int \<times> rust" where
  "iroh_send_stream_write_result r h =
     (case h of None \<Rightarrow> Inr (-1, r)
      | Some h \<Rightarrow>
          bnd (take_result (\<lambda>v. case v of AUsize n \<Rightarrow> Some (int n) | _ \<Rightarrow> None) r h) (\<lambda>(x, r').
            Inr (case x of None \<Rightarrow> -1 | Some n \<Rightarrow> n, r')))"

definition on_data_written :: "'e env_scheme \<Rightarrow> hid \<Rightarrow> addr \<Rightarrow> echo \<Rightarrow> fault + echo" where
  "on_data_written env handle a e =
     bnd (iroh_async_poll (e_rust e) (Some handle)) (\<lambda>state.
     bnd (get_stream_ctx a e) (\<lambda>ctx.
     if state \<noteq> Ready then
       bnd (rust_do (\<lambda>r. iroh_async_free r (Some handle)) e) (\<lambda>e.
       bnd (rust_do (iroh_free KSendStream (sc_send ctx)) e) (\<lambda>e.
       bnd (rust_do (iroh_free KRecvStream (sc_recv ctx)) e) (\<lambda>e.
       bnd (rust_do (\<lambda>r. iroh_connection_close r (sc_conn ctx)) e) (free_stream_ctx a))))
     else
       bnd (rust_get (\<lambda>r. iroh_send_stream_write_result r (Some handle)) e) (\<lambda>(written, e).
       bnd (rust_do (\<lambda>r. iroh_async_free r (Some handle)) e) (\<lambda>e.
         IROH_EVENT_ADD env (\<lambda>r. iroh_recv_stream_read env r (sc_recv ctx) 65536) (On_data_read a) e))))"

section \<open>The event loop and main\<close>

fun run_callback :: "'e env_scheme \<Rightarrow> ev_callback \<Rightarrow> hid \<Rightarrow> echo \<Rightarrow> fault + echo" where
  "run_callback env On_endpoint_created h = on_endpoint_created env h"
| "run_callback env On_endpoint_online h = on_endpoint_online env h"
| "run_callback env On_connection_accepted h = on_connection_accepted env h"
| "run_callback env (On_stream_accepted a) h = on_stream_accepted env h a"
| "run_callback env (On_data_read a) h = on_data_read env h a"
| "run_callback env (On_data_written a) h = on_data_written env h a"

text \<open>
  While the operation is pending the event is added again; otherwise the callback runs and the
  event and its context are released afterwards.
\<close>

definition iroh_event_callback :: "'e env_scheme \<Rightarrow> addr \<Rightarrow> echo \<Rightarrow> fault + echo" where
  "iroh_event_callback env i e =
     (case e_evs e i of
        None \<Rightarrow> Inl UseAfterFree
      | Some c \<Rightarrow>
          bnd (iroh_async_poll (e_rust e) (Some (ec_handle c))) (\<lambda>state.
          if state = Pending then Inr e
          else
            bnd (run_callback env (ec_callback c) (ec_handle c) e) (\<lambda>e.
              Inr (e\<lparr>e_evs := (e_evs e)(i := None)\<rparr>))))"

abbreviation ALPN_ECHO :: string where
  "ALPN_ECHO \<equiv> ''iroh-example/echo/1''"

text \<open>\<open>main\<close> up to \<open>event_base_dispatch\<close>; \<open>None\<close> when the program ends with status 1. Then what it does after the loop.\<close>

definition main_start :: "'e env_scheme \<Rightarrow> bool \<Rightarrow> rust \<Rightarrow> (fault + echo) option" where
  "main_start env event_base_new r =
     (case iroh_init env r of (err, r) \<Rightarrow>
        if err \<noteq> ErrOk \<or> \<not> event_base_new then None
        else
          let config = iroh_endpoint_config_add_alpn iroh_endpoint_config_default ALPN_ECHO in
          Some (IROH_EVENT_ADD env (\<lambda>r. iroh_endpoint_create env r config) On_endpoint_created
            \<lparr>e_rust = r, e_app = \<lparr>app_endpoint = None, app_running = True\<rparr>, e_ctxs = Map.empty, e_evs = Map.empty,
             e_next = 0, e_break = False\<rparr>))"

definition main_end :: "echo \<Rightarrow> fault + echo" where
  "main_end e = rust_do (iroh_free KEndpoint (app_endpoint (e_app e))) e"

end
