(* ===== verification/EchoSafety.thy ===== *)
theory EchoSafety
  imports EchoServer BridgeCorrect
begin

text \<open>
  The echo server is memory safe. The invariant \<open>EInv\<close>: every running task has an event, every
  event has a live handle, a stream context belongs to one event and owns its objects alone. While
  a callback runs, its own event is set aside (\<open>EIn\<close>).
\<close>

section \<open>The invariant\<close>

fun ctx_of :: "ev_callback \<Rightarrow> addr option" where
  "ctx_of (On_stream_accepted a) = Some a"
| "ctx_of (On_data_read a) = Some a"
| "ctx_of (On_data_written a) = Some a"
| "ctx_of _ = None"

definition objs :: "StreamContext \<Rightarrow> rid set" where
  "objs x = set_option (sc_conn x) \<union> set_option (sc_send x) \<union> set_option (sc_recv x)"

text \<open>What an event's callback relies on, given the request of its task.\<close>

fun cb_ok :: "echo \<Rightarrow> ev_callback \<Rightarrow> req \<Rightarrow> bool" where
  "cb_ok e On_endpoint_created rq \<longleftrightarrow> task_borrows rq = []"
| "cb_ok e On_endpoint_online rq \<longleftrightarrow> set (task_borrows rq) \<subseteq> set_option (app_endpoint (e_app e))"
| "cb_ok e On_connection_accepted rq \<longleftrightarrow> set (task_borrows rq) \<subseteq> set_option (app_endpoint (e_app e))"
| "cb_ok e (On_stream_accepted a) rq \<longleftrightarrow> task_borrows rq = []
     \<and> (\<exists>n. e_ctxs e a = Some \<lparr>sc_conn = Some n, sc_send = None, sc_recv = None\<rparr>)"
| "cb_ok e (On_data_read a) rq \<longleftrightarrow> (\<exists>n s t. e_ctxs e a = Some \<lparr>sc_conn = Some n, sc_send = Some s, sc_recv = Some t\<rparr>
     \<and> set (task_borrows rq) \<subseteq> {t})"
| "cb_ok e (On_data_written a) rq \<longleftrightarrow> (\<exists>n s t. e_ctxs e a = Some \<lparr>sc_conn = Some n, sc_send = Some s, sc_recv = Some t\<rparr>
     \<and> set (task_borrows rq) \<subseteq> {s})"

definition ev_ok :: "echo \<Rightarrow> iroh_event_ctx_t \<Rightarrow> bool" where
  "ev_ok e c \<longleftrightarrow> (\<exists>ah. r_handles (e_rust e) (ec_handle c) = Some ah \<and> h_cref ah \<and> cb_ok e (ec_callback c) (h_req ah))"

definition sc_ok :: "rust \<Rightarrow> StreamContext \<Rightarrow> bool" where
  "sc_ok r x \<longleftrightarrow> (\<forall>n. sc_conn x = Some n \<longrightarrow> r_res r n = Some KConnection)
     \<and> (\<forall>n. sc_send x = Some n \<longrightarrow> r_res r n = Some KSendStream) \<and> (\<forall>n. sc_recv x = Some n \<longrightarrow> r_res r n = Some KRecvStream)"

definition early :: "ev_callback \<Rightarrow> bool" where
  "early cb \<longleftrightarrow> cb = On_endpoint_created \<or> cb = On_endpoint_online"

definition rust_ok :: "rust \<Rightarrow> bool" where
  "rust_ok r \<longleftrightarrow> RInv r \<and> r_tmp r = (\<lambda>_. None) \<and> (\<forall>h ah. r_handles r h = Some ah \<longrightarrow> h_running ah = (h_state ah = Pending))"

text \<open>The part on the events \<open>evs\<close>, for an event loop that has set one of them aside.\<close>

definition evs_distinct :: "(addr \<Rightarrow> iroh_event_ctx_t option) \<Rightarrow> bool" where
  "evs_distinct evs \<longleftrightarrow>
     (\<forall>i j c d. evs i = Some c \<and> evs j = Some d \<and> ec_handle c = ec_handle d \<longrightarrow> i = j)
     \<and> (\<forall>i j c d a. evs i = Some c \<and> evs j = Some d \<and> ctx_of (ec_callback c) = Some a \<and> ctx_of (ec_callback d) = Some a \<longrightarrow> i = j)"

definition served :: "(addr \<Rightarrow> iroh_event_ctx_t option) \<Rightarrow> rust \<Rightarrow> bool" where
  "served evs r \<longleftrightarrow> (\<forall>h ah. r_handles r h = Some ah \<and> h_running ah \<longrightarrow> (\<exists>i c. evs i = Some c \<and> ec_handle c = h))"

definition evs_ok :: "(addr \<Rightarrow> iroh_event_ctx_t option) \<Rightarrow> echo \<Rightarrow> bool" where
  "evs_ok evs e \<longleftrightarrow> (\<forall>i c. evs i = Some c \<longrightarrow> ev_ok e c \<and> i < e_next e) \<and> evs_distinct evs \<and> served evs (e_rust e)"

definition mem_ok :: "echo \<Rightarrow> bool" where
  "mem_ok e \<longleftrightarrow> rust_ok (e_rust e)
     \<and> (\<forall>a x. e_ctxs e a = Some x \<longrightarrow> a < e_next e \<and> sc_ok (e_rust e) x)
     \<and> (\<forall>a b x y. e_ctxs e a = Some x \<and> e_ctxs e b = Some y \<and> objs x \<inter> objs y \<noteq> {} \<longrightarrow> a = b)
     \<and> (\<forall>n. app_endpoint (e_app e) = Some n \<longrightarrow> r_res (e_rust e) n = Some KEndpoint)"

definition EInv :: "echo \<Rightarrow> bool" where
  "EInv e \<longleftrightarrow> mem_ok e \<and> evs_ok (e_evs e) e \<and> (e_break e \<longrightarrow> e_evs e = (\<lambda>_. None))
     \<and> (\<forall>i j c. e_evs e i = Some c \<and> early (ec_callback c) \<and> e_evs e j \<noteq> None \<longrightarrow> j = i)"

text \<open>While the callback of event \<open>i\<close> with handle \<open>h\<close> runs.\<close>

definition EIn :: "addr \<Rightarrow> hid \<Rightarrow> echo \<Rightarrow> bool" where
  "EIn i h e \<longleftrightarrow> mem_ok e \<and> evs_ok ((e_evs e)(i := None)) e \<and> i < e_next e \<and> \<not> e_break e
     \<and> (\<forall>j c. j \<noteq> i \<and> e_evs e j = Some c \<longrightarrow> \<not> early (ec_callback c) \<and> ec_handle c \<noteq> h)
     \<and> (\<exists>ah. r_handles (e_rust e) h = Some ah \<and> \<not> h_running ah)"

text \<open>What a callback must leave.\<close>

definition left :: "addr \<Rightarrow> echo \<Rightarrow> bool" where
  "left i e \<longleftrightarrow> EInv (e\<lparr>e_evs := (e_evs e)(i := None)\<rparr>)"

lemma cb_ok_cong:
  "e_ctxs e' = e_ctxs e \<Longrightarrow> app_endpoint (e_app e') = app_endpoint (e_app e) \<Longrightarrow> cb_ok e' cb rq = cb_ok e cb rq"
  by (cases cb) simp_all

lemma mem_ok_cong:
  "e_rust e' = e_rust e \<Longrightarrow> e_ctxs e' = e_ctxs e \<Longrightarrow> e_app e' = e_app e \<Longrightarrow> e_next e \<le> e_next e' \<Longrightarrow> mem_ok e \<Longrightarrow> mem_ok e'"
  unfolding mem_ok_def by (metis order_less_le_trans)

lemma evs_ok_cong:
  assumes "e_rust e' = e_rust e" "e_ctxs e' = e_ctxs e" "e_app e' = e_app e" "e_next e \<le> e_next e'" "evs_ok evs e"
  shows "evs_ok evs e'"
proof -
  have "ev_ok e' c = ev_ok e c" for c using cb_ok_cong[of e' e] assms by (simp add: ev_ok_def)
  with assms show ?thesis unfolding evs_ok_def by (auto intro: order_less_le_trans)
qed

lemma EIn_left: "EIn i h e \<Longrightarrow> left i e"
proof -
  assume a: "EIn i h e"
  let ?e = "e\<lparr>e_evs := (e_evs e)(i := None)\<rparr>"
  have "mem_ok ?e" using a by (intro mem_ok_cong[of ?e e]) (simp_all add: EIn_def)
  moreover have "evs_ok ((e_evs e)(i := None)) ?e" using a by (intro evs_ok_cong[of ?e e]) (simp_all add: EIn_def)
  moreover have "\<forall>j c. ((e_evs e)(i := None)) j = Some c \<longrightarrow> \<not> early (ec_callback c)" using a by (auto simp: EIn_def)
  ultimately show "left i e" using a by (auto simp: left_def EInv_def EIn_def)
qed

section \<open>Steps on the Rust side\<close>

text \<open>A step that may release the handle \<open>h\<close> and make new objects, and does nothing else.\<close>

definition keepr :: "hid \<Rightarrow> rust \<Rightarrow> rust \<Rightarrow> bool" where
  "keepr h r r' \<longleftrightarrow> RInv r' \<and> r_next r \<le> r_next r'
     \<and> (\<forall>g. map_option (\<lambda>ah. (h_req ah, h_running ah, h_state ah)) (r_handles r' g) =
            map_option (\<lambda>ah. (h_req ah, h_running ah, h_state ah)) (r_handles r g))
     \<and> (\<forall>g. g \<noteq> h \<longrightarrow> map_option h_cref (r_handles r' g) = map_option h_cref (r_handles r g))
     \<and> (\<forall>x k. r_res r x = Some k \<longrightarrow> r_res r' x = Some k)"

lemma keepr_trans: "keepr h r s \<Longrightarrow> keepr h s t \<Longrightarrow> keepr h r t"
  by (auto simp: keepr_def)

lemma keepr_handle:
  assumes "keepr h r r'" and "r_handles r g = Some ah"
  obtains ah' where "r_handles r' g = Some ah'" "h_req ah' = h_req ah" "h_running ah' = h_running ah" "h_state ah' = h_state ah"
    and "g \<noteq> h \<Longrightarrow> h_cref ah' = h_cref ah"
proof -
  have 1: "map_option (\<lambda>ah. (h_req ah, h_running ah, h_state ah)) (r_handles r' g) = Some (h_req ah, h_running ah, h_state ah)"
    using assms by (simp add: keepr_def)
  then obtain ah' where ah': "r_handles r' g = Some ah'" by auto
  moreover have "map_option h_cref (r_handles r' g) = map_option h_cref (r_handles r g)" if "g \<noteq> h"
    using assms(1) that by (simp add: keepr_def)
  ultimately show ?thesis using 1 assms(2) by (intro that[of ah']) auto
qed

lemma keepr_handle_rev:
  assumes "keepr h r r'" and "r_handles r' g = Some ah'"
  obtains ah where "r_handles r g = Some ah" "h_req ah' = h_req ah" "h_running ah' = h_running ah" "h_state ah' = h_state ah"
proof -
  have "map_option (\<lambda>ah. (h_req ah, h_running ah, h_state ah)) (r_handles r' g) =
      map_option (\<lambda>ah. (h_req ah, h_running ah, h_state ah)) (r_handles r g)"
    using assms(1) by (simp add: keepr_def)
  with assms(2) that show ?thesis by (cases "r_handles r g") auto
qed

lemma EIn_keepr:
  assumes e: "EIn i h e" and k: "keepr h (e_rust e) r" and t: "r_tmp r = (\<lambda>_. None)"
  shows "EIn i h (e\<lparr>e_rust := r\<rparr>)"
proof -
  let ?e = "e\<lparr>e_rust := r\<rparr>" and ?evs = "(e_evs e)(i := None)"
  have m: "mem_ok e" "evs_ok ?evs e" using e by (simp_all add: EIn_def)
  have "h_running ah' = (h_state ah' = Pending)" if ah': "r_handles r g = Some ah'" for g ah'
    using keepr_handle_rev[OF k ah'] m(1) unfolding mem_ok_def rust_ok_def by metis
  then have "rust_ok r" using k t by (simp add: rust_ok_def keepr_def)
  moreover have "sc_ok r x" if "sc_ok (e_rust e) x" for x using that k by (simp add: sc_ok_def keepr_def)
  ultimately have "mem_ok ?e" using m(1) k by (auto simp: mem_ok_def keepr_def)
  moreover have "ev_ok ?e c" if "?evs j = Some c" for j c
  proof -
    have "ev_ok e c" "ec_handle c \<noteq> h" using m(2) e that by (auto simp: evs_ok_def EIn_def split: if_splits)
    then obtain ah where ah: "r_handles (e_rust e) (ec_handle c) = Some ah" "h_cref ah" "cb_ok e (ec_callback c) (h_req ah)" by (auto simp: ev_ok_def)
    obtain ah' where "r_handles r (ec_handle c) = Some ah'" "h_req ah' = h_req ah" "h_cref ah'"
      using keepr_handle[OF k ah(1)] ah(2) \<open>ec_handle c \<noteq> h\<close> by metis
    with ah(3) cb_ok_cong[of ?e e] show ?thesis by (auto simp: ev_ok_def)
  qed
  moreover have "\<exists>j c. ?evs j = Some c \<and> ec_handle c = g" if "r_handles r g = Some ah" "h_running ah" for g ah
    using keepr_handle_rev[OF k that(1)] that(2) m(2) unfolding evs_ok_def served_def by metis
  ultimately have "mem_ok ?e \<and> evs_ok ?evs ?e" using m(2) by (auto simp: evs_ok_def served_def)
  moreover obtain ah where "r_handles (e_rust e) h = Some ah" "\<not> h_running ah" using e by (auto simp: EIn_def)
  then have "\<exists>ah. r_handles r h = Some ah \<and> \<not> h_running ah" using keepr_handle[OF k] by metis
  ultimately show ?thesis using e by (simp add: EIn_def)
qed

text \<open>Such a step that keeps the handle and the short-lived objects too.\<close>

definition keepl :: "hid \<Rightarrow> rust \<Rightarrow> rust \<Rightarrow> bool" where
  "keepl h r r' \<longleftrightarrow> keepr h r r' \<and> (handle_live r h \<longrightarrow> handle_live r' h) \<and> r_tmp r' = r_tmp r"

lemma keepl_trans: "keepl h r s \<Longrightarrow> keepl h s t \<Longrightarrow> keepl h r t"
  by (auto simp: keepl_def dest: keepr_trans)

lemma keepl_RInv: "keepl h r r' \<Longrightarrow> RInv r'"
  by (simp add: keepl_def keepr_def)

lemma keepl_put:
  assumes "RInv r" and "r_handles r h = Some ah"
  shows "keepl h r (put_handle h (ah\<lparr>h_result := v\<rparr>) r)"
proof -
  have "rstep r (put_handle h (ah\<lparr>h_result := v\<rparr>) r)" by (rule rstep_put_handle[OF assms(2)]) simp_all
  with assms show ?thesis by (auto simp: keepl_def keepr_def handle_live_def dest: rstep_RInv)
qed

lemma keepl_box:
  assumes "RInv r" and "box_into_raw k r = (n, r')"
  shows "keepl h r r'" and "n = r_next r" and "r_res r' n = Some k"
proof -
  have "RInv r'" "\<forall>x k. r_res r x = Some k \<longrightarrow> r_res r' x = Some k"
    using rstep_box_into_raw[OF assms] assms(1) by (auto simp: rstep_def)
  with assms(2) show "keepl h r r'" "n = r_next r" "r_res r' n = Some k"
    by (auto simp: keepl_def keepr_def handle_live_def box_into_raw_def)
qed

text \<open>The getters: a new object of the right kind or none.\<close>

definition got_box :: "hid \<Rightarrow> rkind \<Rightarrow> rust \<Rightarrow> fault + rid option \<times> rust \<Rightarrow> bool" where
  "got_box h k r m \<longleftrightarrow> (\<exists>x r'. m = Inr (x, r') \<and> keepl h r r' \<and> (\<forall>n. x = Some n \<longrightarrow> r_next r \<le> n \<and> r_res r' n = Some k))"

lemma got_box_new:
  assumes "RInv r" and "keepl h r s"
  shows "got_box h k r (case box_into_raw k s of (i, r') \<Rightarrow> Inr (Some i, r'))"
proof -
  obtain n r' where b: "box_into_raw k s = (n, r')" by force
  note k = keepl_box(1)[OF keepl_RInv[OF assms(2)] b, of h] keepl_box(2,3)[OF keepl_RInv[OF assms(2)] b]
  have "r_next r \<le> r_next s" using assms(2) by (simp add: keepl_def keepr_def)
  with b k keepl_trans[OF assms(2) k(1)] show ?thesis by (simp add: got_box_def)
qed

lemma got_take_boxed:
  assumes "RInv r" and "handle_live r h"
  shows "got_box h k r (take_boxed v k r (Some h))"
proof -
  obtain ah where ah: "r_handles r h = Some ah" "get_handle r h = Inr ah" using get_handle_live[OF assms(2)] by auto
  note s = keepl_put[OF assms(1) ah(1), of None]
  show ?thesis
    using got_box_new[OF assms(1) s, of k] s ah by (auto simp: take_boxed_def take_result_def got_box_def split: option.splits)
qed

lemma got_split_boxed:
  assumes "RInv r" and "handle_live r h"
  shows "got_box h k r (split_boxed b v w k r (Some h))"
proof -
  obtain ah where ah: "r_handles r h = Some ah" "get_handle r h = Inr ah" using get_handle_live[OF assms(2)] by auto
  have "keepl h r r" using assms(1) by (simp add: keepl_def keepr_def)
  then show ?thesis
    using got_box_new[OF assms(1) keepl_put[OF assms(1) ah(1)], of k "Some w"] keepl_put[OF assms(1) ah(1), of None] ah
    by (auto simp: split_boxed_def got_box_def)
qed

lemma read_got:
  assumes "RInv r" and "handle_live r h"
  obtains x r' where "iroh_recv_stream_read_result r (Some h) = Inr (x, r')" and "keepl h r r'"
    and "0 < rr_len x \<longrightarrow> rr_data x \<noteq> None"
proof -
  obtain ah where ah: "r_handles r h = Some ah" "get_handle r h = Inr ah" using get_handle_live[OF assms(2)] by auto
  with keepl_put[OF assms(1) ah(1), of None] that show ?thesis
    by (cases "Option.bind (h_result ah) as_read") (auto simp: iroh_recv_stream_read_result_def take_result_def)
qed

lemma write_got:
  assumes "RInv r" and "handle_live r h"
  obtains x r' where "iroh_send_stream_write_result r (Some h) = Inr (x, r')" and "keepl h r r'"
proof -
  obtain ah where ah: "r_handles r h = Some ah" "get_handle r h = Inr ah" using get_handle_live[OF assms(2)] by auto
  with keepl_put[OF assms(1) ah(1), of None] that show ?thesis
    by (auto simp: iroh_send_stream_write_result_def take_result_def)
qed

lemma free_kept:
  assumes "RInv r" and "handle_live r h"
  obtains r' where "iroh_async_free r (Some h) = Inr r'" and "keepr h r r'" and "r_tmp r' = r_tmp r" and "r_res r' = r_res r"
proof -
  obtain ah where ah: "r_handles r h = Some ah" "h_cref ah" using assms(2) by (auto simp: handle_live_def)
  have "RInv (put_handle h (ah\<lparr>h_cref := False\<rparr>) r)" by (rule RInv_drop_handle[OF assms(1) ah(1)])
  with ah that show ?thesis by (auto simp: iroh_async_free_def keepr_def)
qed

text \<open>Printing an id that was just created: the box is gone afterwards.\<close>

lemma print_new_id:
  assumes "RInv r" and "tmp_into_raw k s r = (i, r1)"
  obtains r' where "print_id k (Some i) r1 = Inr r'" and "keepl h r r'" and "r_res r' = r_res r"
proof -
  have f: "r_tmp r (r_next r) = None" using RInv_fresh(3)[OF assms(1)] by simp
  have R: "RInv r1" using tmp_added_into_raw[OF assms] assms(1) by (simp add: tmp_added_def rstep_def)
  let ?r = "r1\<lparr>r_tmp := (r_tmp r1)(i := None)\<rparr>"
  have "print_id k (Some i) r1 = Inr ?r"
    using assms(2) by (auto simp: print_id_def tmp_to_string_def tmp_val_def tmp_free_def tmp_into_raw_def)
  moreover have "RInv ?r" using R by (auto simp: RInv_def rfresh_def tasks_ok_def)
  ultimately show ?thesis
    using assms(2) f that by (fastforce simp: keepl_def keepr_def handle_live_def tmp_into_raw_def)
qed

section \<open>Steps of the server\<close>

lemma EIn_RInv: "EIn i h e \<Longrightarrow> RInv (e_rust e)"
  by (simp add: EIn_def mem_ok_def rust_ok_def)

lemma EIn_tmp: "EIn i h e \<Longrightarrow> r_tmp (e_rust e) = (\<lambda>_. None)"
  by (simp add: EIn_def mem_ok_def rust_ok_def)

lemma EIn_keepl: "EIn i h e \<Longrightarrow> keepl h (e_rust e) r \<Longrightarrow> EIn i h (e\<lparr>e_rust := r\<rparr>)"
  by (auto simp: keepl_def EIn_tmp intro: EIn_keepr)

lemma poll_live: "handle_live r h \<Longrightarrow> \<exists>st. iroh_async_poll r (Some h) = Inr st"
  using get_handle_live[of r h] by (auto simp: iroh_async_poll_def)

lemma print_error_live: "handle_live (e_rust e) h \<Longrightarrow> rust_do (print_error h) e = Inr e"
  using get_handle_live[of "e_rust e" h] by (auto simp: rust_do_def print_error_def iroh_async_get_error_def)

lemma free_handle:
  assumes "EIn i h e" and "handle_live (e_rust e) h"
  obtains r where "rust_do (\<lambda>r. iroh_async_free r (Some h)) e = Inr (e\<lparr>e_rust := r\<rparr>)" and "EIn i h (e\<lparr>e_rust := r\<rparr>)"
    and "r_res r = r_res (e_rust e)"
proof -
  obtain r where "iroh_async_free (e_rust e) (Some h) = Inr r" "keepr h (e_rust e) r" "r_tmp r = r_tmp (e_rust e)" "r_res r = r_res (e_rust e)"
    by (rule free_kept[OF EIn_RInv[OF assms(1)] assms(2)])
  with EIn_keepr[OF assms(1)] EIn_tmp[OF assms(1)] show ?thesis by (intro that[of r]) (simp_all add: rust_do_def)
qed

text \<open>Starting an operation with an event of its own.\<close>

definition env_ok :: "'e env_scheme \<Rightarrow> bool" where
  "env_ok env \<longleftrightarrow> (\<forall>p. env_event_new env p) \<and> (\<forall>h fd. env_pipe env h = Some fd \<longrightarrow> 0 \<le> fd)"

lemma set_last_error_keepl: "RInv r \<Longrightarrow> keepl h r (set_last_error m r)"
  by (auto simp: keepl_def keepr_def handle_live_def RInv_def rfresh_def tasks_ok_def)

lemma spawn_outcome:
  assumes "env_ok env" and "spawn env r rq = (x, r')"
  obtains "x = None" and "\<exists>m. r' = set_last_error m r"
  | fd where "x = Some (r_next r)" and "0 \<le> fd" and "r' = (put_handle (r_next r) (handle_new fd rq) r)\<lparr>r_next := Suc (r_next r)\<rparr>"
  using assms that by (fastforce simp: spawn_def env_ok_def split: if_splits option.splits)

lemma event_added:
  assumes "env_ok env" and "r_handles (e_rust e) h = Some (handle_new fd rq)" and "0 \<le> fd"
  shows "iroh_event_add env h cb e =
     Inr (e\<lparr>e_next := Suc (e_next e), e_evs := (e_evs e)(e_next e \<mapsto> \<lparr>ec_handle = h, ec_callback = cb\<rparr>)\<rparr>)"
  using assms by (simp add: iroh_event_add_def iroh_async_get_fd_def get_handle_def handle_new_def env_ok_def Let_def)

lemma spawn_mem_ok:
  assumes m: "mem_ok e" and b: "\<forall>x \<in> set (task_borrows rq). \<exists>k \<in> borrowable. r_res (e_rust e) x = Some k"
  shows "mem_ok (e\<lparr>e_rust := (put_handle (r_next (e_rust e)) (handle_new fd rq) (e_rust e))\<lparr>r_next := Suc (r_next (e_rust e))\<rparr>\<rparr>)"
    (is "mem_ok (e\<lparr>e_rust := ?r\<rparr>)")
proof -
  have ok: "rust_ok (e_rust e)" using m by (simp add: mem_ok_def)
  then have R: "RInv (e_rust e)" by (simp add: rust_ok_def)
  have "r_handles (e_rust e) (r_next (e_rust e)) = None" using RInv_fresh(1)[OF R] by simp
  then have "RInv ?r" using R b by (auto simp: RInv_def rfresh_def tasks_ok_def attended_upd handle_new_def)
  then have "rust_ok ?r" using ok by (auto simp: rust_ok_def handle_new_def)
  with m show ?thesis by (auto simp: mem_ok_def sc_ok_def)
qed

lemma evs_distinct_upd:
  assumes d: "evs_distinct evs" and h: "\<And>j c. evs j = Some c \<Longrightarrow> ec_handle c \<noteq> ec_handle d"
    and a: "\<And>j c a. evs j = Some c \<Longrightarrow> ctx_of (ec_callback d) = Some a \<Longrightarrow> ctx_of (ec_callback c) \<noteq> Some a"
  shows "evs_distinct (evs(n \<mapsto> d))"
  unfolding evs_distinct_def
proof (intro conjI allI impI; elim conjE)
  fix i j c e
  assume i: "(evs(n \<mapsto> d)) i = Some c" and j: "(evs(n \<mapsto> d)) j = Some e"
  show "i = j" if q: "ec_handle c = ec_handle e"
  proof (cases "i = n \<or> j = n")
    case True
    with i j q h[of i c] h[of j e] show ?thesis by (cases "i = n"; cases "j = n") auto
  next
    case False
    with i j q d show ?thesis unfolding evs_distinct_def fun_upd_apply by metis
  qed
  show "i = j" if q: "ctx_of (ec_callback c) = Some b" "ctx_of (ec_callback e) = Some b" for b
  proof (cases "i = n \<or> j = n")
    case True
    with i j q a[of i c b] a[of j e b] show ?thesis by (cases "i = n"; cases "j = n") auto
  next
    case False
    with i j q d show ?thesis unfolding evs_distinct_def fun_upd_apply by metis
  qed
qed

lemma served_upd:
  assumes "served evs r" and "evs n = None" and r': "r_handles r' = (r_handles r)(ec_handle d \<mapsto> ah)"
  shows "served (evs(n \<mapsto> d)) r'"
  unfolding served_def
proof (intro allI impI, elim conjE)
  fix g ag
  assume g: "r_handles r' g = Some ag" "h_running ag"
  show "\<exists>i c. (evs(n \<mapsto> d)) i = Some c \<and> ec_handle c = g"
  proof (cases "g = ec_handle d")
    case True
    then show ?thesis by (intro exI[of _ n] exI[of _ d]) simp
  next
    case False
    with g assms(1) r' obtain i c where "evs i = Some c" "ec_handle c = g" by (auto simp: served_def)
    with assms(2) show ?thesis by (intro exI[of _ i] exI[of _ c]) auto
  qed
qed

lemma EIn_add:
  assumes e: "EIn i h e" and b: "\<forall>x \<in> set (task_borrows rq). \<exists>k \<in> borrowable. r_res (e_rust e) x = Some k"
    and cb: "cb_ok e cb rq" and own: "\<forall>a j c. ctx_of cb = Some a \<and> j \<noteq> i \<and> e_evs e j = Some c \<longrightarrow> ctx_of (ec_callback c) \<noteq> Some a"
    and e': "e' = e\<lparr>e_rust := (put_handle (r_next (e_rust e)) (handle_new fd rq) (e_rust e))\<lparr>r_next := Suc (r_next (e_rust e))\<rparr>,
       e_next := Suc (e_next e), e_evs := (e_evs e)(e_next e \<mapsto> \<lparr>ec_handle = r_next (e_rust e), ec_callback = cb\<rparr>)\<rparr>"
  shows "mem_ok e'" and "evs_ok ((e_evs e')(i := None)) e'" and "\<not> early cb \<Longrightarrow> EIn i h e'"
proof -
  let ?n = "r_next (e_rust e)" and ?evs = "(e_evs e)(i := None)"
  let ?c = "\<lparr>ec_handle = ?n, ec_callback = cb\<rparr>"
  have ok: "mem_ok e" "evs_ok ?evs e" "i < e_next e" using e by (simp_all add: EIn_def)
  note R = EIn_RInv[OF e]
  show m: "mem_ok e'" using spawn_mem_ok[OF ok(1) b, of fd] by (rule mem_ok_cong[rotated 4]) (simp_all add: e')
  have old: "ec_handle c \<noteq> ?n" if c: "?evs j = Some c" for j c
  proof -
    have "ev_ok e c" using ok(2) c unfolding evs_ok_def by blast
    then have "handle_live (e_rust e) (ec_handle c)" by (auto simp: ev_ok_def handle_live_def)
    from live_less[OF R this] show ?thesis by simp
  qed
  have evs': "(e_evs e')(i := None) = ?evs(e_next e \<mapsto> ?c)" using ok(3) by (auto simp: e')
  have cbs: "cb_ok e' cb' rq' = cb_ok e cb' rq'" for cb' rq' by (rule cb_ok_cong) (simp_all add: e')
  have "ev_ok e' c" if c: "?evs j = Some c" for j c
  proof -
    have "ev_ok e c" using ok(2) c unfolding evs_ok_def by blast
    with old[OF c] show ?thesis unfolding ev_ok_def cbs by (simp add: e')
  qed
  moreover have "ev_ok e' ?c" using cb by (simp add: ev_ok_def cbs) (simp add: e' handle_new_def)
  moreover have "evs_distinct (?evs(e_next e \<mapsto> ?c))"
  proof (rule evs_distinct_upd)
    show "evs_distinct ?evs" using ok(2) by (simp add: evs_ok_def)
  qed (use old own in \<open>auto split: if_splits\<close>)
  moreover have "served (?evs(e_next e \<mapsto> ?c)) (e_rust e')"
  proof (rule served_upd)
    show "served ?evs (e_rust e)" using ok(2) by (simp add: evs_ok_def)
    show "?evs (e_next e) = None" using ok(2) unfolding evs_ok_def by (metis not_None_eq order_less_irrefl)
  qed (simp add: e')
  ultimately show ev: "evs_ok ((e_evs e')(i := None)) e'"
    using ok(2,3) unfolding evs_ok_def evs' by (auto simp: e' less_Suc_eq split: if_splits)
  have hh: "\<exists>ah. r_handles (e_rust e) h = Some ah \<and> \<not> h_running ah" using e by (simp add: EIn_def)
  then have "h \<noteq> ?n" using RInv_fresh(1)[OF R, of ?n] by auto
  with hh show "EIn i h e'" if "\<not> early cb" using m ev e that unfolding EIn_def by (auto simp: e' split: if_splits)
qed

lemma EIn_add_early:
  assumes e: "EIn i h e" and e': "e' = e\<lparr>e_rust := r, e_next := n, e_evs := (e_evs e)(e_next e \<mapsto> c)\<rparr>"
    and m: "mem_ok e'" "evs_ok ((e_evs e')(i := None)) e'" and none: "\<forall>j. j \<noteq> i \<longrightarrow> e_evs e j = None"
  shows "left i e'"
proof -
  let ?e = "e'\<lparr>e_evs := (e_evs e')(i := None)\<rparr>"
  have "mem_ok ?e" using m(1) by (rule mem_ok_cong[rotated 4]) simp_all
  moreover have "evs_ok ((e_evs e')(i := None)) ?e" using m(2) by (rule evs_ok_cong[rotated 4]) simp_all
  moreover have "\<not> e_break e'" using e by (simp add: EIn_def e')
  ultimately show ?thesis using none by (auto simp: left_def EInv_def e' split: if_splits)
qed

lemma add_step:
  assumes env: "env_ok env" and e: "EIn i h e" and call: "call (e_rust e) = Inr (spawn env (e_rust e) rq)"
    and b: "\<forall>x \<in> set (task_borrows rq). \<exists>k \<in> borrowable. r_res (e_rust e) x = Some k"
    and cb: "cb_ok e cb rq" and own: "\<forall>a j c. ctx_of cb = Some a \<and> j \<noteq> i \<and> e_evs e j = Some c \<longrightarrow> ctx_of (ec_callback c) \<noteq> Some a"
  obtains e' where "IROH_EVENT_ADD env call cb e = Inr e'" and "e_ctxs e' = e_ctxs e" and "e_app e' = e_app e"
    and "\<And>x k. r_res (e_rust e) x = Some k \<Longrightarrow> r_res (e_rust e') x = Some k"
    and "\<not> early cb \<Longrightarrow> EIn i h e'" and "\<forall>j. j \<noteq> i \<longrightarrow> e_evs e j = None \<Longrightarrow> left i e'"
proof -
  obtain x r where s: "spawn env (e_rust e) rq = (x, r)" by force
  from env s show ?thesis
  proof (cases rule: spawn_outcome)
    case 1
    then obtain m where r: "r = set_last_error m (e_rust e)" by blast
    have ok: "EIn i h (e\<lparr>e_rust := r\<rparr>)" unfolding r by (rule EIn_keepl[OF e set_last_error_keepl[OF EIn_RInv[OF e]]])
    show ?thesis
      by (rule that[of "e\<lparr>e_rust := r\<rparr>"]) (use call s 1 ok EIn_left[OF ok] in \<open>simp_all add: IROH_EVENT_ADD_def r\<close>)
  next
    case (2 fd)
    let ?c = "\<lparr>ec_handle = r_next (e_rust e), ec_callback = cb\<rparr>"
    let ?e = "e\<lparr>e_rust := r, e_next := Suc (e_next e), e_evs := (e_evs e)(e_next e \<mapsto> ?c)\<rparr>"
    have "r_handles r (r_next (e_rust e)) = Some (handle_new fd rq)" using 2(3) by simp
    then have "iroh_event_add env (r_next (e_rust e)) cb (e\<lparr>e_rust := r\<rparr>) = Inr ?e"
      using event_added[OF env, of "e\<lparr>e_rust := r\<rparr>" "r_next (e_rust e)" fd rq cb] 2(2) by simp
    then have run: "IROH_EVENT_ADD env call cb e = Inr ?e" using call s 2(1) by (simp add: IROH_EVENT_ADD_def)
    have e': "?e = e\<lparr>e_rust := (put_handle (r_next (e_rust e)) (handle_new fd rq) (e_rust e))\<lparr>r_next := Suc (r_next (e_rust e))\<rparr>,
       e_next := Suc (e_next e), e_evs := (e_evs e)(e_next e \<mapsto> ?c)\<rparr>" using 2(3) by simp
    note add = EIn_add[OF e b cb own e']
    show ?thesis
      by (rule that[OF run _ _ _ add(3) EIn_add_early[OF e refl add(1,2)]]) (simp_all add: 2(3))
  qed
qed

lemma ffi_start_spawn: "list_all (\<lambda>(x, k). r_res r x = Some k) xs \<Longrightarrow> ffi_start env r xs rq = Inr (spawn env r rq)"
  by (simp add: ffi_start_def split: prod.split option.split)

text \<open>Changing a stream context that no other event refers to.\<close>

definition unref :: "addr \<Rightarrow> addr \<Rightarrow> echo \<Rightarrow> bool" where
  "unref i a e \<longleftrightarrow> (\<forall>j c. j \<noteq> i \<and> e_evs e j = Some c \<longrightarrow> ctx_of (ec_callback c) \<noteq> Some a)"

lemma cb_ok_other:
  "ctx_of cb \<noteq> Some a \<Longrightarrow> cb_ok (e\<lparr>e_ctxs := (e_ctxs e)(a := x)\<rparr>) cb rq = cb_ok e cb rq"
  by (cases cb) simp_all

lemma evs_ok_ctx:
  assumes "evs_ok ((e_evs e)(i := None)) e" and "unref i a e"
  shows "evs_ok ((e_evs e)(i := None)) (e\<lparr>e_ctxs := (e_ctxs e)(a := x)\<rparr>)"
proof -
  have "ev_ok (e\<lparr>e_ctxs := (e_ctxs e)(a := x)\<rparr>) c" if "((e_evs e)(i := None)) j = Some c" for j c
  proof -
    have "ev_ok e c" "ctx_of (ec_callback c) \<noteq> Some a" using assms that by (auto simp: evs_ok_def unref_def split: if_splits)
    then show ?thesis by (auto simp: ev_ok_def cb_ok_other)
  qed
  with assms(1) show ?thesis by (simp add: evs_ok_def)
qed

lemma EIn_drop_ctx:
  assumes "EIn i h e" and "unref i a e"
  shows "EIn i h (e\<lparr>e_ctxs := (e_ctxs e)(a := None)\<rparr>)"
proof -
  have "mem_ok (e\<lparr>e_ctxs := (e_ctxs e)(a := None)\<rparr>)" using assms(1) unfolding EIn_def mem_ok_def by (auto split: if_splits)
  with assms evs_ok_ctx[OF _ assms(2), of None] show ?thesis by (simp add: EIn_def)
qed

lemma EIn_put_ctx:
  assumes e: "EIn i h e" and a: "unref i a e" "a < e_next e" and x: "sc_ok (e_rust e) x"
    and o: "\<And>b y. b \<noteq> a \<Longrightarrow> e_ctxs e b = Some y \<Longrightarrow> objs x \<inter> objs y = {}"
  shows "EIn i h (e\<lparr>e_ctxs := (e_ctxs e)(a \<mapsto> x)\<rparr>)"
proof -
  have m: "mem_ok e" using e by (simp add: EIn_def)
  have dis: "b = d" if "e_ctxs e b = Some y" "e_ctxs e d = Some z" "objs y \<inter> objs z \<noteq> {}" for b d y z
    using m that unfolding mem_ok_def by blast
  have "b = d" if q: "((e_ctxs e)(a \<mapsto> x)) b = Some y" "((e_ctxs e)(a \<mapsto> x)) d = Some z" "objs y \<inter> objs z \<noteq> {}" for b d y z
  proof (cases "b = a \<or> d = a")
    case True
    with q o[of b y] o[of d z] show ?thesis by (cases "b = a"; cases "d = a") (simp_all add: Int_commute)
  next
    case False
    with q dis[of b y d z] show ?thesis by simp
  qed
  moreover have "b < e_next e \<and> sc_ok (e_rust e) y" if "((e_ctxs e)(a \<mapsto> x)) b = Some y" for b y
    using m a(2) x that unfolding mem_ok_def by (cases "b = a") simp_all
  ultimately have "mem_ok (e\<lparr>e_ctxs := (e_ctxs e)(a \<mapsto> x)\<rparr>)"
    using m unfolding mem_ok_def by (intro conjI allI impI; elim conjE) (simp_all del: fun_upd_apply)
  with e evs_ok_ctx[OF _ a(1), of "Some x"] show ?thesis by (simp add: EIn_def)
qed

lemma EIn_next: "EIn i h e \<Longrightarrow> EIn i h (e\<lparr>e_next := Suc (e_next e)\<rparr>)"
  using mem_ok_cong[of "e\<lparr>e_next := Suc (e_next e)\<rparr>" e] evs_ok_cong[of "e\<lparr>e_next := Suc (e_next e)\<rparr>" e]
  by (simp add: EIn_def)

text \<open>Releasing an object no context owns.\<close>

definition unowned :: "rid \<Rightarrow> echo \<Rightarrow> bool" where
  "unowned x e \<longleftrightarrow> app_endpoint (e_app e) \<noteq> Some x \<and> (\<forall>a y. e_ctxs e a = Some y \<longrightarrow> x \<notin> objs y)"

lemma unowned_not_borrowed:
  assumes "evs_ok evs e" and "unowned x e"
  shows "unborrowed (e_rust e) x"
  unfolding unborrowed_def
proof (intro allI impI, elim conjE)
  fix g ah
  assume g: "r_handles (e_rust e) g = Some ah" "h_running ah"
  then obtain i c where c: "evs i = Some c" "ec_handle c = g" using assms(1) unfolding evs_ok_def served_def by blast
  then have "ev_ok e c" using assms(1) unfolding evs_ok_def by blast
  then have "cb_ok e (ec_callback c) (h_req ah)" using c(2) g(1) by (simp add: ev_ok_def)
  then show "x \<notin> set (task_borrows (h_req ah))"
    using assms(2) by (cases "ec_callback c") (fastforce simp: unowned_def objs_def)+
qed

lemma EIn_free:
  assumes e: "EIn i h e" and x: "unowned x e" and k: "r_res (e_rust e) x = Some k"
  obtains r where "rust_do (iroh_free k (Some x)) e = Inr (e\<lparr>e_rust := r\<rparr>)" and "EIn i h (e\<lparr>e_rust := r\<rparr>)"
    and "r_res r = (r_res (e_rust e))(x := None)"
proof -
  let ?r = "(e_rust e)\<lparr>r_res := (r_res (e_rust e))(x := None)\<rparr>" and ?evs = "(e_evs e)(i := None)"
  let ?e = "e\<lparr>e_rust := ?r\<rparr>"
  have m: "mem_ok e" "evs_ok ?evs e" using e by (simp_all add: EIn_def)
  have ub: "unborrowed (e_rust e) x" by (rule unowned_not_borrowed[OF m(2) x])
  have ok: "rust_ok (e_rust e)" using m(1) by (simp add: mem_ok_def)
  then have "RInv ?r" using ub by (auto simp: rust_ok_def RInv_def rfresh_def tasks_ok_def unborrowed_def)
  then have "rust_ok ?r" using ok by (simp add: rust_ok_def)
  moreover have "sc_ok ?r y" if "e_ctxs e a = Some y" for a y
  proof -
    have "sc_ok (e_rust e) y" "x \<notin> objs y" using m(1) x that by (auto simp: mem_ok_def unowned_def)
    then show ?thesis by (auto simp: sc_ok_def objs_def)
  qed
  ultimately have "mem_ok ?e" using m(1) x unfolding mem_ok_def unowned_def by auto
  moreover have "ev_ok ?e c = ev_ok e c" for c using cb_ok_cong[of ?e e] by (simp add: ev_ok_def)
  then have "evs_ok ?evs ?e" using m(2) by (simp add: evs_ok_def served_def)
  ultimately have "EIn i h ?e" using e by (simp add: EIn_def)
  with k that show ?thesis by (simp add: rust_do_def iroh_free_def box_from_raw_def)
qed

end
