(* ===== verification/EchoHandlers.thy ===== *)
theory EchoHandlers
  imports EchoSafety
begin

text \<open>
  Each callback of the echo server, called when its operation has ended, commits no memory error
  and leaves the invariant once its event is gone (\<open>left\<close>). \<open>yields\<close> is the judgement.
\<close>

section \<open>Callbacks\<close>

text \<open>A step that ends without a fault in a state with \<open>Q\<close>.\<close>

definition yields :: "fault + 'a \<Rightarrow> ('a \<Rightarrow> bool) \<Rightarrow> bool" where
  "yields m Q \<longleftrightarrow> (\<exists>x. m = Inr x \<and> Q x)"

lemma yieldsI [simp]: "yields (Inr x) Q \<longleftrightarrow> Q x"
  by (simp add: yields_def)

lemma yields_bnd: "yields m P \<Longrightarrow> (\<And>x. P x \<Longrightarrow> yields (f x) Q) \<Longrightarrow> yields (bnd m f) Q"
  by (auto simp: yields_def)

lemma yields_mono: "yields m P \<Longrightarrow> (\<And>x. P x \<Longrightarrow> Q x) \<Longrightarrow> yields m Q"
  by (auto simp: yields_def)

text \<open>The state in which the callback \<open>cb\<close> of event \<open>i\<close> is called.\<close>

definition called :: "addr \<Rightarrow> hid \<Rightarrow> ev_callback \<Rightarrow> echo \<Rightarrow> bool" where
  "called i h cb e \<longleftrightarrow> EIn i h e \<and> handle_live (e_rust e) h \<and> (\<exists>rq. cb_ok e cb rq)
     \<and> (\<forall>a. ctx_of cb = Some a \<longrightarrow> unref i a e) \<and> (early cb \<longrightarrow> (\<forall>j. j \<noteq> i \<longrightarrow> e_evs e j = None))"

lemma add_null:
  assumes "EIn i h e" and "call (e_rust e) = null_arg m (e_rust e)"
  shows "yields (IROH_EVENT_ADD env call cb e) (\<lambda>e'. EIn i h e' \<and> e_ctxs e' = e_ctxs e)"
  using EIn_keepl[OF assms(1) set_last_error_keepl[OF EIn_RInv[OF assms(1)]]] assms(2)
  by (simp add: IROH_EVENT_ADD_def null_arg_def)

lemma EIn_endpoint_live: "EIn i h e \<Longrightarrow> app_endpoint (e_app e) = Some ep \<Longrightarrow> r_res (e_rust e) ep = Some KEndpoint"
  by (simp add: EIn_def mem_ok_def)

lemma accept_next_ok:
  assumes env: "env_ok env" and e: "EIn i h e"
  shows "yields (accept_next env e) (EIn i h)"
proof (cases "app_endpoint (e_app e)")
  case None
  have "iroh_endpoint_accept env (e_rust e) (app_endpoint (e_app e)) = null_arg ''NULL endpoint'' (e_rust e)"
    by (simp add: None iroh_endpoint_accept_def)
  from add_null[where call = "\<lambda>r. iroh_endpoint_accept env r (app_endpoint (e_app e))", OF e this, of env On_connection_accepted]
  show ?thesis by (auto simp: accept_next_def yields_def)
next
  case (Some ep)
  have "iroh_endpoint_accept env (e_rust e) (app_endpoint (e_app e)) = Inr (spawn env (e_rust e) (RqAccept ep))"
    by (simp add: Some iroh_endpoint_accept_def ffi_start_spawn)
  from add_step[where call = "\<lambda>r. iroh_endpoint_accept env r (app_endpoint (e_app e))" and cb = On_connection_accepted, OF env e this]
  show ?thesis using EIn_endpoint_live[OF e Some] Some
    by (force simp: accept_next_def yields_def borrowable_def early_def)
qed

lemma ctx_live:
  assumes "EIn i h e" and "e_ctxs e a = Some x"
  shows "a < e_next e" and "sc_ok (e_rust e) x"
  using assms unfolding EIn_def mem_ok_def by blast+

lemma read_next_ok:
  assumes env: "env_ok env" and e: "EIn i h e" and a: "unref i a e"
    and x: "e_ctxs e a = Some \<lparr>sc_conn = Some n, sc_send = Some s, sc_recv = Some t\<rparr>"
  shows "yields (IROH_EVENT_ADD env (\<lambda>r. iroh_recv_stream_read env r (Some t) 65536) (On_data_read a) e) (EIn i h)"
proof -
  have "iroh_recv_stream_read env (e_rust e) (Some t) 65536 = Inr (spawn env (e_rust e) (RqRead t 65536))"
    by (simp add: iroh_recv_stream_read_def ffi_start_spawn)
  from add_step[where call = "\<lambda>r. iroh_recv_stream_read env r (Some t) 65536" and cb = "On_data_read a", OF env e this]
  show ?thesis using ctx_live[OF e x] x a
    by (force simp: yields_def borrowable_def early_def sc_ok_def unref_def)
qed

lemma write_ok:
  assumes env: "env_ok env" and e: "EIn i h e" and a: "unref i a e"
    and x: "e_ctxs e a = Some \<lparr>sc_conn = Some n, sc_send = Some s, sc_recv = Some t\<rparr>"
  shows "yields (IROH_EVENT_ADD env (\<lambda>r. iroh_send_stream_write env r (Some s) d) (On_data_written a) e) (EIn i h)"
proof -
  have "iroh_send_stream_write env (e_rust e) (Some s) d = Inr (spawn env (e_rust e) (RqWrite s d))"
    by (simp add: iroh_send_stream_write_def ffi_start_spawn)
  from add_step[where call = "\<lambda>r. iroh_send_stream_write env r (Some s) d" and cb = "On_data_written a", OF env e this]
  show ?thesis using ctx_live[OF e x] x a
    by (force simp: yields_def borrowable_def early_def sc_ok_def unref_def)
qed

subsection \<open>Creating the endpoint\<close>

lemma break_left:
  assumes "EIn i h e" and none: "\<forall>j. j \<noteq> i \<longrightarrow> e_evs e j = None"
  shows "yields (loopbreak e) (left i)"
proof -
  let ?e = "e\<lparr>e_break := True, e_evs := (e_evs e)(i := None)\<rparr>"
  have "mem_ok ?e" "evs_ok ((e_evs e)(i := None)) ?e"
    using assms(1) by (auto simp: EIn_def intro: mem_ok_cong[of ?e e] evs_ok_cong[of ?e e])
  moreover have "(e_evs e)(i := None) = (\<lambda>_. None)" using none by auto
  ultimately show ?thesis by (auto simp: loopbreak_def left_def EInv_def)
qed

lemma EIn_app:
  assumes e: "EIn i h e" and none: "\<forall>j. j \<noteq> i \<longrightarrow> e_evs e j = None"
    and ep: "\<forall>n. app_endpoint app = Some n \<longrightarrow> r_res (e_rust e) n = Some KEndpoint"
  shows "EIn i h (e\<lparr>e_app := app\<rparr>)"
proof -
  have "(e_evs e)(i := None) = (\<lambda>_. None)" using none by auto
  with e ep show ?thesis by (auto simp: EIn_def mem_ok_def evs_ok_def)
qed

lemma on_endpoint_created_ok:
  assumes env: "env_ok env" and c: "called i h On_endpoint_created e"
  shows "yields (on_endpoint_created env h e) (left i)"
proof -
  have e: "EIn i h e" and hl: "handle_live (e_rust e) h" and none: "\<forall>j. j \<noteq> i \<longrightarrow> e_evs e j = None"
    using c by (simp_all add: called_def early_def)
  obtain st where st: "iroh_async_poll (e_rust e) (Some h) = Inr st" using poll_live[OF hl] by blast
  show ?thesis
  proof (cases "st = Ready")
    case False
    obtain r where "rust_do (\<lambda>r. iroh_async_free r (Some h)) e = Inr (e\<lparr>e_rust := r\<rparr>)" "EIn i h (e\<lparr>e_rust := r\<rparr>)"
      by (rule free_handle[OF e hl])
    with False st none show ?thesis
      by (simp add: on_endpoint_created_def print_error_live[OF hl] break_left)
  next
    case True
    obtain ep r where g: "iroh_endpoint_create_result (e_rust e) (Some h) = Inr (ep, r)" "keepl h (e_rust e) r"
      and ep: "\<forall>n. ep = Some n \<longrightarrow> r_res r n = Some KEndpoint"
      using got_take_boxed[OF EIn_RInv[OF e] hl, of KEndpoint AEndpoint] by (auto simp: got_box_def iroh_endpoint_create_result_def)
    let ?e = "e\<lparr>e_rust := r, e_app := (e_app e)\<lparr>app_endpoint := ep\<rparr>\<rparr>"
    have e1: "EIn i h ?e" using EIn_app[OF EIn_keepl[OF e g(2)], of "(e_app e)\<lparr>app_endpoint := ep\<rparr>"] none ep by simp
    have hl1: "handle_live (e_rust ?e) h" using g(2) hl by (simp add: keepl_def)
    obtain r' where f: "rust_do (\<lambda>r. iroh_async_free r (Some h)) ?e = Inr (?e\<lparr>e_rust := r'\<rparr>)" "EIn i h (?e\<lparr>e_rust := r'\<rparr>)" "r_res r' = r_res r"
      by (rule free_handle[OF e1 hl1]) simp
    let ?f = "?e\<lparr>e_rust := r'\<rparr>"
    have run: "on_endpoint_created env h e = (if ep = None then loopbreak ?f
        else IROH_EVENT_ADD env (\<lambda>r. iroh_endpoint_wait_online env r ep) On_endpoint_online ?f)"
      using st True f(1) by (simp add: on_endpoint_created_def rust_get_def g(1))
    show ?thesis
    proof (cases ep)
      case None
      with run break_left[OF f(2)] none show ?thesis by simp
    next
      case (Some n)
      have "iroh_endpoint_wait_online env (e_rust ?f) ep = Inr (spawn env (e_rust ?f) (RqWaitOnline n))"
        by (simp add: Some iroh_endpoint_wait_online_def ffi_start_spawn)
      from add_step[where call = "\<lambda>r. iroh_endpoint_wait_online env r ep" and cb = On_endpoint_online, OF env f(2) this]
      show ?thesis using run ep f(3) Some none by (force simp: yields_def borrowable_def)
    qed
  qed
qed

lemma print_step:
  assumes e: "EIn i h e" and m: "m (e_rust e) = (case tmp_into_raw k s (e_rust e) of (j, r') \<Rightarrow> Inr (Some j, r'))"
    and f: "\<And>r'. EIn i h (e\<lparr>e_rust := r'\<rparr>) \<Longrightarrow> r_res r' = r_res (e_rust e) \<Longrightarrow> yields (f (e\<lparr>e_rust := r'\<rparr>)) Q"
  shows "yields (bnd (rust_get m e) (\<lambda>(x, e). bnd (rust_do (print_id k x) e) f)) Q"
proof -
  obtain j r1 where t: "tmp_into_raw k s (e_rust e) = (j, r1)" by force
  obtain r' where r': "print_id k (Some j) r1 = Inr r'" "keepl h (e_rust e) r'" "r_res r' = r_res (e_rust e)"
    by (rule print_new_id[OF EIn_RInv[OF e] t])
  with f[OF EIn_keepl[OF e r'(2)]] show ?thesis by (simp add: m t rust_get_def rust_do_def)
qed

lemma on_endpoint_online_ok:
  assumes env: "env_ok env" and c: "called i h On_endpoint_online e"
  shows "yields (on_endpoint_online env h e) (left i)"
proof -
  have e: "EIn i h e" and hl: "handle_live (e_rust e) h" and none: "\<forall>j. j \<noteq> i \<longrightarrow> e_evs e j = None"
    using c by (simp_all add: called_def early_def)
  obtain st where st: "iroh_async_poll (e_rust e) (Some h) = Inr st" using poll_live[OF hl] by blast
  obtain r where f: "rust_do (\<lambda>r. iroh_async_free r (Some h)) e = Inr (e\<lparr>e_rust := r\<rparr>)" "EIn i h (e\<lparr>e_rust := r\<rparr>)"
    by (rule free_handle[OF e hl])
  have "yields (accept_next env (e\<lparr>e_rust := r\<rparr>)) (left i)" if "EIn i h (e\<lparr>e_rust := r\<rparr>)" for r
    using accept_next_ok[OF env that] by (rule yields_mono) (rule EIn_left)
  then have acc: "yields (bnd (rust_get (\<lambda>r. iroh_endpoint_id env r (app_endpoint (e_app e))) (e\<lparr>e_rust := r\<rparr>)) (\<lambda>(j, e).
      bnd (rust_do (print_id TPublicKey j) e) (accept_next env))) (left i)" if r: "EIn i h (e\<lparr>e_rust := r\<rparr>)" for r
  proof (cases "app_endpoint (e_app e)")
    case None
    with r \<open>\<And>r. EIn i h (e\<lparr>e_rust := r\<rparr>) \<Longrightarrow> _\<close> show ?thesis by (simp add: rust_get_def rust_do_def iroh_endpoint_id_def print_id_def)
  next
    case (Some ep)
    have "r_res r ep = Some KEndpoint" using EIn_endpoint_live[OF r] Some by simp
    then show ?thesis using Some \<open>\<And>r. EIn i h (e\<lparr>e_rust := r\<rparr>) \<Longrightarrow> _\<close>
      by (intro print_step[OF r, where s = "env_endpoint_id env ep"]) (simp_all add: iroh_endpoint_id_def deref_res_def)
  qed
  have "yields (bnd (rust_get (\<lambda>r. iroh_endpoint_addr env r (app_endpoint (e_app e))) (e\<lparr>e_rust := r\<rparr>)) (\<lambda>(j, e).
      bnd (rust_do (print_id TEndpointAddr j) e) (\<lambda>e. bnd (rust_get (\<lambda>r. iroh_endpoint_id env r (app_endpoint (e_app e))) e) (\<lambda>(j, e).
      bnd (rust_do (print_id TPublicKey j) e) (accept_next env))))) (left i)"
  proof (cases "app_endpoint (e_app e)")
    case None
    with acc[OF f(2)] show ?thesis by (simp add: rust_get_def rust_do_def iroh_endpoint_addr_def print_id_def)
  next
    case (Some ep)
    have "r_res r ep = Some KEndpoint" using EIn_endpoint_live[OF f(2)] Some by simp
    then show ?thesis using Some acc
      by (intro print_step[OF f(2), where s = "env_endpoint_addr env ep"]) (simp_all add: iroh_endpoint_addr_def deref_res_def)
  qed
  with st f none break_left[OF f(2)] show ?thesis by (simp add: on_endpoint_online_def)
qed

subsection \<open>Connections and streams\<close>

lemma new_ctx_ok:
  assumes env: "env_ok env" and e: "EIn i h e" and n: "r_res (e_rust e) n = Some KConnection"
    and fresh: "\<forall>a y. e_ctxs e a = Some y \<longrightarrow> n \<notin> objs y"
  shows "yields (bnd (IROH_EVENT_ADD env (\<lambda>r. iroh_connection_accept_bi env r (Some n)) (On_stream_accepted (e_next e))
      (e\<lparr>e_next := Suc (e_next e), e_ctxs := (e_ctxs e)(e_next e \<mapsto> \<lparr>sc_conn = Some n, sc_send = None, sc_recv = None\<rparr>)\<rparr>))
      (accept_next env)) (left i)"
    (is "yields (bnd (IROH_EVENT_ADD env ?call ?cb ?e) _) _")
proof -
  let ?x = "\<lparr>sc_conn = Some n, sc_send = None, sc_recv = None\<rparr>"
  have ev: "cb_ok e (ec_callback c) rq \<Longrightarrow> ctx_of (ec_callback c) \<noteq> Some (e_next e)" for c rq
    using ctx_live(1)[OF e, of "e_next e"] by (cases "ec_callback c") auto
  have "ev_ok e c" if "j \<noteq> i" "e_evs e j = Some c" for j c
    using e that unfolding EIn_def evs_ok_def by (metis fun_upd_other)
  then have u: "unref i (e_next e) (e\<lparr>e_next := Suc (e_next e)\<rparr>)" using ev by (fastforce simp: unref_def ev_ok_def)
  have "EIn i h ((e\<lparr>e_next := Suc (e_next e)\<rparr>)\<lparr>e_ctxs := (e_ctxs (e\<lparr>e_next := Suc (e_next e)\<rparr>))(e_next e \<mapsto> ?x)\<rparr>)"
    using fresh n by (intro EIn_put_ctx[OF EIn_next[OF e] u]) (auto simp: sc_ok_def objs_def)
  then have e1: "EIn i h ?e" by simp
  have "iroh_connection_accept_bi env (e_rust ?e) (Some n) = Inr (spawn env (e_rust ?e) (RqAcceptBi n))"
    using n by (simp add: iroh_connection_accept_bi_def ffi_start_spawn)
  from add_step[where call = ?call and cb = ?cb, OF env e1 this]
  have "yields (IROH_EVENT_ADD env ?call ?cb ?e) (EIn i h)"
    using u by (force simp: yields_def early_def unref_def)
  then show ?thesis by (rule yields_bnd) (blast intro: yields_mono[OF accept_next_ok[OF env]] EIn_left)
qed

lemma on_connection_accepted_ok:
  assumes env: "env_ok env" and c: "called i h On_connection_accepted e"
  shows "yields (on_connection_accepted env h e) (left i)"
proof -
  have e: "EIn i h e" and hl: "handle_live (e_rust e) h" using c by (simp_all add: called_def)
  have acc: "yields (accept_next env e') (left i)" if "EIn i h e'" for e'
    using accept_next_ok[OF env that] by (rule yields_mono) (rule EIn_left)
  obtain st where st: "iroh_async_poll (e_rust e) (Some h) = Inr st" using poll_live[OF hl] by blast
  show ?thesis
  proof (cases "st = Ready")
    case False
    obtain r where "rust_do (\<lambda>r. iroh_async_free r (Some h)) e = Inr (e\<lparr>e_rust := r\<rparr>)" "EIn i h (e\<lparr>e_rust := r\<rparr>)"
      by (rule free_handle[OF e hl])
    with False st acc show ?thesis by (simp add: on_connection_accepted_def print_error_live[OF hl])
  next
    case True
    obtain conn r where g: "iroh_connection_accept_result (e_rust e) (Some h) = Inr (conn, r)" "keepl h (e_rust e) r"
      and conn: "\<And>n. conn = Some n \<Longrightarrow> r_next (e_rust e) \<le> n \<and> r_res r n = Some KConnection"
      using got_take_boxed[OF EIn_RInv[OF e] hl, of KConnection AConnection]
      by (auto simp: got_box_def iroh_connection_accept_result_def)
    have hl1: "handle_live (e_rust (e\<lparr>e_rust := r\<rparr>)) h" using g(2) hl by (simp add: keepl_def)
    obtain r' where f: "rust_do (\<lambda>r. iroh_async_free r (Some h)) (e\<lparr>e_rust := r\<rparr>) = Inr (e\<lparr>e_rust := r'\<rparr>)"
      "EIn i h (e\<lparr>e_rust := r'\<rparr>)" "r_res r' = r_res r"
      by (rule free_handle[OF EIn_keepl[OF e g(2)] hl1]) simp
    show ?thesis
    proof (cases conn)
      case None
      with st True f acc show ?thesis by (simp add: on_connection_accepted_def rust_get_def g(1))
    next
      case (Some n)
      have "r_res (e_rust e) n = None" using conn[OF Some] RInv_fresh(2)[OF EIn_RInv[OF e]] by simp
      then have fresh: "n \<notin> objs y" if "e_ctxs e a = Some y" for a y
        using ctx_live(2)[OF e that] by (auto simp: sc_ok_def objs_def)
      have "yields (bnd (rust_get (\<lambda>r. iroh_connection_remote_id env r (Some n)) (e\<lparr>e_rust := r'\<rparr>)) (\<lambda>(j, e).
         bnd (rust_do (print_id TPublicKey j) e) (\<lambda>e. bnd (IROH_EVENT_ADD env (\<lambda>r. iroh_connection_accept_bi env r (Some n)) (On_stream_accepted (e_next e))
          (e\<lparr>e_next := Suc (e_next e), e_ctxs := (e_ctxs e)(e_next e \<mapsto> \<lparr>sc_conn = Some n, sc_send = None, sc_recv = None\<rparr>)\<rparr>))
         (accept_next env)))) (left i)"
      proof (rule print_step[OF f(2), where s = "env_remote_id env n"], goal_cases)
        case 1
        then show ?case using conn[OF Some] f(3) by (simp add: iroh_connection_remote_id_def deref_res_def)
      next
        case (2 r'')
        then show ?case using new_ctx_ok[OF env 2(1), of n] f(3) conn[OF Some] fresh by simp
      qed
      with st True f Some show ?thesis by (simp add: on_connection_accepted_def rust_get_def g(1) Let_def)
    qed
  qed
qed

text \<open>
  Releasing the objects of a context and then the context: in between, the invariant holds of the
  state without the context.
\<close>

definition dropping :: "addr \<Rightarrow> hid \<Rightarrow> addr \<Rightarrow> echo \<Rightarrow> bool" where
  "dropping i h a e \<longleftrightarrow> EIn i h (e\<lparr>e_ctxs := (e_ctxs e)(a := None)\<rparr>) \<and> e_ctxs e a \<noteq> None"

definition only_of :: "addr \<Rightarrow> rid \<Rightarrow> echo \<Rightarrow> bool" where
  "only_of a x e \<longleftrightarrow> unowned x (e\<lparr>e_ctxs := (e_ctxs e)(a := None)\<rparr>)"

lemma only_of_rust [simp]: "only_of a x (e\<lparr>e_rust := r\<rparr>) = only_of a x e"
  by (simp add: only_of_def unowned_def)

lemma EIn_dropping: "EIn i h e \<Longrightarrow> unref i a e \<Longrightarrow> e_ctxs e a = Some x \<Longrightarrow> dropping i h a e"
  by (simp add: dropping_def EIn_drop_ctx)

lemma objs_only_of:
  assumes e: "EIn i h e" and a: "e_ctxs e a = Some x" and n: "n \<in> objs x"
  shows "only_of a n e"
proof -
  have m: "mem_ok e" using e by (simp add: EIn_def)
  have "r_res (e_rust e) n \<noteq> Some KEndpoint" using ctx_live(2)[OF e a] n by (auto simp: sc_ok_def objs_def)
  then have "app_endpoint (e_app e) \<noteq> Some n" using m by (auto simp: mem_ok_def)
  moreover have "n \<notin> objs y" if "b \<noteq> a" "e_ctxs e b = Some y" for b y using m a n that unfolding mem_ok_def by blast
  ultimately show ?thesis by (auto simp: only_of_def unowned_def)
qed

lemma dropping_free:
  assumes d: "dropping i h a e" and x: "\<And>n. x = Some n \<Longrightarrow> only_of a n e \<and> r_res (e_rust e) n = Some k"
  obtains r where "rust_do (iroh_free k x) e = Inr (e\<lparr>e_rust := r\<rparr>)" and "dropping i h a (e\<lparr>e_rust := r\<rparr>)"
    and "\<forall>m. x \<noteq> Some m \<longrightarrow> r_res r m = r_res (e_rust e) m"
proof (cases x)
  case None
  with d show ?thesis by (intro that[of "e_rust e"]) (simp_all add: rust_do_def iroh_free_def)
next
  case (Some n)
  let ?e = "e\<lparr>e_ctxs := (e_ctxs e)(a := None)\<rparr>"
  have n: "unowned n ?e" "r_res (e_rust ?e) n = Some k" using x[OF Some] by (simp_all add: only_of_def)
  have e: "EIn i h ?e" using d by (simp add: dropping_def)
  obtain r where r: "rust_do (iroh_free k (Some n)) ?e = Inr (?e\<lparr>e_rust := r\<rparr>)" "EIn i h (?e\<lparr>e_rust := r\<rparr>)"
      "r_res r = (r_res (e_rust ?e))(n := None)" by (rule EIn_free[OF e n])
  have "(e_rust e)\<lparr>r_res := (r_res (e_rust e))(n := None)\<rparr> = r" using r(1) n(2)
    by (auto simp: rust_do_def iroh_free_def box_from_raw_def dest: arg_cong[where f = e_rust])
  then have "rust_do (iroh_free k (Some n)) e = Inr (e\<lparr>e_rust := r\<rparr>)" using n(2)
    by (simp add: rust_do_def iroh_free_def box_from_raw_def)
  moreover have "?e\<lparr>e_rust := r\<rparr> = e\<lparr>e_rust := r, e_ctxs := (e_ctxs e)(a := None)\<rparr>" by (cases e) simp
  with r(2) have "EIn i h (e\<lparr>e_rust := r, e_ctxs := (e_ctxs e)(a := None)\<rparr>)" by (simp only:)
  ultimately show ?thesis using r(3) d Some by (intro that[of r]) (auto simp: dropping_def)
qed

lemma dropping_end: "dropping i h a e \<Longrightarrow> yields (free_stream_ctx a e) (left i)"
  by (auto simp: dropping_def free_stream_ctx_def intro: EIn_left split: option.split)

lemma drop_conn_end:
  assumes "dropping i h a e" and "only_of a n e" and "r_res (e_rust e) n = Some KConnection"
  shows "yields (bnd (rust_do (iroh_free KConnection (Some n)) e) (free_stream_ctx a)) (left i)"
proof -
  obtain r where "rust_do (iroh_free KConnection (Some n)) e = Inr (e\<lparr>e_rust := r\<rparr>)" "dropping i h a (e\<lparr>e_rust := r\<rparr>)"
    by (rule dropping_free[OF assms(1), of "Some n" KConnection]) (use assms(2,3) in auto)
  then show ?thesis by (simp add: dropping_end)
qed

lemma drop_streams_ok:
  assumes d: "dropping i h a e"
    and s: "\<And>n. s = Some n \<Longrightarrow> only_of a n e \<and> r_res (e_rust e) n = Some KSendStream"
    and t: "\<And>n. t = Some n \<Longrightarrow> only_of a n e \<and> r_res (e_rust e) n = Some KRecvStream"
  obtains r where "bnd (rust_do (iroh_free KSendStream s) e) (\<lambda>e. bnd (rust_do (iroh_free KRecvStream t) e) f) = f (e\<lparr>e_rust := r\<rparr>)"
    and "dropping i h a (e\<lparr>e_rust := r\<rparr>)" and "\<forall>m. r_res (e_rust e) m = Some KConnection \<longrightarrow> r_res r m = Some KConnection"
proof -
  obtain r where r: "rust_do (iroh_free KSendStream s) e = Inr (e\<lparr>e_rust := r\<rparr>)" "dropping i h a (e\<lparr>e_rust := r\<rparr>)"
    "\<forall>m. s \<noteq> Some m \<longrightarrow> r_res r m = r_res (e_rust e) m" using dropping_free[OF d s] by blast
  have t1: "only_of a n (e\<lparr>e_rust := r\<rparr>) \<and> r_res (e_rust (e\<lparr>e_rust := r\<rparr>)) n = Some KRecvStream" if "t = Some n" for n
    using t[OF that] s[of n] r(3) by (cases "s = Some n") auto
  obtain r' where r': "rust_do (iroh_free KRecvStream t) (e\<lparr>e_rust := r\<rparr>) = Inr (e\<lparr>e_rust := r'\<rparr>)" "dropping i h a (e\<lparr>e_rust := r'\<rparr>)"
    "\<forall>m. t \<noteq> Some m \<longrightarrow> r_res r' m = r_res r m" by (rule dropping_free[OF r(2) t1]) simp_all
  have "r_res r' m = Some KConnection" if "r_res (e_rust e) m = Some KConnection" for m
    using s[of m] t[of m] r(3) r'(3) that by (cases "s = Some m"; cases "t = Some m") auto
  with r r' show ?thesis by (intro that[of r']) simp_all
qed

lemma on_stream_accepted_ok:
  assumes env: "env_ok env" and c: "called i h (On_stream_accepted a) e"
  shows "yields (on_stream_accepted env h a e) (left i)"
proof -
  have e: "EIn i h e" and hl: "handle_live (e_rust e) h" and u: "unref i a e" using c by (simp_all add: called_def)
  obtain n where x: "e_ctxs e a = Some \<lparr>sc_conn = Some n, sc_send = None, sc_recv = None\<rparr>" (is "_ = Some ?x") using c by (auto simp: called_def)
  have n: "r_res (e_rust e) n = Some KConnection" "only_of a n e"
    using ctx_live(2)[OF e x] objs_only_of[OF e x, of n] by (simp_all add: sc_ok_def objs_def)
  obtain st where st: "iroh_async_poll (e_rust e) (Some h) = Inr st" using poll_live[OF hl] by blast
  show ?thesis
  proof (cases "st = Ready")
    case False
    obtain r where f: "rust_do (\<lambda>r. iroh_async_free r (Some h)) e = Inr (e\<lparr>e_rust := r\<rparr>)" "EIn i h (e\<lparr>e_rust := r\<rparr>)" "r_res r = r_res (e_rust e)"
      by (rule free_handle[OF e hl])
    have d: "dropping i h a (e\<lparr>e_rust := r\<rparr>)" using EIn_dropping[OF f(2), of a] u x by (simp add: unref_def)
    have "yields (bnd (rust_do (iroh_free KConnection (Some n)) (e\<lparr>e_rust := r\<rparr>)) (free_stream_ctx a)) (left i)"
      using n f(3) by (intro drop_conn_end[OF d]) simp_all
    with False st f x show ?thesis by (simp add: on_stream_accepted_def print_error_live[OF hl] get_stream_ctx_def)
  next
    case True
    obtain s r where g: "iroh_stream_open_bi_send_result (e_rust e) (Some h) = Inr (s, r)" "keepl h (e_rust e) r"
      and s: "\<And>n. s = Some n \<Longrightarrow> r_next (e_rust e) \<le> n \<and> r_res r n = Some KSendStream"
      using got_split_boxed[OF EIn_RInv[OF e] hl, of KSendStream True ABiStream ARecvStream]
      by (auto simp: got_box_def iroh_stream_open_bi_send_result_def)
    have hl1: "handle_live r h" using g(2) hl by (simp add: keepl_def)
    obtain t r1 where g1: "iroh_stream_open_bi_recv_result r (Some h) = Inr (t, r1)" "keepl h r r1"
      and t: "\<And>n. t = Some n \<Longrightarrow> r_next r \<le> n \<and> r_res r1 n = Some KRecvStream"
      using got_take_boxed[OF keepl_RInv[OF g(2)] hl1, of KRecvStream ARecvStream]
      by (auto simp: got_box_def iroh_stream_open_bi_recv_result_def)
    have k: "keepl h (e_rust e) r1" by (rule keepl_trans[OF g(2) g1(2)])
    have kk: "r_next (e_rust e) \<le> r_next r" "\<And>x k. r_res r x = Some k \<Longrightarrow> r_res r1 x = Some k" "\<And>x k. r_res (e_rust e) x = Some k \<Longrightarrow> r_res r1 x = Some k"
      using g(2) g1(2) k by (simp_all add: keepl_def keepr_def)
    let ?y = "\<lparr>sc_conn = Some n, sc_send = s, sc_recv = t\<rparr>"
    let ?e = "e\<lparr>e_rust := r1, e_ctxs := (e_ctxs e)(a \<mapsto> ?y)\<rparr>"
    have y: "sc_ok r1 ?y" using n(1) s t kk by (simp add: sc_ok_def)
    have "m < r_next (e_rust e)" if "e_ctxs e b = Some z" "m \<in> objs z" for b z m
    proof (rule ccontr)
      assume "\<not> m < r_next (e_rust e)"
      then have "r_res (e_rust e) m = None" using RInv_fresh(2)[OF EIn_RInv[OF e], of m] by simp
      with ctx_live(2)[OF e that(1)] that(2) show False by (auto simp: sc_ok_def objs_def)
    qed
    moreover have "n \<notin> objs z" if "b \<noteq> a" "e_ctxs e b = Some z" for b z
      using n(2) that unfolding only_of_def unowned_def by (auto dest: spec[of _ b])
    ultimately have dis: "objs ?y \<inter> objs z = {}" if "b \<noteq> a" "e_ctxs e b = Some z" for b z
      using s t kk(1) that by (fastforce simp: objs_def)
    have e0: "EIn i h (e\<lparr>e_rust := r1\<rparr>)" by (rule EIn_keepl[OF e k])
    have e1: "EIn i h ?e" using EIn_put_ctx[OF e0, of a ?y] u ctx_live(1)[OF e x] y dis by (simp add: unref_def)
    have hl2: "handle_live (e_rust ?e) h" using k hl by (simp add: keepl_def)
    obtain r2 where f: "rust_do (\<lambda>r. iroh_async_free r (Some h)) ?e = Inr (?e\<lparr>e_rust := r2\<rparr>)" "EIn i h (?e\<lparr>e_rust := r2\<rparr>)" "r_res r2 = r_res r1"
      by (rule free_handle[OF e1 hl2]) simp
    let ?f = "?e\<lparr>e_rust := r2\<rparr>"
    have u2: "unref i a ?f" using u by (simp add: unref_def)
    have run: "on_stream_accepted env h a e = (if s = None \<or> t = None then
         bnd (rust_do (iroh_free KSendStream s) ?f) (\<lambda>e. bnd (rust_do (iroh_free KRecvStream t) e) (\<lambda>e.
         bnd (rust_do (iroh_free KConnection (Some n)) e) (free_stream_ctx a)))
       else IROH_EVENT_ADD env (\<lambda>r. iroh_recv_stream_read env r t 65536) (On_data_read a) ?f)"
      using st True x f(1) by (simp add: on_stream_accepted_def get_stream_ctx_def rust_get_def g(1) g1(1))
    show ?thesis
    proof (cases "s = None \<or> t = None")
      case False
      then obtain s' t' where "s = Some s'" "t = Some t'" by auto
      with run read_next_ok[OF env f(2) u2, of n s' t'] show ?thesis by (auto simp: yields_def dest: EIn_left)
    next
      case True
      have d: "dropping i h a ?f" using EIn_dropping[OF f(2) u2] by simp
      have o: "only_of a m ?f" if "m \<in> objs ?y" for m using objs_only_of[OF f(2) _ that] by simp
      obtain r3 where r3: "bnd (rust_do (iroh_free KSendStream s) ?f) (\<lambda>e. bnd (rust_do (iroh_free KRecvStream t) e)
          (\<lambda>e. bnd (rust_do (iroh_free KConnection (Some n)) e) (free_stream_ctx a))) =
          bnd (rust_do (iroh_free KConnection (Some n)) (?f\<lparr>e_rust := r3\<rparr>)) (free_stream_ctx a)"
        and d3: "dropping i h a (?f\<lparr>e_rust := r3\<rparr>)" and c3: "\<forall>m. r_res (e_rust ?f) m = Some KConnection \<longrightarrow> r_res r3 m = Some KConnection"
        by (rule drop_streams_ok[OF d, of s t]) (use o y f(3) in \<open>auto simp: objs_def sc_ok_def\<close>)
      have "yields (bnd (rust_do (iroh_free KConnection (Some n)) (?f\<lparr>e_rust := r3\<rparr>)) (free_stream_ctx a)) (left i)"
        using c3 o[of n] y f(3) by (intro drop_conn_end[OF d3]) (simp_all add: objs_def sc_ok_def)
      with True run r3 show ?thesis by simp
    qed
  qed
qed

subsection \<open>Echoing\<close>

text \<open>The two callbacks of an accepted stream start from the same facts.\<close>

lemma called_stream:
  assumes "called i h cb e" and "cb = On_data_read a \<or> cb = On_data_written a"
  obtains n s t where "EIn i h e" and "handle_live (e_rust e) h" and "unref i a e"
    and "e_ctxs e a = Some \<lparr>sc_conn = Some n, sc_send = Some s, sc_recv = Some t\<rparr>"
  using assms by (auto simp: called_def)

text \<open>What the release of the streams of such a context does.\<close>

lemma drop_stream_ctx:
  assumes e: "EIn i h e" and u: "unref i a e" and x: "e_ctxs e a = Some \<lparr>sc_conn = Some n, sc_send = Some s, sc_recv = Some t\<rparr>"
  obtains r where "\<forall>f :: echo \<Rightarrow> fault + echo. bnd (rust_do (iroh_free KSendStream (Some s)) e) (\<lambda>e. bnd (rust_do (iroh_free KRecvStream (Some t)) e) f) = f (e\<lparr>e_rust := r\<rparr>)"
    and "dropping i h a (e\<lparr>e_rust := r\<rparr>)" and "r_res r n = Some KConnection" and "only_of a n e"
proof -
  have k: "sc_ok (e_rust e) \<lparr>sc_conn = Some n, sc_send = Some s, sc_recv = Some t\<rparr>" by (rule ctx_live(2)[OF e x])
  note o = objs_only_of[OF e x]
  obtain r where r: "bnd (rust_do (iroh_free KSendStream (Some s)) e) (\<lambda>e. bnd (rust_do (iroh_free KRecvStream (Some t)) e) Inr) = Inr (e\<lparr>e_rust := r\<rparr>)"
    and d: "dropping i h a (e\<lparr>e_rust := r\<rparr>)" and c: "\<forall>m. r_res (e_rust e) m = Some KConnection \<longrightarrow> r_res r m = Some KConnection"
    by (rule drop_streams_ok[OF EIn_dropping[OF e u x], of "Some s" "Some t" Inr]) (use k o in \<open>auto simp: objs_def sc_ok_def\<close>)
  have "bnd (rust_do (iroh_free KSendStream (Some s)) e) (\<lambda>e. bnd (rust_do (iroh_free KRecvStream (Some t)) e) f) = f (e\<lparr>e_rust := r\<rparr>)" for f :: "echo \<Rightarrow> fault + echo"
    using r by (auto simp: bnd_eq_Inr)
  then show ?thesis using d c k o[of n] by (intro that[of r]) (simp_all add: sc_ok_def objs_def)
qed

lemma drop_streams_left:
  assumes "EIn i h e" and "unref i a e" and "e_ctxs e a = Some \<lparr>sc_conn = Some n, sc_send = Some s, sc_recv = Some t\<rparr>"
  shows "yields (drop_streams a \<lparr>sc_conn = Some n, sc_send = Some s, sc_recv = Some t\<rparr> e) (left i)"
  by (rule drop_stream_ctx[OF assms]) (simp add: drop_streams_def dropping_end)

lemma on_data_read_ok:
  assumes env: "env_ok env" and c: "called i h (On_data_read a) e"
  shows "yields (on_data_read env h a e) (left i)"
proof -
  obtain n s t where e: "EIn i h e" and hl: "handle_live (e_rust e) h" and u: "unref i a e"
    and x: "e_ctxs e a = Some \<lparr>sc_conn = Some n, sc_send = Some s, sc_recv = Some t\<rparr>"
    by (rule called_stream[OF c]) auto
  let ?x = "\<lparr>sc_conn = Some n, sc_send = Some s, sc_recv = Some t\<rparr>"
  obtain st where st: "iroh_async_poll (e_rust e) (Some h) = Inr st" using poll_live[OF hl] by blast
  have ux: "unref i a (e\<lparr>e_rust := r\<rparr>)" "e_ctxs (e\<lparr>e_rust := r\<rparr>) a = Some ?x" for r using u x by (simp_all add: unref_def)
  show ?thesis
  proof (cases "st = Ready")
    case False
    obtain r where f: "rust_do (\<lambda>r. iroh_async_free r (Some h)) e = Inr (e\<lparr>e_rust := r\<rparr>)" "EIn i h (e\<lparr>e_rust := r\<rparr>)"
      by (rule free_handle[OF e hl])
    with False st x drop_streams_left[OF f(2) ux] show ?thesis
      by (simp add: on_data_read_def print_error_live[OF hl] get_stream_ctx_def)
  next
    case True
    obtain d r where g: "iroh_recv_stream_read_result (e_rust e) (Some h) = Inr (d, r)" "keepl h (e_rust e) r" and d: "0 < rr_len d \<longrightarrow> rr_data d \<noteq> None"
      by (rule read_got[OF EIn_RInv[OF e] hl])
    have hl1: "handle_live (e_rust (e\<lparr>e_rust := r\<rparr>)) h" using g(2) hl by (simp add: keepl_def)
    obtain r' where f: "rust_do (\<lambda>r. iroh_async_free r (Some h)) (e\<lparr>e_rust := r\<rparr>) = Inr (e\<lparr>e_rust := r'\<rparr>)" "EIn i h (e\<lparr>e_rust := r'\<rparr>)"
      by (rule free_handle[OF EIn_keepl[OF e g(2)] hl1]) simp
    have "r_res r' s = Some KSendStream" using ctx_live(2)[OF f(2) ux(2)] by (simp add: sc_ok_def)
    then have fin: "rust_do (\<lambda>r. iroh_send_stream_finish r (Some s)) (e\<lparr>e_rust := r'\<rparr>) = Inr (e\<lparr>e_rust := r'\<rparr>)"
      by (simp add: rust_do_def iroh_send_stream_finish_def deref_res_def)
    note run = st True x f g(1)
    consider "rr_finished d" | "\<not> rr_finished d" "rr_len d = 0" | b where "\<not> rr_finished d" "rr_len d \<noteq> 0" "rr_data d = Some b"
      using d by auto
    then show ?thesis
    proof cases
      case 1
      then show ?thesis using run drop_streams_left[OF f(2) ux] fin by (simp add: on_data_read_def get_stream_ctx_def rust_get_def)
    next
      case 2
      then show ?thesis using run yields_mono[OF read_next_ok[OF env f(2) ux] EIn_left]
        by (simp add: on_data_read_def get_stream_ctx_def rust_get_def)
    next
      case 3
      then show ?thesis using run yields_mono[OF write_ok[OF env f(2) ux] EIn_left]
        by (simp add: on_data_read_def get_stream_ctx_def rust_get_def)
    qed
  qed
qed

lemma on_data_written_ok:
  assumes env: "env_ok env" and c: "called i h (On_data_written a) e"
  shows "yields (on_data_written env h a e) (left i)"
proof -
  obtain n s t where e: "EIn i h e" and hl: "handle_live (e_rust e) h" and u: "unref i a e"
    and x: "e_ctxs e a = Some \<lparr>sc_conn = Some n, sc_send = Some s, sc_recv = Some t\<rparr>"
    by (rule called_stream[OF c]) auto
  let ?x = "\<lparr>sc_conn = Some n, sc_send = Some s, sc_recv = Some t\<rparr>"
  obtain st where st: "iroh_async_poll (e_rust e) (Some h) = Inr st" using poll_live[OF hl] by blast
  have ux: "unref i a (e\<lparr>e_rust := r\<rparr>)" "e_ctxs (e\<lparr>e_rust := r\<rparr>) a = Some ?x" for r using u x by (simp_all add: unref_def)
  show ?thesis
  proof (cases "st = Ready")
    case False
    obtain r where f: "rust_do (\<lambda>r. iroh_async_free r (Some h)) e = Inr (e\<lparr>e_rust := r\<rparr>)" "EIn i h (e\<lparr>e_rust := r\<rparr>)"
      by (rule free_handle[OF e hl])
    have "yields (bnd (rust_do (iroh_free KSendStream (Some s)) (e\<lparr>e_rust := r\<rparr>)) (\<lambda>e. bnd (rust_do (iroh_free KRecvStream (Some t)) e) (\<lambda>e.
        bnd (rust_do (iroh_free KConnection (Some n)) e) (free_stream_ctx a)))) (left i)"
      by (rule drop_stream_ctx[OF f(2) ux]) (simp add: drop_conn_end)
    with False st x f(1) show ?thesis by (simp add: on_data_written_def get_stream_ctx_def iroh_connection_close_def)
  next
    case True
    obtain w r where g: "iroh_send_stream_write_result (e_rust e) (Some h) = Inr (w, r)" "keepl h (e_rust e) r"
      by (rule write_got[OF EIn_RInv[OF e] hl])
    have hl1: "handle_live (e_rust (e\<lparr>e_rust := r\<rparr>)) h" using g(2) hl by (simp add: keepl_def)
    obtain r' where f: "rust_do (\<lambda>r. iroh_async_free r (Some h)) (e\<lparr>e_rust := r\<rparr>) = Inr (e\<lparr>e_rust := r'\<rparr>)" "EIn i h (e\<lparr>e_rust := r'\<rparr>)"
      by (rule free_handle[OF EIn_keepl[OF e g(2)] hl1]) simp
    with st True x g(1) yields_mono[OF read_next_ok[OF env f(2) ux] EIn_left] show ?thesis
      by (simp add: on_data_written_def get_stream_ctx_def rust_get_def)
  qed
qed

lemma run_callback_ok:
  assumes "env_ok env" and "called i h cb e"
  shows "yields (run_callback env cb h e) (left i)"
  using assms
  by (cases cb) (simp_all add: on_endpoint_created_ok on_endpoint_online_ok on_connection_accepted_ok on_stream_accepted_ok
      on_data_read_ok on_data_written_ok)

end
