(* ===== verification/EchoCorrect.thy ===== *)
theory EchoCorrect
  imports EchoHandlers
begin

text \<open>
  Runs of the echo server: \<open>main\<close>, tasks that finish, events that fire, in any order. No run commits
  a memory error, and what has been read from a stream is written back to it.
\<close>

section \<open>Runs of the server\<close>

definition process_start :: "rust \<Rightarrow> bool" where
  "process_start r \<longleftrightarrow> r_handles r = (\<lambda>_. None) \<and> r_res r = (\<lambda>_. None) \<and> r_tmp r = (\<lambda>_. None)"

text \<open>
  The states while the event loop runs: \<open>main\<close> starts it, tasks finish at any moment, and an
  event that is in the base may fire until the loop is told to stop.
\<close>

inductive echo_runs :: "'e env_scheme \<Rightarrow> echo \<Rightarrow> bool" for env where
  start: "process_start r \<Longrightarrow> main_start env b r = Some (Inr e) \<Longrightarrow> echo_runs env e"
| finish: "echo_runs env e \<Longrightarrow> r_handles (e_rust e) h = Some ah \<Longrightarrow> h_running ah \<Longrightarrow>
    task_complete (e_rust e) h out = Inr r \<Longrightarrow> echo_runs env (e\<lparr>e_rust := r\<rparr>)"
| fire: "echo_runs env e \<Longrightarrow> \<not> e_break e \<Longrightarrow> e_evs e i \<noteq> None \<Longrightarrow> iroh_event_callback env i e = Inr e' \<Longrightarrow> echo_runs env e'"

text \<open>The loop ends when it is told to or when it has no event left; \<open>main\<close> then releases the endpoint.\<close>

definition echo_ends :: "'e env_scheme \<Rightarrow> echo \<Rightarrow> bool" where
  "echo_ends env e \<longleftrightarrow> echo_runs env e \<and> (e_break e \<or> e_evs e = (\<lambda>_. None))"

text \<open>A memory error at the start, in a task, in a callback, at the end, or in a task that still runs after the end.\<close>

inductive echo_fault :: "'e env_scheme \<Rightarrow> fault \<Rightarrow> bool" for env where
  start: "process_start r \<Longrightarrow> main_start env b r = Some (Inl f) \<Longrightarrow> echo_fault env f"
| finish: "echo_runs env e \<Longrightarrow> r_handles (e_rust e) h = Some ah \<Longrightarrow> h_running ah \<Longrightarrow>
    task_complete (e_rust e) h out = Inl f \<Longrightarrow> echo_fault env f"
| fire: "echo_runs env e \<Longrightarrow> \<not> e_break e \<Longrightarrow> e_evs e i \<noteq> None \<Longrightarrow> iroh_event_callback env i e = Inl f \<Longrightarrow> echo_fault env f"
| stop: "echo_ends env e \<Longrightarrow> main_end e = Inl f \<Longrightarrow> echo_fault env f"
| late: "echo_ends env e \<Longrightarrow> main_end e = Inr e' \<Longrightarrow> r_handles (e_rust e') h = Some ah \<Longrightarrow> h_running ah \<Longrightarrow>
    task_complete (e_rust e') h out = Inl f \<Longrightarrow> echo_fault env f"

section \<open>The invariant holds in every state\<close>

lemma EInv_called:
  assumes e: "EInv e" and i: "e_evs e i = Some c" and dn: "iroh_async_poll (e_rust e) (Some (ec_handle c)) = Inr st" "st \<noteq> Pending"
  shows "called i (ec_handle c) (ec_callback c) e"
proof -
  have m: "mem_ok e" and ev: "ev_ok e c" "i < e_next e" and dis: "evs_distinct (e_evs e)" and sv: "served (e_evs e) (e_rust e)"
    using e i by (auto simp: EInv_def evs_ok_def)
  obtain ah where ah: "r_handles (e_rust e) (ec_handle c) = Some ah" "h_cref ah" "cb_ok e (ec_callback c) (h_req ah)"
    using ev(1) by (auto simp: ev_ok_def)
  have "h_state ah = st" using ah(1) dn(1) by (auto simp: iroh_async_poll_def get_handle_def split: if_splits)
  then have nr: "\<not> h_running ah" using m ah(1) dn(2) by (auto simp: mem_ok_def rust_ok_def)
  have other: "ec_handle d \<noteq> ec_handle c" if "j \<noteq> i" "e_evs e j = Some d" for j d
    using dis i that unfolding evs_distinct_def by metis
  have un: "unref i a e" if "ctx_of (ec_callback c) = Some a" for a
    using dis i that unfolding evs_distinct_def unref_def by metis
  have "evs_distinct ((e_evs e)(i := None))" using dis unfolding evs_distinct_def by (auto split: if_splits)
  moreover have "served ((e_evs e)(i := None)) (e_rust e)"
    unfolding served_def
  proof (intro allI impI, elim conjE)
    fix g ag
    assume g: "r_handles (e_rust e) g = Some ag" "h_running ag"
    then obtain j d where d: "e_evs e j = Some d" "ec_handle d = g" using sv unfolding served_def by blast
    then have "j \<noteq> i" using i g nr ah(1) by auto
    with d show "\<exists>j d. ((e_evs e)(i := None)) j = Some d \<and> ec_handle d = g" by (intro exI[of _ j] exI[of _ d]) simp
  qed
  moreover have "ev_ok e d \<and> j < e_next e" if "((e_evs e)(i := None)) j = Some d" for j d
    using e that unfolding EInv_def evs_ok_def by (metis fun_upd_apply option.distinct(1))
  ultimately have "evs_ok ((e_evs e)(i := None)) e" unfolding evs_ok_def by blast
  moreover have "\<not> early (ec_callback d)" if "j \<noteq> i" "e_evs e j = Some d" for j d using e i that unfolding EInv_def by blast
  moreover have "\<not> e_break e" using e i by (auto simp: EInv_def)
  ultimately have "EIn i (ec_handle c) e" using m ev(2) ah(1) nr other unfolding EIn_def by blast
  moreover have "handle_live (e_rust e) (ec_handle c)" using ah by (simp add: handle_live_def)
  moreover have "e_evs e j = None" if "early (ec_callback c)" "j \<noteq> i" for j using e i that unfolding EInv_def by blast
  ultimately show ?thesis using ah(3) un unfolding called_def by blast
qed

lemma EInv_parts: "EInv e \<Longrightarrow> mem_ok e" "EInv e \<Longrightarrow> evs_ok (e_evs e) e" "EInv e \<Longrightarrow> RInv (e_rust e)"
  by (simp_all add: EInv_def mem_ok_def rust_ok_def)

lemma main_start_ok:
  assumes env: "env_ok env" and r: "process_start r" and m: "main_start env b r = Some m"
  shows "yields m EInv"
proof -
  obtain r1 where r1: "iroh_init env r = (ErrOk, r1)" "process_start r1"
    using m r by (auto simp: main_start_def iroh_init_def process_start_def split: if_splits option.splits)
  let ?e = "\<lparr>e_rust = r1, e_app = \<lparr>app_endpoint = None, app_running = True\<rparr>, e_ctxs = Map.empty, e_evs = Map.empty, e_next = 0, e_break = False\<rparr>"
  let ?rq = "RqEndpointCreate (iroh_endpoint_config_add_alpn iroh_endpoint_config_default ALPN_ECHO)"
  have R: "rust_ok r1" using r1(2) by (simp add: process_start_def rust_ok_def RInv_def rfresh_def tasks_ok_def)
  then have ok: "mem_ok ?e" by (simp add: mem_ok_def)
  have nohandle: "r_handles r1 = (\<lambda>_. None)" using r1(2) by (simp add: process_start_def)
  have m': "m = IROH_EVENT_ADD env (\<lambda>r. Inr (spawn env r ?rq)) On_endpoint_created ?e"
    using m r1(1) by (auto simp: main_start_def iroh_endpoint_create_def ffi_start_spawn split: if_splits)
  obtain x r2 where s: "spawn env r1 ?rq = (x, r2)" by force
  from env s show ?thesis
  proof (cases rule: spawn_outcome)
    case 1
    then obtain msg where r2: "r2 = set_last_error msg r1" by blast
    have "rust_ok r2" using R unfolding r2 by (simp add: rust_ok_def RInv_def rfresh_def tasks_ok_def)
    then have "EInv (?e\<lparr>e_rust := r2\<rparr>)"
      using nohandle by (simp add: EInv_def mem_ok_def evs_ok_def evs_distinct_def served_def r2)
    with m' s 1(1) show ?thesis by (simp add: IROH_EVENT_ADD_def)
  next
    case (2 fd)
    let ?c = "\<lparr>ec_handle = r_next r1, ec_callback = On_endpoint_created\<rparr>"
    let ?f = "?e\<lparr>e_rust := r2, e_next := Suc 0, e_evs := [0 \<mapsto> ?c]\<rparr>"
    have h: "r_handles r2 = [r_next r1 \<mapsto> handle_new fd ?rq]" using 2(3) nohandle by (simp add: put_handle_def)
    have "m = Inr ?f" using m' s 2 h event_added[OF env, of "?e\<lparr>e_rust := r2\<rparr>" "r_next r1" fd ?rq] by (simp add: IROH_EVENT_ADD_def)
    moreover have "mem_ok (?e\<lparr>e_rust := r2\<rparr>)" using spawn_mem_ok[OF ok, of ?rq fd] 2(3) by simp
    then have "mem_ok ?f" by (rule mem_ok_cong[rotated 4]) simp_all
    moreover have "evs_distinct [0 \<mapsto> ?c]" by (simp add: evs_distinct_def)
    moreover have "served [0 \<mapsto> ?c] r2" unfolding served_def h by (auto split: if_splits)
    moreover have "ev_ok ?f ?c" by (simp add: ev_ok_def h handle_new_def)
    ultimately show ?thesis by (auto simp: EInv_def evs_ok_def split: if_splits)
  qed
qed

text \<open>A task that ends: it may, and the invariant stays.\<close>

lemma finish_ok:
  assumes e: "EInv e" and h: "r_handles (e_rust e) h = Some ah" "h_running ah"
  shows "yields (task_complete (e_rust e) h out) (\<lambda>r. EInv (e\<lparr>e_rust := r\<rparr>))"
proof -
  obtain ah' where ah': "(case out of Inl msg \<Rightarrow> complete_with_error msg ah | Inr v \<Rightarrow> complete_with_result v ah) = ah'"
    and same: "h_req ah' = h_req ah" "h_cref ah' = h_cref ah" "\<not> h_running ah'" "h_state ah' \<noteq> Pending"
    by (cases out) (auto simp: complete_with_error_def complete_with_result_def)
  let ?r = "put_handle h ah' (e_rust e)" and ?e = "e\<lparr>e_rust := put_handle h ah' (e_rust e)\<rparr>"
  note m = EInv_parts(1)[OF e] and R = EInv_parts(3)[OF e]
  have "list_all (\<lambda>x. r_res (e_rust e) x \<noteq> None) (task_borrows (h_req ah))"
    using R h by (fastforce simp: RInv_def tasks_ok_def list_all_iff)
  then have run: "task_complete (e_rust e) h out = Inr ?r" using h(1) ah' by (simp add: task_complete_def)
  have "RInv ?r" using R h same by (auto simp: RInv_def rfresh_def tasks_ok_def attended_def put_handle_def)
  then have "rust_ok ?r" using m same by (auto simp: rust_ok_def mem_ok_def put_handle_def)
  then have m': "mem_ok ?e" using m by (auto simp: mem_ok_def sc_ok_def put_handle_def)
  have ev: "ev_ok ?e c" if "ev_ok e c" for c
    using that h(1) same cb_ok_cong[of ?e e] by (auto simp: ev_ok_def put_handle_def)
  have "served (e_evs e) ?r" using EInv_parts(2)[OF e] same unfolding evs_ok_def served_def by (auto simp: put_handle_def split: if_splits)
  then have "evs_ok (e_evs e) ?e" using EInv_parts(2)[OF e] ev by (auto simp: evs_ok_def)
  with m' e have "EInv ?e" by (simp add: EInv_def)
  with run show ?thesis by simp
qed

lemma event_callback_ok:
  assumes env: "env_ok env" and e: "EInv e" and i: "e_evs e i = Some c"
  shows "yields (iroh_event_callback env i e) EInv"
proof -
  have "ev_ok e c" using EInv_parts(2)[OF e] i by (simp add: evs_ok_def)
  then have "handle_live (e_rust e) (ec_handle c)" by (auto simp: ev_ok_def handle_live_def)
  then obtain st where st: "iroh_async_poll (e_rust e) (Some (ec_handle c)) = Inr st" using poll_live by blast
  show ?thesis
  proof (cases "st = Pending")
    case True
    with st i e show ?thesis by (simp add: iroh_event_callback_def)
  next
    case False
    from run_callback_ok[OF env EInv_called[OF e i st False]]
    obtain e' where "run_callback env (ec_callback c) (ec_handle c) e = Inr e'" "left i e'" by (auto simp: yields_def)
    with False st i show ?thesis by (simp add: iroh_event_callback_def left_def)
  qed
qed

lemma echo_runs_EInv:
  assumes "env_ok env" and "echo_runs env e"
  shows "EInv e"
  using assms(2)
proof induction
  case (start r b e)
  then show ?case using main_start_ok[OF assms(1), of r b "Inr e"] by simp
next
  case (finish e h ah out r)
  then show ?case using finish_ok[of e h ah out] by simp
next
  case (fire e i e')
  then show ?case using event_callback_ok[OF assms(1), of e i] by auto
qed

lemma echo_ends_idle:
  assumes "env_ok env" and "echo_ends env e"
  shows "EInv e" and "r_handles (e_rust e) h = Some ah \<Longrightarrow> \<not> h_running ah"
proof -
  show e: "EInv e" using assms echo_runs_EInv by (auto simp: echo_ends_def)
  then have "e_evs e = (\<lambda>_. None)" using assms(2) by (auto simp: echo_ends_def EInv_def)
  with EInv_parts(2)[OF e] show "r_handles (e_rust e) h = Some ah \<Longrightarrow> \<not> h_running ah"
    by (auto simp: evs_ok_def served_def)
qed

lemma main_end_ok:
  assumes "EInv e"
  shows "yields (main_end e) (\<lambda>e'. r_handles (e_rust e') = r_handles (e_rust e))"
  using EInv_parts(1)[OF assms]
  by (cases "app_endpoint (e_app e)") (auto simp: main_end_def rust_do_def iroh_free_def box_from_raw_def mem_ok_def)

section \<open>Properties\<close>




text \<open>
  C40: The server echoes. When a read of a stream has ended and its event fires: at the end of the
  stream both halves and the stream's context are released, and nothing is started; otherwise
  exactly one operation is started, with an event of its own: a write of the very bytes that were read
  to the sending half of the same stream, or, when nothing was read, another read.
\<close>

theorem echo_round:
  assumes env: "env_event_new env (e_next e)" "env_pipe env (r_next (e_rust e)) = Some fd" "0 \<le> fd"
    and i: "e_evs e i = Some \<lparr>ec_handle = h, ec_callback = On_data_read a\<rparr>" "i \<noteq> e_next e" and run: "r_runtime (e_rust e)"
    and h: "r_handles (e_rust e) h = Some ah" "h_cref ah" "h_state ah = Ready" "h_result ah = Some (ARead d fin)"
    and x: "e_ctxs e a = Some \<lparr>sc_conn = Some n, sc_send = Some s, sc_recv = Some t\<rparr>"
    and st: "r_res (e_rust e) s = Some KSendStream" "r_res (e_rust e) t = Some KRecvStream"
  shows "\<exists>e'. iroh_event_callback env i e = Inr e' \<and>
     (if fin then e_evs e' = (e_evs e)(i := None) \<and> e_ctxs e' = (e_ctxs e)(a := None)
        \<and> r_res (e_rust e') = (r_res (e_rust e))(s := None, t := None)
      else e_ctxs e' = e_ctxs e \<and> r_res (e_rust e') = r_res (e_rust e)
        \<and> e_evs e' = (e_evs e)(e_next e \<mapsto> \<lparr>ec_handle = r_next (e_rust e), ec_callback = if d = [] then On_data_read a else On_data_written a\<rparr>, i := None)
        \<and> r_handles (e_rust e') (r_next (e_rust e)) = Some (handle_new fd (if d = [] then RqRead t 65536 else RqWrite s d)))"
proof -
  let ?r = "put_handle h (ah\<lparr>h_result := None, h_cref := False\<rparr>) (e_rust e)"
  have free: "bnd (rust_get (\<lambda>r. iroh_recv_stream_read_result r (Some h)) e) (\<lambda>(x, e). bnd (rust_do (\<lambda>r. iroh_async_free r (Some h)) e) (f x)) =
      f \<lparr>rr_data = (if length d > 0 then Some d else None), rr_len = length d, rr_finished = fin\<rparr> (e\<lparr>e_rust := ?r\<rparr>)" for f :: "IrohReadResult \<Rightarrow> echo \<Rightarrow> fault + echo"
    using h by (simp add: rust_get_def rust_do_def iroh_recv_stream_read_result_def take_result_def get_handle_def iroh_async_free_def put_handle_def)
  have poll: "iroh_async_poll (e_rust e) (Some h) = Inr Ready" using h by (simp add: iroh_async_poll_def get_handle_def)
  have "s \<noteq> t" using st by auto
  let ?x = "\<lparr>sc_conn = Some n, sc_send = Some s, sc_recv = Some t\<rparr>" and ?e = "e\<lparr>e_rust := ?r\<rparr>"
  have cb: "iroh_event_callback env i e = bnd (on_data_read env h a e) (\<lambda>e. Inr (e\<lparr>e_evs := (e_evs e)(i := None)\<rparr>))"
    using i(1) poll by (simp add: iroh_event_callback_def)
  have rd: "on_data_read env h a e =
      (if fin then bnd (rust_do (\<lambda>r. iroh_send_stream_finish r (Some s)) ?e) (drop_streams a ?x)
       else if d = [] then IROH_EVENT_ADD env (\<lambda>r. iroh_recv_stream_read env r (Some t) 65536) (On_data_read a) ?e
       else IROH_EVENT_ADD env (\<lambda>r. iroh_send_stream_write env r (Some s) d) (On_data_written a) ?e)"
    using poll x by (simp add: on_data_read_def get_stream_ctx_def free)
  have start: "IROH_EVENT_ADD env call c ?e = Inr (?e\<lparr>e_rust := (put_handle (r_next (e_rust e)) (handle_new fd rq) ?r)\<lparr>r_next := Suc (r_next (e_rust e))\<rparr>,
      e_next := Suc (e_next e), e_evs := (e_evs e)(e_next e \<mapsto> \<lparr>ec_handle = r_next (e_rust e), ec_callback = c\<rparr>)\<rparr>)"
    if "call ?r = Inr (spawn env ?r rq)" for call c rq
    using that env run by (simp add: IROH_EVENT_ADD_def spawn_def iroh_event_add_def iroh_async_get_fd_def get_handle_def handle_new_def Let_def put_handle_def)
  show ?thesis
  proof (cases fin)
    case True
    with \<open>s \<noteq> t\<close> x st show ?thesis
      by (simp add: cb rd drop_streams_def rust_do_def iroh_send_stream_finish_def deref_res_def iroh_free_def box_from_raw_def
          free_stream_ctx_def put_handle_def)
  next
    case False
    then show ?thesis
      using start[of "\<lambda>r. iroh_recv_stream_read env r (Some t) 65536" "RqRead t 65536"]
        start[of "\<lambda>r. iroh_send_stream_write env r (Some s) d" "RqWrite s d"]
      by (simp add: cb rd iroh_recv_stream_read_def iroh_send_stream_write_def ffi_start_spawn put_handle_def)
  qed
qed

text \<open>A stream with two bytes read and not yet echoed.\<close>

definition two_bytes :: echo where
  "two_bytes = \<lparr>e_rust = \<lparr>r_handles = [5 \<mapsto> (handle_new 3 (RqRead 3 65536))\<lparr>h_state := Ready, h_running := False, h_result := Some (ARead [104, 105] False)\<rparr>],
       r_res = [1 \<mapsto> KConnection, 2 \<mapsto> KSendStream, 3 \<mapsto> KRecvStream], r_tmp = Map.empty, r_next = 6, r_runtime = True, r_last_error = None\<rparr>,
     e_app = \<lparr>app_endpoint = None, app_running = True\<rparr>, e_ctxs = [0 \<mapsto> \<lparr>sc_conn = Some 1, sc_send = Some 2, sc_recv = Some 3\<rparr>],
     e_evs = [1 \<mapsto> \<lparr>ec_handle = 5, ec_callback = On_data_read 0\<rparr>], e_next = 2, e_break = False\<rparr>"

theorem echo_round_witness:
  "\<exists>e'. iroh_event_callback sample_env 1 two_bytes = Inr e' \<and> r_handles (e_rust e') 6 = Some (handle_new 6 (RqWrite 2 [104, 105]))"
proof -
  let ?ah = "(handle_new 3 (RqRead 3 65536))\<lparr>h_state := Ready, h_running := False, h_result := Some (ARead [104, 105] False)\<rparr>"
  show ?thesis
    using echo_round[where env = sample_env and e = two_bytes and i = 1 and h = 5 and a = 0 and d = "[104, 105]" and fin = False
        and fd = 6 and ah = ?ah and n = 1 and s = 2 and t = 3]
    by (auto simp: two_bytes_def handle_new_def)
qed

text \<open>
  The assumption on \<open>event_new\<close> matters, because \<open>IROH_EVENT_ADD\<close> drops the error of
  \<open>iroh_event_add\<close>: when the event of \<open>iroh_endpoint_wait_online\<close> cannot be added, the loop ends at
  once and \<open>main\<close> releases the endpoint under the running task.
\<close>

lemma event_add_error_dropped: "echo_fault (sample_env\<lparr>env_event_new := \<lambda>p. p = 0\<rparr>) UseAfterFree"
proof -
  let ?env = "sample_env\<lparr>env_event_new := \<lambda>p. p = 0\<rparr>"
  let ?r = "\<lparr>r_handles = \<lambda>_. None, r_res = \<lambda>_. None, r_tmp = \<lambda>_. None, r_next = 0, r_runtime = False, r_last_error = None\<rparr>"
  let ?rq = "RqEndpointCreate (iroh_endpoint_config_add_alpn iroh_endpoint_config_default ALPN_ECHO)"
  let ?r1 = "\<lparr>r_handles = [0 \<mapsto> handle_new 0 ?rq], r_res = \<lambda>_. None, r_tmp = \<lambda>_. None, r_next = 1, r_runtime = True, r_last_error = None\<rparr>"
  let ?e1 = "\<lparr>e_rust = ?r1, e_app = \<lparr>app_endpoint = None, app_running = True\<rparr>, e_ctxs = Map.empty,
     e_evs = [0 \<mapsto> \<lparr>ec_handle = 0, ec_callback = On_endpoint_created\<rparr>], e_next = 1, e_break = False\<rparr>"
  have "main_start ?env True ?r = Some (Inr ?e1)"
    by (simp add: main_start_def iroh_init_def IROH_EVENT_ADD_def iroh_endpoint_create_def ffi_start_spawn spawn_def
        iroh_event_add_def iroh_async_get_fd_def get_handle_def handle_new_def put_handle_def Let_def)
  then have 1: "echo_runs ?env ?e1" by (rule echo_runs.start[rotated]) (simp add: process_start_def)
  let ?r2 = "put_handle 0 (complete_with_result AEndpoint (handle_new 0 ?rq)) ?r1"
  have "task_complete ?r1 0 (Inr AEndpoint) = Inr ?r2" by (simp add: task_complete_def handle_new_def)
  then have 2: "echo_runs ?env (?e1\<lparr>e_rust := ?r2\<rparr>)" using echo_runs.finish[OF 1, of 0 "handle_new 0 ?rq" "Inr AEndpoint" ?r2]
    by (simp add: handle_new_def)
  obtain e where e: "iroh_event_callback ?env 0 (?e1\<lparr>e_rust := ?r2\<rparr>) = Inr e"
    and e': "e_evs e = (\<lambda>_. None)" "app_endpoint (e_app e) = Some 1" "r_res (e_rust e) 1 = Some KEndpoint"
      "r_handles (e_rust e) 2 = Some (handle_new 2 (RqWaitOnline 1))"
    by (simp add: iroh_event_callback_def on_endpoint_created_def rust_get_def rust_do_def iroh_async_poll_def get_handle_def
        complete_with_result_def handle_new_def put_handle_def iroh_endpoint_create_result_def take_boxed_def take_result_def
        box_into_raw_def iroh_async_free_def IROH_EVENT_ADD_def iroh_endpoint_wait_online_def ffi_start_spawn spawn_def
        iroh_event_add_def iroh_async_get_fd_def Let_def)
  have "echo_runs ?env e" using echo_runs.fire[OF 2 _ _ e] by simp
  with e'(1) have 3: "echo_ends ?env e" by (simp add: echo_ends_def)
  have "main_end e = Inr (e\<lparr>e_rust := (e_rust e)\<lparr>r_res := (r_res (e_rust e))(1 := None)\<rparr>\<rparr>)"
    using e' by (simp add: main_end_def rust_do_def iroh_free_def box_from_raw_def)
  from echo_fault.late[OF 3 this, of 2 "handle_new 2 (RqWaitOnline 1)" "Inr AUnit"] e'(4) show ?thesis
    by (simp add: task_complete_def handle_new_def)
qed

text \<open>
  While the operation is pending its event does not call the callback, whatever made it fire: a
  timeout given to \<open>iroh_event_add_timeout\<close> is not reported.
\<close>

lemma pending_event_silent:
  assumes "e_evs e i = Some c" and "iroh_async_poll (e_rust e) (Some (ec_handle c)) = Inr Pending"
  shows "iroh_event_callback env i e = Inr e"
  using assms by (simp add: iroh_event_callback_def)

end
