(* ===== verification/Spec2Isabelle.thy ===== *)
theory Spec2Isabelle
  imports System EmitterCorrect BridgeCorrect ValueCorrect StreamCorrect Defects ApiCorrect Progress Arrivals EchoCorrect
begin

text \<open>
  A verification development for rampart-iroh, the module that gives programs of the Rampart
  JavaScript environment iroh's peer-to-peer networking: QUIC endpoints, connections and streams,
  gossip topics, blobs and documents.

  \<^bold>\<open>The program.\<close> \<open>module/rampart-iroh.c\<close> is the module. Every JavaScript-visible object has a C
  struct (\<open>RPIROH\<close>, a context) that owns the Rust objects behind it and lists its operations in
  flight; every operation in flight has a struct (\<open>RPIROH_ASYNC\<close>) with the handle of a Rust task
  and a one-shot libevent event on the handle's pipe. \<open>src/lib.rs\<close> is the Rust side: a C
  interface over iroh whose asynchronous functions spawn a task and return a handle. A task
  writes to the pipe when it ends, libevent runs \<open>iroh_async_cb\<close>, and a handler per operation takes
  the result, releases the operation, and calls JavaScript: listeners of an event emitter or the
  one-shot callback given with the call. Five loops (accept, stream accept, read, datagram,
  gossip receive) start their operation again from their own handler.

  \<^bold>\<open>Theories of the model.\<close> Each definition has the name of the C or Rust function it models.
    \<^item> \<open>Prelude\<close>: faults, the fault monad \<open>bnd\<close>, the judgement \<open>safe\<close>, flag words, lists.
    \<^item> \<open>IrohAsync\<close>, \<open>IrohFfi\<close> (\<open>src/lib.rs\<close>): handles with their states, the tasks and what
      they borrow, objects handed to C and taken back, the start functions, the result getters,
      the configuration, the parsers and printers of ids and addresses.
    \<^item> \<open>World\<close>: the two structs, JavaScript objects and functions, the global stash, the counters.
    \<^item> \<open>Emitter\<close>: \<open>iroh_ev_on\<close>, \<open>iroh_do_callback\<close>, \<open>off\<close>, \<open>trigger\<close>, one-shot callbacks.
    \<^item> \<open>AsyncBridge\<close>: the pending table (a growable array with 16-bit counts),
      \<open>iroh_start_async\<close>, \<open>iroh_free_async_op\<close>, \<open>iroh_cleanup\<close>.
    \<^item> \<open>Loops\<close>, \<open>CoreHandlers\<close>, \<open>CoreApi\<close>: new objects, the loops, \<open>on\<close> and \<open>once\<close>; the handlers
      and methods of endpoints, connections and streams.
    \<^item> \<open>Gossip\<close>, \<open>Blobs\<close>, \<open>Docs\<close>: the same for the three services.
    \<^item> \<open>Dispatch\<close>, \<open>ModuleInit\<close>: \<open>iroh_dispatch_result\<close>, \<open>iroh_async_cb\<close>, the method tables with their
      declared arities, \<open>duk_open_module\<close>.
    \<^item> \<open>EchoServer\<close> (\<open>examples/echo_server.c\<close> and the libevent helpers of \<open>include/iroh_libevent.h\<close>): a
      second client of the C interface, without JavaScript; its callbacks, events and \<open>main\<close>.

  The state is passed explicitly (\<open>world\<close>, with the Rust side inside it). Addresses are never
  reused, so a use of a dangling pointer is always seen: reading or freeing through one is the
  value \<open>Inl UseAfterFree\<close> or \<open>Inl DoubleFree\<close>, an exception that would reach the event loop is
  \<open>Inl DukFatal\<close>, a write behind the pending array is \<open>Inl PendingOverflow\<close>. A method ends in
  \<open>Ret\<close> or \<open>Throw\<close>. Whether pipes, events and the tokio runtime can be had, what the crates' parsers
  say, in which order an enumerator lists keys, what rampart's helpers return: all this is an
  argument (\<open>env\<close>), and the theorems hold for every such argument unless they name an
  assumption. JavaScript callbacks are a parameter of type \<open>jscode\<close>.

  \<^bold>\<open>Theories of the proofs.\<close>
    \<^item> \<open>Ownership\<close>, \<open>Invariant\<close>: the invariant \<open>RInv\<close> of the Rust side (running tasks borrow live
      objects only) and \<open>Inv\<close> of the whole state, stated on a view that keeps what memory safety
      depends on; how each kind of update acts on it.
    \<^item> \<open>Steps\<close>, \<open>Teardown\<close>: the primitive operations keep \<open>Inv\<close>; \<open>good\<close> and \<open>goodp\<close> are the
      judgements every handler and method is proved to meet.
    \<^item> \<open>Callbacks\<close>: the locale \<open>js_program\<close>, the contract of a JavaScript program (any code that
      keeps the invariant), and what follows for events and callbacks. \<open>CoreSafety\<close>, \<open>ApiSafety\<close>,
      \<open>MethodSafety\<close>, \<open>ServiceSafety\<close>, \<open>ServiceMethods\<close>, \<open>DocsMethods\<close> prove each handler and
      method inside it.
    \<^item> \<open>System\<close>: programs as strategies, the step relation of the whole system, reachable states.
      \<open>js_program\<close> is interpreted on the programs so defined (\<open>scripted\<close>), which ties the knot:
      callbacks call the methods, which call callbacks.
    \<^item> \<open>Progress\<close>: an operation from its start to its release. \<open>frees\<close> (in \<open>Steps\<close>) is the judgement
      that a handler releases its operation, \<open>attended\<close> (in \<open>Ownership\<close>) says that a pending handle has a
      running task, \<open>works_on\<close> ties the task's request to the operation it was started for.
    \<^item> \<open>Delivery\<close>, \<open>Answers\<close>, \<open>Arrivals\<close>: what reaches JavaScript, failures as \<open>error\<close> events, answers
      through one-shot callbacks, gossip events; and how the five loops go on.
    \<^item> \<open>EmitterCorrect\<close>, \<open>BridgeCorrect\<close>, \<open>ValueCorrect\<close>, \<open>StreamCorrect\<close>, \<open>ApiCorrect\<close>: what the parts
      compute, on every branch; \<open>Sample\<close> has the concrete states of the examples.
    \<^item> \<open>EchoSafety\<close>, \<open>EchoHandlers\<close>, \<open>EchoCorrect\<close>: the echo server on the same Rust side; its
      invariant (every running task has an event, a stream context belongs to one event and owns its
      objects alone), one lemma per callback, its runs, and that it echoes.
    \<^item> \<open>Defects\<close>: runs of the code that end in a memory error or break the interface. They are the
      reason the safety theorem excludes the functions it excludes.

  The pending table is specified by the locale \<open>op_table\<close> (a list with append and remove) and
  interpreted on the array (\<open>pt\<close>).

  \<^bold>\<open>Fuel.\<close> The only fuel is that of \<open>script\<close>: the engine's limit on the work of one entry from
  the event loop, nested calls included; when it is used up the engine throws. The theorems hold
  for every value. No definition of the module itself uses fuel: every loop is a structural
  recursion, or (\<open>digits\<close>, the printing of a number) terminates by a measure.

  \<^bold>\<open>Not modelled.\<close> Garbage collection (objects are never collected; the stash entries that
  prevent it are modelled). The Duktape value stack. Allocation failure. Scripts that overwrite
  the hidden \<open>_events\<close> property. JavaScript strings are taken to be valid UTF-8; as C strings they
  end at their first NUL. The Cygwin variant of \<open>iroh_start_async\<close>, which polls with a timer.
  The parts of \<open>src/lib.rs\<close> that neither the module nor the echo server calls. Of \<open>examples/*.c\<close>
  (stand-alone clients of the C interface) only the echo server is modelled, and of
  \<open>include/iroh_libevent.h\<close>, apart from declarations of what \<open>src/lib.rs\<close> defines, only the helpers it
  uses (\<open>iroh_event_add_timeout\<close> and the \<open>IROH_*\<close> convenience macros are not). The vendored libevent
  headers under \<open>include/event2\<close> and \<open>include/sys\<close> hold no code of the program.
  Data races between a task and the C thread, or between two tasks, on one Rust object are not
  modelled: a task acts at one point, when it completes.
\<close>

section \<open>The whole system\<close>

text \<open>A program that creates one endpoint.\<close>

definition maker :: strategy where
  "maker = restrain (\<lambda>f this args rs w.
     if rs = [] then NewObject [] None else if length rs = 1 then Call F_endpoint True 0 [] else Done False)"

lemma maker_disciplined: "disciplined maker"
  unfolding maker_def by (rule disciplined_restrain)

lemma maker_reaches:
  "\<exists>w x h. reachable sample_env maker w \<and> w_evs w 2 \<and> w_ctxs w 1 \<noteq> None \<and> w_ops w 2 = Some x
     \<and> aop_op x = IROH_OP_ENDPOINT_CREATE \<and> aop_handle x = Some h
     \<and> r_handles (w_rust w) h = Some (handle_new 0 (RqEndpointCreate iroh_endpoint_config_default))"
proof -
  obtain m w1 where m: "duk_open_module sample_env boot = (m, w1)" by force
  then have w1: "w1 = boot\<lparr>w_rust := (w_rust boot)\<lparr>r_runtime := True\<rparr>, w_is_init := True\<rparr>"
    by (simp add: duk_open_module_def iroh_init_def boot_def)
  obtain i w2 where w2: "new_obj (empty_obj\<lparr>o_props := [], o_array := None\<rparr>) w1 = (i, w2)" by force
  then have i: "i = 0" and ob: "w_objs w2 0 \<noteq> None" by (auto simp: new_obj_def w1 boot_def)
  have h: "r_runtime (w_rust w2)" "env_event_new sample_env (Suc (w_next w2))" "\<forall>j. w_stash w2 ''iroh_connkeymap'' \<noteq> Some (GsObj j)"
    "env_pipe sample_env (r_next (w_rust w2)) = Some 0" "(0 :: int) \<le> 0" "w_next w2 = 1"
    using w2 by (auto simp: new_obj_def w1 boot_def)
  obtain w3 c k where w3: "duk_rp_iroh_endpoint sample_env True 0 JUndefined w2 = Inr (Ret JUndefined, w3)"
    "w_evs w3 = (w_evs w2)(Suc (w_next w2) := True)" "w_ctxs w3 = (w_ctxs w2)(w_next w2 \<mapsto> c)"
    "w_ops w3 = (w_ops w2)(Suc (w_next w2) \<mapsto> \<lparr>aop_ictx = w_next w2, aop_handle = Some k,
       aop_op = IROH_OP_ENDPOINT_CREATE, aop_ev = Some (Suc (w_next w2)), aop_aux = 0\<rparr>)"
    "r_handles (w_rust w3) = (r_handles (w_rust w2))(k \<mapsto> handle_new 0 (RqEndpointCreate iroh_endpoint_config_default))"
    using endpoint_runs[OF ob h(1-5)] by blast
  have "script sample_env maker (Suc (Suc (Suc 0))) w1 0 0 [] = Inr (False, w3)"
    using w2 i ob w3(1) by (simp add: script_def maker_def restrain_def permitted_def nth_arg_def)
  with reachable.step[OF reachable.start sys_step.load[OF m]] have "reachable sample_env maker w3"
    by (meson reachable.step sys_step.enter)
  with w3(2-) h(6) show ?thesis by (auto simp: numeral_2_eq_2)
qed

text \<open>
  C1: No disciplined program can make the module commit a memory error: in every state the system
  can reach, whatever the program, the environment's answers, the order in which tasks finish
  and events fire, the next step (a script entering the module, a task finishing, an event
  firing) commits no use after free, no double free and no access out of bounds and lets no
  exception escape into the event loop. The one fault left is the overflow of the 16-bit pending
  table. Disciplined programs do not call \<open>endpoint.close\<close>, \<open>connection.close\<close>,
  \<open>stream.destroy\<close> or close a gossip object or topic.
\<close>

theorem system_safe:
  assumes "disciplined prog" and "reachable env prog w"
  shows "{e. sys_fault env prog w e} \<subseteq> {PendingOverflow}"
  using sys_fault_overflow[OF assms(1)] reachable_good[OF assms] by blast

theorem system_safe_witness:
  "\<exists>w. w_evs w 2 \<and> {e. sys_fault sample_env maker w e} \<subseteq> {PendingOverflow}"
  using maker_reaches system_safe[OF maker_disciplined] by blast

text \<open>
  C2: Who owns what, in every reachable state. Every registered event belongs to an operation that is
  alive, is listed exactly once in the pending table of a live context and holds a handle that C
  has not given back; no two operations share a handle. Every Rust object a context points to is
  alive, of the kind the field says, and no other context points to it. Every context's object
  is a live emitter, and an object's hidden pointer leads back to a context that is open.
\<close>

theorem reachable_ownership:
  assumes "disciplined prog" and "reachable env prog w"
  shows "(\<forall>p. w_evs w p \<longrightarrow> (\<exists>x c h ah. w_ops w p = Some x \<and> aop_ev x = Some p \<and> w_ctxs w (aop_ictx x) = Some c
            \<and> count_list (pending c) p = 1 \<and> aop_handle x = Some h \<and> r_handles (w_rust w) h = Some ah \<and> h_cref ah))
     \<and> (\<forall>p q x y. w_ops w p = Some x \<and> w_ops w q = Some y \<and> aop_handle x = aop_handle y \<longrightarrow> p = q)
     \<and> (\<forall>a c k n. w_ctxs w a = Some c \<and> res_of c k = Some n \<longrightarrow> r_res (w_rust w) n = Some k
          \<and> (\<forall>b d l. w_ctxs w b = Some d \<and> res_of d l = Some n \<longrightarrow> b = a \<and> l = k))
     \<and> (\<forall>a c. w_ctxs w a = Some c \<longrightarrow> events_of w (thisptr c) \<noteq> None)
     \<and> (\<forall>i a. this_ictx w i = Some a \<longrightarrow> (\<exists>c. w_ctxs w a = Some c \<and> thisptr c = i \<and> \<not> has_flag (flags c) RPIROH_FLAG_CLOSED))"
proof -
  have inv: "Inv w" using reachable_good[OF assms] by simp
  have ev: "\<exists>x c h ah. w_ops w p = Some x \<and> aop_ev x = Some p \<and> w_ctxs w (aop_ictx x) = Some c
      \<and> count_list (pending c) p = 1 \<and> aop_handle x = Some h \<and> r_handles (w_rust w) h = Some ah \<and> h_cref ah"
    if e: "w_evs w p" for p
  proof -
    obtain x where x: "w_ops w p = Some x" using e inv by (auto simp: Inv_def VInv_def)
    then obtain c h where "w_ctxs w (aop_ictx x) = Some c" "p \<in> set (pending c)" "aop_ev x = Some p" "aop_handle x = Some h"
      "handle_live (w_rust w) h" using Inv_op[OF inv x] by (auto simp: op_ok_def)
    moreover have "distinct (pending c)" using Inv_ctx[OF inv calculation(1)] by (simp add: ctx_ok_def)
    ultimately show ?thesis using x count_list_distinct by (fastforce simp: handle_live_def)
  qed
  have own: "r_res (w_rust w) n = Some k \<and> (\<forall>b d l. w_ctxs w b = Some d \<and> res_of d l = Some n \<longrightarrow> b = a \<and> l = k)"
    if c: "w_ctxs w a = Some c" "res_of c k = Some n" for a c k n
  proof -
    have o: "owners_ok (view w)" using inv by (simp add: Inv_def VInv_def)
    have k: "r_res (w_rust w) n = Some k" using Inv_res_kind[OF inv c] by simp
    have "b = a \<and> l = k" if d: "w_ctxs w b = Some d" "res_of d l = Some n" for b d l
    proof -
      have "vc (view w) a = Some (core c)" "vc (view w) b = Some (core d)" "v_res (core c) k = Some n" "v_res (core d) l = Some n"
        using c d by simp_all
      with o have "b = a" unfolding owners_ok_def by blast
      with k Inv_res_kind[OF inv d] show ?thesis by simp
    qed
    with k show ?thesis by blast
  qed
  have "p = q" if "w_ops w p = Some x" "w_ops w q = Some y" "aop_handle x = aop_handle y" for p q x y
    using inv that unfolding Inv_def VInv_def handles_ok_def view_sel by blast
  moreover have "\<exists>c. w_ctxs w a = Some c \<and> thisptr c = i \<and> \<not> has_flag (flags c) RPIROH_FLAG_CLOSED" if "this_ictx w i = Some a" for i a
    using this_ictx_open[OF inv that] by (fastforce simp: open_at_def)
  ultimately show ?thesis using ev own Inv_emitter[OF inv] by blast
qed

theorem reachable_ownership_witness:
  "\<exists>w x c. reachable sample_env maker w \<and> w_evs w 2 \<and> w_ops w 2 = Some x \<and> w_ctxs w (aop_ictx x) = Some c
     \<and> count_list (pending c) 2 = 1"
proof -
  obtain w where w: "reachable sample_env maker w" "w_evs w 2" using maker_reaches by blast
  from conjunct1[OF reachable_ownership[OF maker_disciplined w(1)]] w show ?thesis by blast
qed

text \<open>
  C5: Nothing short-lived is leaked: between two entries into the module, every id, hash, address and
  ticket that was handed to C as a box of its own has been released, on every path of every
  method and handler, the error paths included.
\<close>

theorem no_leaked_ids:
  assumes "disciplined prog" and "reachable env prog w"
  shows "r_tmp (w_rust w) = (\<lambda>_. None)"
  using reachable_good[OF assms] by simp

theorem no_leaked_ids_witness: "\<exists>w. reachable sample_env maker w \<and> w_evs w 2 \<and> r_tmp (w_rust w) = (\<lambda>_. None)"
proof -
  obtain w where "reachable sample_env maker w" "w_evs w 2" using maker_reaches by blast
  with no_leaked_ids[OF maker_disciplined this(1)] show ?thesis by auto
qed

text \<open>
  C3: No operation is left behind. In every reachable state, an operation in flight has a registered
  event and a handle. As long as the handle is pending its task is running, a spurious wake-up
  changes nothing, the task can finish, whatever its outcome, and the event then releases the
  operation; once the handle is not pending, the event releases it at once. Released means for
  good: no later step of the system brings the operation or its event back, so no completion is
  dispatched twice.
\<close>

theorem operations_finish:
  assumes "disciplined prog" and "reachable env prog w" and "w_ops w p = Some x"
  shows "w_evs w p \<and> (\<exists>h ah. aop_handle x = Some h \<and> r_handles (w_rust w) h = Some ah
     \<and> (if h_state ah = Pending
        then h_running ah \<and> iroh_async_cb env (script env prog n) p w = Inr w
          \<and> (\<forall>out. \<exists>r. task_complete (w_rust w) h out = Inr r \<and> released_by_event env prog p (w\<lparr>w_rust := r\<rparr>))
        else released_by_event env prog p w))"
proof -
  have inv: "Inv w" using reachable_good[OF assms(1,2)] by simp
  obtain h ah where h: "w_evs w p" "aop_handle x = Some h" "r_handles (w_rust w) h = Some ah" "h_cref ah"
    using Inv_op[OF inv assms(3)] by (auto simp: op_ok_def handle_live_def)
  have "h_running ah \<and> iroh_async_cb env (script env prog n) p w = Inr w
      \<and> (\<forall>out. \<exists>r. task_complete (w_rust w) h out = Inr r \<and> released_by_event env prog p (w\<lparr>w_rust := r\<rparr>))"
    if pend: "h_state ah = Pending"
  proof (intro conjI allI)
    show run: "h_running ah" using attendedD[of "r_handles (w_rust w)" h ah] h(3) pend Inv_RInv[OF inv]
      by (simp add: RInv_def)
    show "iroh_async_cb env (script env prog n) p w = Inr w"
      using assms(3) h pend by (simp add: iroh_async_cb_def iroh_async_poll_def get_handle_def)
    fix out
    obtain r where r: "task_complete (w_rust w) h out = Inr r" "Inv (w\<lparr>w_rust := r\<rparr>)"
      using task_complete_step[OF inv h(3) run] .
    obtain ah' where "r_handles r h = Some ah'" "h_state ah' \<noteq> Pending" "h_cref ah'"
      using completed_handle[OF r(1) h(3)] h(4) by metis
    with r assms(1,3) h(2) show "\<exists>r. task_complete (w_rust w) h out = Inr r
        \<and> released_by_event env prog p (w\<lparr>w_rust := r\<rparr>)"
      by (auto intro!: finished_released[where x = x and h = h and ah = ah'])
  qed
  moreover have "released_by_event env prog p w" if "h_state ah \<noteq> Pending"
    by (rule finished_released[OF assms(1) inv assms(3) h(2-4) that])
  ultimately show ?thesis using h by auto
qed

theorem operations_finish_witness:
  "\<exists>w x h r. reachable sample_env maker w \<and> w_ops w 2 = Some x \<and> aop_handle x = Some h
     \<and> task_complete (w_rust w) h (Inl ''relay unreachable'') = Inr r
     \<and> released_by_event sample_env maker 2 (w\<lparr>w_rust := r\<rparr>)"
proof -
  obtain w x h where w: "reachable sample_env maker w" "w_ops w 2 = Some x" "aop_handle x = Some h"
    "r_handles (w_rust w) h = Some (handle_new 0 (RqEndpointCreate iroh_endpoint_config_default))"
    using maker_reaches by blast
  from operations_finish[OF maker_disciplined w(1,2)] w show ?thesis by (fastforce simp: handle_new_def)
qed



end
